(* ===== verification/Prelude.thy ===== *)
theory Prelude
  imports Main
begin

text \<open>
  Shared vocabulary of the development: the exceptions the Python code raises, as values;
  Python's slicing and indexing on lists; the bounded-history interface that every
  capped list of the program implements (journals, candle histories, telemetry rings).
\<close>

named_theorems step_simps \<open>defining equations of the operations a component steps through\<close>

section \<open>Exceptions as values\<close>

datatype py_error =
    ValueError
  | KeyError
  | IndexError
  | TypeError
  | ZeroDivisionError
  | OverflowError
  | PermissionError
  | ConnectionError
  | RuntimeError
  | AssertionError
  | AttributeError
  | ValidationError
  | LiveFeedError
  | StructError
  | OSError
  | JSONDecodeError
  | HookError string

text \<open>What \<open>except OSError\<close> catches.\<close>

definition is_os_error :: "py_error \<Rightarrow> bool" where
  "is_os_error e \<longleftrightarrow> e \<in> {OSError, PermissionError, ConnectionError}"

type_synonym 'a result = "py_error + 'a"

abbreviation Ok :: "'a \<Rightarrow> 'a result" where "Ok \<equiv> Inr"
abbreviation Raise :: "py_error \<Rightarrow> 'a result" where "Raise \<equiv> Inl"

definition rbind :: "'a result \<Rightarrow> ('a \<Rightarrow> 'b result) \<Rightarrow> 'b result" where
  "rbind r f = (case r of Inl e \<Rightarrow> Inl e | Inr x \<Rightarrow> f x)"

lemma rbind_simps [simp]:
  "rbind (Inl e) f = Inl e"
  "rbind (Inr x) f = f x"
  by (simp_all add: rbind_def)

lemma rbind_Inr_iff: "rbind r f = Inr y \<longleftrightarrow> (\<exists>x. r = Inr x \<and> f x = Inr y)"
  by (cases r) auto

fun is_ok :: "'a result \<Rightarrow> bool" where
  "is_ok (Inl _) = False"
| "is_ok (Inr _) = True"

lemma is_ok_iff: "is_ok r \<longleftrightarrow> (\<exists>x. r = Inr x)"
  by (cases r) auto

text \<open>A \<open>for\<close> loop over a list whose body may raise, collecting results.\<close>

fun traverse :: "('a \<Rightarrow> 'b result) \<Rightarrow> 'a list \<Rightarrow> 'b list result" where
  "traverse f [] = Inr []"
| "traverse f (x # xs) = rbind (f x) (\<lambda>y. rbind (traverse f xs) (\<lambda>ys. Inr (y # ys)))"

lemma traverse_Inr: "(\<And>x. x \<in> set xs \<Longrightarrow> f x = Inr (g x)) \<Longrightarrow> traverse f xs = Inr (map g xs)"
  by (induction xs) auto

section \<open>Python lists\<close>

text \<open>\<open>xs[-n:]\<close> for a positive \<open>n\<close>, and \<open>xs[i]\<close> with negative indices counted from the end.\<close>

definition lastn :: "nat \<Rightarrow> 'a list \<Rightarrow> 'a list" where
  "lastn n xs = drop (length xs - n) xs"

definition py_index :: "'a list \<Rightarrow> int \<Rightarrow> 'a result" where
  "py_index items k =
     (if 0 \<le> k then if nat k < length items then Ok (items ! nat k) else Raise IndexError
      else if nat (- k) \<le> length items then Ok (items ! (length items - nat (- k)))
      else Raise IndexError)"

lemma length_lastn [simp]: "length (lastn n xs) = min n (length xs)"
  by (simp add: lastn_def)

lemma lastn_all: "length xs \<le> n \<Longrightarrow> lastn n xs = xs"
  by (simp add: lastn_def)

lemma set_lastn: "set (lastn n xs) \<subseteq> set xs"
  by (simp add: lastn_def set_drop_subset)

lemma lastn_snoc: "0 < n \<Longrightarrow> lastn n (xs @ [x]) = lastn (n - 1) xs @ [x]"
  by (cases "length xs < n") (auto simp: lastn_def Suc_diff_le)

lemma last_lastn: "0 < n \<Longrightarrow> xs \<noteq> [] \<Longrightarrow> last (lastn n xs) = last xs"
  by (simp add: lastn_def last_drop)

lemma lastn_eq_Nil [simp]: "lastn n xs = [] \<longleftrightarrow> n = 0 \<or> xs = []"
  by (cases xs) (auto simp: lastn_def)

lemma lastn_lastn_append: "lastn n (lastn n xs @ ys) = lastn n (xs @ ys)"
proof (cases "length xs \<le> n")
  case True
  then show ?thesis by (simp add: lastn_all)
next
  case False
  show ?thesis
    by (simp only: lastn_def drop_append drop_drop length_append length_drop)
      (rule arg_cong2 [where f = "(@)"]; rule arg_cong2 [where f = drop]; use False in simp)
qed

lemma py_index_last: "xs \<noteq> [] \<Longrightarrow> py_index xs (- 1) = Ok (last xs)"
  by (cases xs) (auto simp: py_index_def last_conv_nth)

text \<open>
  \<open>py_max\<close> and its kin live with the floats; lists of naturals and integers use the
  library's \<open>max\<close>.
\<close>

section \<open>Bounded histories\<close>

text \<open>
  The program keeps several lists that must not grow without bound over a long life:
  the transition journal, the candle history, the telemetry ring, the survived pullback
  depths. Each appends one item and then keeps the newest \<open>cap\<close> of them. A client needs
  only these two laws.
\<close>

locale bounded_history =
  fixes push :: "'a \<Rightarrow> 's \<Rightarrow> 's"
    and items :: "'s \<Rightarrow> 'a list"
    and cap :: "'s \<Rightarrow> nat"
  assumes items_push: "items (push x s) = lastn (cap s) (items s @ [x])"
    and cap_push: "cap (push x s) = cap s"
begin

definition bounded :: "'s \<Rightarrow> bool" where
  "bounded s \<longleftrightarrow> length (items s) \<le> cap s"

lemma bounded_push: "bounded (push x s)"
  by (simp add: bounded_def items_push cap_push)

lemma cap_fold: "cap (fold push xs s) = cap s"
  by (induction xs arbitrary: s) (simp_all add: cap_push)

lemma items_fold: "bounded s \<Longrightarrow> items (fold push xs s) = lastn (cap s) (items s @ xs)"
proof (induction xs arbitrary: s)
  case Nil
  then show ?case by (simp add: bounded_def lastn_all)
next
  case (Cons x xs)
  have "items (fold push xs (push x s)) = lastn (cap s) (lastn (cap s) (items s @ [x]) @ xs)"
    using Cons.IH [OF bounded_push [of x s]] by (simp add: items_push cap_push)
  then show ?case by (simp add: lastn_lastn_append)
qed

lemma length_fold: "bounded s \<Longrightarrow> length (items (fold push xs s)) \<le> cap s"
  by (simp add: items_fold)

lemma newest_kept: "0 < cap s \<Longrightarrow> last (items (push x s)) = x"
  by (simp add: items_push last_lastn)

lemma push_grows: "length (items s) < cap s \<Longrightarrow> items (push x s) = items s @ [x]"
  by (simp add: items_push lastn_all)

end

end
