(* ===== verification/PyFloat.thy ===== *)
theory PyFloat
  imports Complex_Main Prelude
begin

text \<open>
  Python's \<open>float\<close>, an IEEE 754 binary64 number, as an executable type: the finite
  values are the rationals they denote, and every operation rounds its exact result to
  the nearest double (ties to even, gradual underflow, overflow to the infinities), so
  \<open>0.1 + 0.2 \<noteq> 0.3\<close> holds here too. NaN and the infinities take part in arithmetic
  and comparisons as they do in Python. The one thing not represented is the sign of a
  zero, which the program cannot observe: it never prints it, never copies it and a
  division by either zero raises.

  The second half holds what the program uses of the standard library: \<open>max\<close>,
  \<open>min\<close>, \<open>sum\<close> (CPython 3.12's compensated summation), \<open>math.isfinite\<close>,
  \<open>math.floor\<close>, \<open>int\<close>, \<open>round\<close>, the floor division \<open>//\<close>, and the lemmas
  the components share: rounding is monotone and exact on small integers, comparisons are
  transitive, a quotient of a smaller by a larger number lies between 0 and 1.
\<close>

section \<open>Binary64\<close>

subsection \<open>Binary exponents of rationals\<close>

text \<open>The number of binary digits of a positive integer.\<close>

function blen :: "int \<Rightarrow> int" where
  "blen n = (if n \<le> 0 then 0 else blen (n div 2) + 1)"
  by pat_completeness auto
termination
  by (relation "measure nat") auto
declare blen.simps [simp del]

lemma blen_pos: "0 < n \<Longrightarrow> 0 < blen n"
proof (induction n rule: blen.induct)
  case (1 n)
  then show ?case
    by (cases "n div 2 \<le> 0") (simp_all add: blen.simps [of n] blen.simps [of "n div 2"] blen.simps [of 0])
qed

lemma blen_bounds: "0 < n \<Longrightarrow> 2 ^ nat (blen n - 1) \<le> n \<and> n < 2 ^ nat (blen n)"
proof (induction n rule: blen.induct)
  case (1 n)
  show ?case
  proof (cases "n div 2 \<le> 0")
    case True
    with 1(2) have "n = 1" by simp
    then show ?thesis by (simp add: blen.simps)
  next
    case False
    with 1 have ih: "2 ^ nat (blen (n div 2) - 1) \<le> n div 2 \<and> n div 2 < 2 ^ nat (blen (n div 2))" by simp
    have b: "blen n = blen (n div 2) + 1" using 1(2) by (subst blen.simps) simp
    have "0 < blen (n div 2)" using False by (intro blen_pos) simp
    then obtain k where k: "blen (n div 2) = int k + 1"
      by (metis add.commute add_diff_cancel_left' int_one_le_iff_zero_less zle_iff_zadd)
    show ?thesis using ih unfolding b k by (auto simp: nat_add_distrib)
  qed
qed

lemma blen_rat_bounds:
  assumes "0 < (p::int)"
  shows "2 powi (blen p - 1) \<le> (of_int p :: rat)"
    and "(of_int p :: rat) < 2 powi blen p"
proof -
  have B: "2 ^ nat (blen p - 1) \<le> p" "p < 2 ^ nat (blen p)" and b: "0 < blen p"
    using blen_bounds [OF assms] blen_pos [OF assms] by auto
  have "(of_int (2 ^ nat (blen p - 1)) :: rat) \<le> of_int p" using B(1) of_int_le_iff by blast
  then show "2 powi (blen p - 1) \<le> (of_int p :: rat)" using b by (simp add: power_int_def)
  have "(of_int p :: rat) < of_int (2 ^ nat (blen p))" using B(2) of_int_less_iff by blast
  then show "(of_int p :: rat) < 2 powi blen p" using b by (simp add: power_int_def)
qed

definition flog2 :: "rat \<Rightarrow> int" where
  "flog2 x = (let (p, q) = quotient_of x; k = blen p - blen q
     in if 2 powi k \<le> x then k else k - 1)"

lemma flog2_bounds:
  assumes "0 < x"
  shows "2 powi flog2 x \<le> x" "x < 2 powi (flog2 x + 1)"
proof -
  obtain p q where pq: "quotient_of x = (p, q)" by fastforce
  have q: "0 < q" using quotient_of_denom_pos [OF pq] .
  have x: "x = of_int p / of_int q" using quotient_of_div [OF pq] .
  have p: "0 < p" using assms x q by (simp add: zero_less_divide_iff)
  define bp bq where "bp = blen p" and "bq = blen q"
  note P = blen_rat_bounds [OF p, folded bp_def]
  note Q = blen_rat_bounds [OF q, folded bq_def]
  have rq: "(0::rat) < of_int q" using q by simp
  have "(2::rat) powi (bp - bq - 1) * of_int q \<le> 2 powi (bp - bq - 1) * 2 powi bq"
    using Q(2) by (intro mult_left_mono) auto
  also have "\<dots> = 2 powi (bp - 1)" by (simp add: power_int_add [symmetric])
  also have "\<dots> \<le> of_int p" by (rule P(1))
  finally have lo: "2 powi (bp - bq - 1) \<le> x" unfolding x using rq by (simp add: pos_le_divide_eq)
  have "(of_int p :: rat) < 2 powi bp" by (rule P(2))
  also have "\<dots> = (2::rat) powi (bp - bq + 1) * 2 powi (bq - 1)" by (simp add: power_int_add [symmetric])
  also have "\<dots> \<le> 2 powi (bp - bq + 1) * of_int q" using Q(1) by (intro mult_left_mono) auto
  finally have hi: "x < 2 powi (bp - bq + 1)" unfolding x using rq by (simp add: pos_divide_less_eq)
  have f: "flog2 x = (if 2 powi (bp - bq) \<le> x then bp - bq else bp - bq - 1)"
    by (simp add: flog2_def pq bp_def bq_def)
  show "2 powi flog2 x \<le> x" "x < 2 powi (flog2 x + 1)"
    using lo hi by (auto simp: f)
qed


text \<open>Powers of two with an integer exponent.\<close>

abbreviation p2 :: "int \<Rightarrow> rat" where "p2 k \<equiv> 2 powi k"

lemma p2_add: "p2 (a + b) = p2 a * p2 b"
  by (simp add: power_int_add)

lemma p2_diff: "p2 (a - b) = p2 a / p2 b"
  by (simp add: power_int_diff)

lemma p2_mono: "a \<le> b \<Longrightarrow> p2 a \<le> p2 b"
  by (rule power_int_increasing) auto

lemma p2_less_iff: "p2 a < p2 b \<longleftrightarrow> a < b"
  by (metis linorder_not_less one_less_numeral_iff p2_mono power_int_strict_increasing semiring_norm(76))

lemma p2_nat: "0 \<le> k \<Longrightarrow> p2 k = of_int (2 ^ nat k)"
  by (simp add: power_int_def)

lemma flog2_unique:
  assumes "p2 k \<le> x" "x < p2 (k + 1)"
  shows "flog2 x = k"
proof -
  have "0 < x" using assms(1) by (rule less_le_trans [rotated]) simp
  note b = flog2_bounds [OF this]
  from b(1) assms(2) have "flog2 x < k + 1" by (metis p2_less_iff le_less_trans)
  moreover from b(2) assms(1) have "k < flog2 x + 1" by (metis p2_less_iff le_less_trans)
  ultimately show ?thesis by simp
qed

lemma flog2_mono: "0 < x \<Longrightarrow> x \<le> y \<Longrightarrow> flog2 x \<le> flog2 y"
proof -
  assume "0 < x" "x \<le> y"
  then have "p2 (flog2 x) < p2 (flog2 y + 1)"
    using flog2_bounds(1) [of x] flog2_bounds(2) [of y] by linarith
  then show ?thesis by (simp add: p2_less_iff)
qed

subsection \<open>Rounding\<close>

text \<open>Round to the nearest integer, ties to the even one.\<close>

definition rne :: "rat \<Rightarrow> int" where
  "rne x = (let f = \<lfloor>x\<rfloor>; d = x - of_int f
     in if d < 1/2 then f else if 1/2 < d then f + 1 else if even f then f else f + 1)"

lemma rne_of_int [simp]: "rne (of_int n) = n"
  by (simp add: rne_def)

lemma rne_floor: "\<lfloor>x\<rfloor> \<le> rne x" "rne x \<le> \<lfloor>x\<rfloor> + 1"
  by (auto simp: rne_def Let_def)

lemma rne_mono:
  assumes "x \<le> y"
  shows "rne x \<le> rne y"
proof (cases "\<lfloor>x\<rfloor> = \<lfloor>y\<rfloor>")
  case True
  with assms show ?thesis by (auto simp: rne_def Let_def)
next
  case False
  with floor_mono [OF assms] have "\<lfloor>x\<rfloor> + 1 \<le> \<lfloor>y\<rfloor>" by simp
  with rne_floor(2) [of x] rne_floor(1) [of y] show ?thesis by simp
qed

lemma rne_minus: "rne (- x) = - rne x"
proof (cases "x \<in> \<int>")
  case True
  then obtain n where "x = of_int n" by (auto elim: Ints_cases)
  then show ?thesis by (metis of_int_minus rne_of_int)
next
  case False
  then have "x \<noteq> of_int \<lfloor>x\<rfloor>" by (metis Ints_of_int)
  moreover have "of_int \<lfloor>x\<rfloor> \<le> x" "x < of_int \<lfloor>x\<rfloor> + 1" by linarith+
  ultimately have "of_int \<lfloor>x\<rfloor> < x" "x < of_int \<lfloor>x\<rfloor> + 1" by (auto simp: less_le)
  then have f: "\<lfloor>- x\<rfloor> = - \<lfloor>x\<rfloor> - 1" by (intro floor_unique) auto
  show ?thesis by (auto simp: rne_def Let_def f)
qed

lemma rne_error: "\<bar>of_int (rne x) - x\<bar> \<le> 1/2"
  using floor_correct [of x] by (auto simp: rne_def Let_def abs_le_iff)

text \<open>
  Round to 53 significant bits, with the exponent of the last bit at least \<open>- 1074\<close>
  (gradual underflow). Overflow is decided afterwards, in \<open>to_f64\<close>.
\<close>

definition uexp :: "rat \<Rightarrow> int" where
  "uexp x = max (flog2 \<bar>x\<bar> - 52) (- 1074)"

definition rnd :: "rat \<Rightarrow> rat" where
  "rnd x = (if x = 0 then 0 else of_int (rne (x / p2 (uexp x))) * p2 (uexp x))"

lemma uexp_minus [simp]: "uexp (- x) = uexp x"
  by (simp add: uexp_def)

lemma rnd_0 [simp]: "rnd 0 = 0"
  by (simp add: rnd_def)

lemma rnd_minus: "rnd (- x) = - rnd x"
  by (simp add: rnd_def rne_minus)

lemma rnd_nonneg: "0 \<le> x \<Longrightarrow> 0 \<le> rnd x"
  using rne_mono [of 0 "x / p2 (uexp x)"] rne_of_int [of 0] by (auto simp: rnd_def)

lemma rnd_mono_pos:
  assumes "0 < x" "x \<le> y"
  shows "rnd x \<le> rnd y"
proof (cases "uexp x = uexp y")
  case True
  have "x / p2 (uexp y) \<le> y / p2 (uexp y)" using assms by (intro divide_right_mono) auto
  then have "rne (x / p2 (uexp y)) \<le> rne (y / p2 (uexp y))" by (rule rne_mono)
  then show ?thesis using assms True by (simp add: rnd_def)
next
  case False
  have fm: "flog2 x \<le> flog2 y" using assms by (rule flog2_mono)
  have e2: "uexp y = flog2 y - 52" and lt: "flog2 x < flog2 y"
    using False fm assms unfolding uexp_def by auto
  have e1: "uexp x \<le> flog2 y - 52" using fm e2 assms unfolding uexp_def by auto
  note yb = flog2_bounds [of y] and xb = flog2_bounds [of x]
  have "p2 52 * p2 (uexp y) = p2 (flog2 y)" unfolding e2 p2_add [symmetric] by simp
  with yb(1) assms have "p2 52 \<le> y / p2 (uexp y)" by (subst pos_le_divide_eq) auto
  then have "rne (of_int (2 ^ 52)) \<le> rne (y / p2 (uexp y))"
    by (intro rne_mono) (simp add: power_int_def)
  then have "(of_int (2 ^ 52) :: rat) \<le> of_int (rne (y / p2 (uexp y)))"
    unfolding rne_of_int by (rule of_int_le_iff [THEN iffD2])
  then have "p2 52 * p2 (uexp y) \<le> rnd y"
    using assms by (simp add: rnd_def mult_right_mono)
  then have hi: "p2 (flog2 y) \<le> rnd y" unfolding e2 p2_add [symmetric] by simp
  have "x \<le> p2 (flog2 y)" using xb(2) assms p2_mono [of "flog2 x + 1" "flog2 y"] lt by linarith
  then have "x / p2 (uexp x) \<le> p2 (flog2 y - uexp x)"
    by (simp add: p2_diff divide_right_mono)
  also have "\<dots> = of_int (2 ^ nat (flog2 y - uexp x))" using e1 by (intro p2_nat) simp
  finally have "rne (x / p2 (uexp x)) \<le> 2 ^ nat (flog2 y - uexp x)"
    using rne_mono rne_of_int by metis
  then have "(of_int (rne (x / p2 (uexp x))) :: rat) \<le> p2 (flog2 y - uexp x)"
    using e1 by (subst p2_nat) (simp, simp only: of_int_le_iff)
  then have "rnd x \<le> p2 (flog2 y - uexp x) * p2 (uexp x)"
    using assms by (simp add: rnd_def mult_right_mono)
  also have "\<dots> = p2 (flog2 y)" by (simp flip: p2_add)
  finally show ?thesis using hi by simp
qed

lemma rnd_mono:
  assumes "x \<le> y"
  shows "rnd x \<le> rnd y"
proof -
  consider "0 < x" | "x \<le> 0" "0 \<le> y" | "y < 0" by linarith
  then show ?thesis
  proof cases
    case 1
    then show ?thesis using assms by (rule rnd_mono_pos)
  next
    case 2
    then have "rnd x \<le> 0" using rnd_nonneg [of "- x"] by (simp add: rnd_minus)
    moreover have "0 \<le> rnd y" using 2 by (intro rnd_nonneg)
    ultimately show ?thesis by simp
  next
    case 3
    then have "rnd (- y) \<le> rnd (- x)" using assms by (intro rnd_mono_pos) auto
    then show ?thesis by (simp add: rnd_minus)
  qed
qed

lemma rnd_exact_pos:
  assumes "0 < n" "n \<le> 2 ^ 53" "- 1074 \<le> e"
  shows "rnd (of_int n * p2 e) = of_int n * p2 e"
proof -
  let ?x = "of_int n * p2 e"
  have x0: "0 < ?x" using assms by simp
  have "(of_int n :: rat) \<le> of_int (2 ^ 53)" using assms(2) by (simp only: of_int_le_iff)
  then have "?x \<le> p2 53 * p2 e" by (intro mult_right_mono) (auto simp: power_int_def)
  then have le: "?x \<le> p2 (e + 53)" by (simp add: p2_add mult.commute)
  have "\<exists>m. ?x / p2 (uexp ?x) = of_int m"
  proof (cases "n = 2 ^ 53")
    case True
    have "?x = p2 (53 + e)" by (simp add: True p2_add)
    moreover have "flog2 (p2 (53 + e)) = 53 + e" by (rule flog2_unique) (auto simp: p2_less_iff)
    ultimately have "uexp ?x = e + 1" using assms(3) by (simp add: uexp_def)
    with \<open>?x = p2 (53 + e)\<close> have "?x / p2 (uexp ?x) = p2 (53 + e - (e + 1))" by (simp only: p2_diff)
    also have "\<dots> = of_int (2 ^ 52)" by (simp add: power_int_def)
    finally show ?thesis by blast
  next
    case False
    then have "(of_int n :: rat) < of_int (2 ^ 53)" using assms(2) by (simp only: of_int_less_iff)
    then have "?x < of_int (2 ^ 53) * p2 e" by (intro mult_strict_right_mono) auto
    then have "?x < p2 (e + 53)" by (simp add: p2_add mult.commute)
    with flog2_bounds(1) [OF x0] have "flog2 ?x < e + 53" by (metis p2_less_iff le_less_trans)
    then have ue: "uexp ?x \<le> e" using x0 assms(3) unfolding uexp_def by simp
    have "?x / p2 (uexp ?x) = of_int n * p2 (e - uexp ?x)" by (simp add: p2_diff)
    also have "\<dots> = of_int (n * 2 ^ nat (e - uexp ?x))" using ue by (simp add: p2_nat)
    finally show ?thesis by blast
  qed
  then obtain m where "?x / p2 (uexp ?x) = of_int m" by blast
  then have "rnd ?x = ?x / p2 (uexp ?x) * p2 (uexp ?x)" using x0 assms(1) by (simp add: rnd_def)
  then show ?thesis by simp
qed

lemma rnd_exact:
  assumes "\<bar>n\<bar> \<le> 2 ^ 53" "- 1074 \<le> e"
  shows "rnd (of_int n * p2 e) = of_int n * p2 e"
proof -
  consider "0 < n" | "n = 0" | "n < 0" by linarith
  then show ?thesis
  proof cases
    case 1
    then show ?thesis using assms by (intro rnd_exact_pos) auto
  next
    case 3
    then have "rnd (of_int (- n) * p2 e) = of_int (- n) * p2 e" using assms by (intro rnd_exact_pos) auto
    then show ?thesis by (simp add: rnd_minus)
  qed simp
qed

lemma rnd_int: "\<bar>n\<bar> \<le> 2 ^ 53 \<Longrightarrow> rnd (of_int n) = of_int n"
  using rnd_exact [of n 0] by simp

lemma rnd_idem [simp]: "rnd (rnd x) = rnd x"
proof (cases "x = 0")
  case False
  let ?e = "uexp x"
  have "\<bar>x\<bar> < p2 (flog2 \<bar>x\<bar> + 1)" using False by (intro flog2_bounds(2)) simp
  also have "\<dots> \<le> p2 (53 + ?e)" by (intro p2_mono) (simp add: uexp_def)
  also have "\<dots> = of_int (2 ^ 53) * p2 ?e" by (simp add: p2_add)
  finally have a: "\<bar>x\<bar> / p2 ?e \<le> of_int (2 ^ 53)" by (subst pos_divide_le_eq) auto
  have "rne (x / p2 ?e) \<le> rne (of_int (2 ^ 53))"
    using a by (intro rne_mono) (auto simp: abs_le_iff divide_simps split: if_splits)
  moreover have "rne (of_int (- (2 ^ 53))) \<le> rne (x / p2 ?e)"
    using a by (intro rne_mono) (auto simp: abs_le_iff divide_simps split: if_splits)
  ultimately have "\<bar>rne (x / p2 ?e)\<bar> \<le> 2 ^ 53" unfolding rne_of_int by simp
  then have "rnd (of_int (rne (x / p2 ?e)) * p2 ?e) = of_int (rne (x / p2 ?e)) * p2 ?e"
    by (rule rnd_exact) (simp add: uexp_def)
  then show ?thesis using False by (simp add: rnd_def [of x])
qed simp


subsection \<open>The values and the operations\<close>

definition f64_max :: rat where
  "f64_max = of_int ((2 ^ 53 - 1) * 2 ^ 971)"

datatype pyfloat = Fin rat | PInf | NInf | NaN

definition to_f64 :: "rat \<Rightarrow> pyfloat" where
  "to_f64 x = (let y = rnd x in if f64_max < y then PInf else if y < - f64_max then NInf else Fin y)"

definition signed_inf :: "bool \<Rightarrow> pyfloat" where
  "signed_inf pos = (if pos then PInf else NInf)"

instantiation pyfloat :: "{zero, one, plus, minus, uminus, times, inverse, abs, ord}"
begin

definition zero_pyfloat :: pyfloat where "zero_pyfloat = Fin 0"
definition one_pyfloat :: pyfloat where "one_pyfloat = Fin 1"

fun uminus_pyfloat :: "pyfloat \<Rightarrow> pyfloat" where
  "uminus_pyfloat (Fin x) = Fin (- x)"
| "uminus_pyfloat PInf = NInf"
| "uminus_pyfloat NInf = PInf"
| "uminus_pyfloat NaN = NaN"

fun plus_pyfloat :: "pyfloat \<Rightarrow> pyfloat \<Rightarrow> pyfloat" where
  "plus_pyfloat (Fin x) (Fin y) = to_f64 (x + y)"
| "plus_pyfloat NaN _ = NaN"
| "plus_pyfloat _ NaN = NaN"
| "plus_pyfloat PInf NInf = NaN"
| "plus_pyfloat NInf PInf = NaN"
| "plus_pyfloat PInf _ = PInf"
| "plus_pyfloat _ PInf = PInf"
| "plus_pyfloat NInf _ = NInf"
| "plus_pyfloat _ NInf = NInf"

definition minus_pyfloat :: "pyfloat \<Rightarrow> pyfloat \<Rightarrow> pyfloat" where
  "minus_pyfloat x y = x + (- y)"

fun abs_pyfloat :: "pyfloat \<Rightarrow> pyfloat" where
  "abs_pyfloat (Fin x) = Fin \<bar>x\<bar>"
| "abs_pyfloat NaN = NaN"
| "abs_pyfloat _ = PInf"

fun less_pyfloat :: "pyfloat \<Rightarrow> pyfloat \<Rightarrow> bool" where
  "less_pyfloat (Fin x) (Fin y) = (x < y)"
| "less_pyfloat (Fin _) PInf = True"
| "less_pyfloat NInf (Fin _) = True"
| "less_pyfloat NInf PInf = True"
| "less_pyfloat _ _ = False"

fun less_eq_pyfloat :: "pyfloat \<Rightarrow> pyfloat \<Rightarrow> bool" where
  "less_eq_pyfloat (Fin x) (Fin y) = (x \<le> y)"
| "less_eq_pyfloat NaN _ = False"
| "less_eq_pyfloat _ NaN = False"
| "less_eq_pyfloat _ PInf = True"
| "less_eq_pyfloat NInf _ = True"
| "less_eq_pyfloat _ _ = False"

fun times_pyfloat :: "pyfloat \<Rightarrow> pyfloat \<Rightarrow> pyfloat" where
  "times_pyfloat (Fin x) (Fin y) = to_f64 (x * y)"
| "times_pyfloat NaN _ = NaN"
| "times_pyfloat _ NaN = NaN"
| "times_pyfloat (Fin x) y = (if x = 0 then NaN else signed_inf ((0 < x) = (y = PInf)))"
| "times_pyfloat x (Fin y) = (if y = 0 then NaN else signed_inf ((0 < y) = (x = PInf)))"
| "times_pyfloat x y = signed_inf (x = y)"

fun divide_pyfloat :: "pyfloat \<Rightarrow> pyfloat \<Rightarrow> pyfloat" where
  "divide_pyfloat (Fin x) (Fin y) = (if y = 0 then NaN else to_f64 (x / y))"
| "divide_pyfloat NaN _ = NaN"
| "divide_pyfloat _ NaN = NaN"
| "divide_pyfloat (Fin x) _ = Fin 0"
| "divide_pyfloat x (Fin y) = (if y = 0 then NaN else signed_inf ((0 < y) = (x = PInf)))"
| "divide_pyfloat _ _ = NaN"

definition inverse_pyfloat :: "pyfloat \<Rightarrow> pyfloat" where
  "inverse_pyfloat x = divide (Fin 1) x"

instance ..

end

section \<open>Order\<close>

text \<open>
  The comparisons are Python's: false whenever NaN takes part. They are transitive, and
  total on the values that are not NaN.
\<close>

named_theorems float_simps \<open>evaluation of float operations on finite values\<close>

lemma f64_max_pos: "0 < f64_max"
  by (simp add: f64_max_def)

lemma float_trans:
  fixes a b c :: pyfloat
  shows "a \<le> b \<Longrightarrow> b \<le> c \<Longrightarrow> a \<le> c" and "a < b \<Longrightarrow> b \<le> c \<Longrightarrow> a < c"
    and "a \<le> b \<Longrightarrow> b < c \<Longrightarrow> a < c" and "a < b \<Longrightarrow> b < c \<Longrightarrow> a < c"
  by (cases a; cases b; cases c; simp)+

lemma float_less_imp_le: "(a::pyfloat) < b \<Longrightarrow> a \<le> b"
  by (cases a; cases b) auto

lemma float_less_asym: "(a::pyfloat) < b \<Longrightarrow> \<not> b \<le> a"
  by (cases a; cases b) auto

lemma float_less_irrefl [simp]: "\<not> (a::pyfloat) < a"
  by (cases a) auto

lemma float_le_refl: "a \<noteq> NaN \<Longrightarrow> (a::pyfloat) \<le> a"
  by (cases a) auto

lemma float_not_less: "a \<noteq> NaN \<Longrightarrow> b \<noteq> NaN \<Longrightarrow> \<not> (a::pyfloat) < b \<longleftrightarrow> b \<le> a"
  by (cases a; cases b) auto

lemma float_not_le: "a \<noteq> NaN \<Longrightarrow> b \<noteq> NaN \<Longrightarrow> \<not> (a::pyfloat) \<le> b \<longleftrightarrow> b < a"
  by (cases a; cases b) auto

lemma float_le_NaN [simp]: "\<not> (a::pyfloat) \<le> NaN" "\<not> NaN \<le> (a::pyfloat)"
  "\<not> (a::pyfloat) < NaN" "\<not> NaN < (a::pyfloat)"
  by (cases a; simp)+

lemma float_zero_Fin [simp]: "(0::pyfloat) < Fin x \<longleftrightarrow> 0 < x" "(0::pyfloat) \<le> Fin x \<longleftrightarrow> 0 \<le> x"
  "Fin x < 0 \<longleftrightarrow> x < 0" "Fin x \<le> 0 \<longleftrightarrow> x \<le> 0" "Fin x \<le> 1 \<longleftrightarrow> x \<le> 1" "Fin x < 1 \<longleftrightarrow> x < 1"
  by (simp_all add: zero_pyfloat_def one_pyfloat_def)

text \<open>\<open>x == y\<close>: NaN differs from itself.\<close>

definition feq :: "pyfloat \<Rightarrow> pyfloat \<Rightarrow> bool" where
  "feq x y \<longleftrightarrow> x \<le> y \<and> y \<le> x"

lemma feq_iff: "feq x y \<longleftrightarrow> x = y \<and> x \<noteq> NaN"
  by (cases x; cases y) (auto simp: feq_def)

subsection \<open>Classification\<close>

fun isfinite :: "pyfloat \<Rightarrow> bool" where
  "isfinite (Fin _) = True"
| "isfinite _ = False"

definition isnan :: "pyfloat \<Rightarrow> bool" where
  "isnan x \<longleftrightarrow> x = NaN"

lemma isfinite_iff: "isfinite x \<longleftrightarrow> (\<exists>q. x = Fin q)"
  by (cases x) auto

lemma finiteE:
  assumes "isfinite x"
  obtains q where "x = Fin q"
  using assms by (cases x) auto

text \<open>
  The finite values that are doubles. Every operation returns one; a rational that is
  not a double can only enter through a variable.
\<close>

fun is_double :: "pyfloat \<Rightarrow> bool" where
  "is_double (Fin q) \<longleftrightarrow> rnd q = q \<and> \<bar>q\<bar> \<le> f64_max"
| "is_double _ = True"

lemma is_double_to_f64 [simp]: "is_double (to_f64 x)"
  by (auto simp: to_f64_def Let_def)

lemma is_double_plus [simp]: "is_double x \<Longrightarrow> is_double y \<Longrightarrow> is_double (x + y)"
  by (cases x; cases y) auto

lemma is_double_uminus [simp]: "is_double (- x) = is_double x"
  by (cases x) (auto simp: rnd_minus)

lemma is_double_minus [simp]: "is_double x \<Longrightarrow> is_double y \<Longrightarrow> is_double (x - y)"
  by (simp add: minus_pyfloat_def)

lemma is_double_times [simp]: "is_double x \<Longrightarrow> is_double y \<Longrightarrow> is_double (x * y)"
  by (cases x; cases y) (auto simp: signed_inf_def zero_pyfloat_def)

lemma is_double_divide [simp]: "is_double x \<Longrightarrow> is_double y \<Longrightarrow> is_double (x / y)"
  using f64_max_pos by (cases x; cases y) (auto simp: signed_inf_def)

lemma to_f64_double: "is_double (Fin q) \<Longrightarrow> to_f64 q = Fin q"
  by (auto simp: to_f64_def Let_def abs_le_iff)

lemma f64_max_ge: "2 ^ 53 \<le> f64_max"
  by (simp add: f64_max_def)

text \<open>
  Small dyadic numbers are exact; evaluation takes this shortcut before it rounds.
\<close>

lemma to_f64_dyadic:
  assumes "quotient_of x = (p, q)" "\<bar>p\<bar> \<le> 2 ^ 33" "(2 ^ 20) mod q = 0"
  shows "to_f64 x = Fin x"
proof -
  have q: "0 < q" and x: "x = of_int p / of_int q"
    using quotient_of_denom_pos [OF assms(1)] quotient_of_div [OF assms(1)] by auto
  have "q dvd 2 ^ 20" using assms(3) by (rule mod_0_imp_dvd)
  then obtain c where c: "2 ^ 20 = q * c" by (rule dvdE)
  have c0: "0 < c" using q c by (metis zero_less_mult_pos zero_less_numeral zero_less_power)
  have "c \<le> q * c" using q c0 by simp
  then have c20: "c \<le> 2 ^ 20" using c by simp
  have "\<bar>p\<bar> * c \<le> 2 ^ 33 * 2 ^ 20" using assms(2) c20 c0 by (intro mult_mono) auto
  then have "\<bar>p * c\<bar> \<le> 2 ^ 33 * 2 ^ 20" using c0 by (simp add: abs_mult)
  then have m: "\<bar>p * c\<bar> \<le> 2 ^ 53" by simp
  have "(of_int (2 ^ 20) :: rat) = of_int q * of_int c" using c by (metis of_int_mult)
  then have "x = of_int (p * c) * p2 (- 20)"
    using q c0 unfolding x by (simp add: power_int_minus field_simps)
  with rnd_exact [OF m, of "- 20"] have r: "rnd x = x" by (simp only:)
  have "1 * \<bar>of_int p\<bar> \<le> of_int q * \<bar>of_int p :: rat\<bar>" using q by (intro mult_right_mono) auto
  then have "\<bar>x\<bar> \<le> of_int \<bar>p\<bar>" using q unfolding x by (simp add: field_simps)
  also have "\<dots> \<le> of_int (2 ^ 33)" using assms(2) by (subst of_int_le_iff)
  finally have "\<bar>x\<bar> \<le> f64_max" using f64_max_ge by simp
  with r show ?thesis by (auto simp: to_f64_def Let_def)
qed

lemma to_f64_code [code]:
  "to_f64 x =
     (if (case quotient_of x of (p, q) \<Rightarrow> \<bar>p\<bar> \<le> 8589934592 \<and> 1048576 mod q = 0) then Fin x
      else let y = rnd x in if f64_max < y then PInf else if y < - f64_max then NInf else Fin y)"
proof (cases "quotient_of x")
  case (Pair p q)
  then show ?thesis using to_f64_dyadic [OF Pair] by (simp add: to_f64_def Let_def)
qed

lemma to_f64_int: "\<bar>n\<bar> \<le> 2 ^ 53 \<Longrightarrow> to_f64 (of_int n) = Fin (of_int n)"
proof -
  assume n: "\<bar>n\<bar> \<le> 2 ^ 53"
  then have "(of_int \<bar>n\<bar> :: rat) \<le> of_int (2 ^ 53)" by (simp only: of_int_le_iff)
  then have "\<bar>of_int n :: rat\<bar> \<le> 2 ^ 53" by simp
  with f64_max_ge have "\<bar>of_int n :: rat\<bar> \<le> f64_max" by linarith
  with n show ?thesis by (intro to_f64_double) (simp add: rnd_int)
qed

lemma to_f64_numeral [float_simps]:
  "(numeral n :: int) \<le> 2 ^ 53 \<Longrightarrow> to_f64 (numeral n) = Fin (numeral n)"
  "(numeral n :: int) \<le> 2 ^ 53 \<Longrightarrow> to_f64 (- numeral n) = Fin (- numeral n)"
  "to_f64 0 = Fin 0" "to_f64 1 = Fin 1" "to_f64 (- 1) = Fin (- 1)"
  using to_f64_int [of "numeral n"] to_f64_int [of "- numeral n"] to_f64_int [of 0]
    to_f64_int [of 1] to_f64_int [of "- 1"] by auto

lemma to_f64_NaN [simp]: "to_f64 x \<noteq> NaN"
  by (auto simp: to_f64_def Let_def)

lemma to_f64_mono: "x \<le> y \<Longrightarrow> to_f64 x \<le> to_f64 y"
  using rnd_mono [of x y] f64_max_pos by (auto simp: to_f64_def Let_def)

lemma to_f64_minus: "to_f64 (- x) = - to_f64 x"
  using f64_max_pos by (auto simp: to_f64_def Let_def rnd_minus)

lemma to_f64_le_double: "x \<le> y \<Longrightarrow> is_double (Fin y) \<Longrightarrow> to_f64 x \<le> Fin y"
  using to_f64_mono [of x y] by (simp add: to_f64_double)

lemma to_f64_ge_double: "y \<le> x \<Longrightarrow> is_double (Fin y) \<Longrightarrow> Fin y \<le> to_f64 x"
  using to_f64_mono [of y x] by (simp add: to_f64_double)

lemma is_double_01 [simp]: "is_double (Fin 0)" "is_double (Fin 1)" "is_double 0" "is_double 1"
  using f64_max_pos f64_max_ge rnd_int [of 1] by (auto simp: zero_pyfloat_def one_pyfloat_def)

lemma Fin_minus_Fin [float_simps]: "Fin x - Fin y = to_f64 (x - y)"
  by (simp add: minus_pyfloat_def)

lemma diff_nonneg: "isfinite a \<Longrightarrow> isfinite b \<Longrightarrow> b \<le> a \<Longrightarrow> 0 \<le> a - b"
  using to_f64_mono [of 0] by (auto elim!: finiteE simp: Fin_minus_Fin zero_pyfloat_def to_f64_numeral)

lemma diff_mono:
  "isfinite a \<Longrightarrow> isfinite b \<Longrightarrow> isfinite c \<Longrightarrow> isfinite d \<Longrightarrow> a \<le> c \<Longrightarrow> d \<le> b \<Longrightarrow> a - b \<le> c - d"
  by (auto elim!: finiteE simp: Fin_minus_Fin intro!: to_f64_mono)

lemma diff_le_self:
  "isfinite a \<Longrightarrow> isfinite b \<Longrightarrow> is_double a \<Longrightarrow> 0 \<le> b \<Longrightarrow> a - b \<le> a"
  by (auto elim!: finiteE simp: Fin_minus_Fin intro!: to_f64_le_double)

lemma divide_unit:
  assumes "isfinite a" "isfinite b" "0 \<le> a" "a \<le> b" "0 < b"
  shows "0 \<le> a / b" "a / b \<le> 1" "isfinite (a / b)"
proof -
  from assms obtain x y where xy: "a = Fin x" "b = Fin y" "0 \<le> x" "x \<le> y" "0 < y"
    by (auto elim!: finiteE)
  have "Fin 0 \<le> to_f64 (x / y)" "to_f64 (x / y) \<le> Fin 1"
    using xy is_double_01(1,2) by (intro to_f64_ge_double to_f64_le_double; simp)+
  then show "0 \<le> a / b" "a / b \<le> 1" "isfinite (a / b)"
    using xy by (cases "to_f64 (x / y)"; simp add: zero_pyfloat_def one_pyfloat_def)+
qed

lemma between_finite: "Fin x \<le> a \<Longrightarrow> a \<le> Fin y \<Longrightarrow> isfinite a"
  by (cases a) auto

section \<open>What the program uses of the standard library\<close>

text \<open>\<open>max(a, b)\<close> keeps \<open>a\<close> unless \<open>b > a\<close>; so do the versions over an iterable.\<close>

definition py_max :: "pyfloat \<Rightarrow> pyfloat \<Rightarrow> pyfloat" where
  "py_max a b = (if a < b then b else a)"

definition py_min :: "pyfloat \<Rightarrow> pyfloat \<Rightarrow> pyfloat" where
  "py_min a b = (if b < a then b else a)"

fun py_maximum :: "pyfloat list \<Rightarrow> pyfloat option" where
  "py_maximum [] = None"
| "py_maximum (x # xs) = Some (foldl py_max x xs)"

fun py_minimum :: "pyfloat list \<Rightarrow> pyfloat option" where
  "py_minimum [] = None"
| "py_minimum (x # xs) = Some (foldl py_min x xs)"

lemma py_max_ge: "a \<noteq> NaN \<Longrightarrow> b \<noteq> NaN \<Longrightarrow> a \<le> py_max a b \<and> b \<le> py_max a b"
  by (cases a; cases b) (auto simp: py_max_def)

lemma py_min_le: "a \<noteq> NaN \<Longrightarrow> b \<noteq> NaN \<Longrightarrow> py_min a b \<le> a \<and> py_min a b \<le> b"
  by (cases a; cases b) (auto simp: py_min_def)

lemma py_max_cases: "py_max a b = a \<or> py_max a b = b"
  by (simp add: py_max_def)

lemma py_min_cases: "py_min a b = a \<or> py_min a b = b"
  by (simp add: py_min_def)

lemma foldl_py_max_in: "foldl py_max x xs \<in> insert x (set xs)"
proof (induction xs arbitrary: x)
  case (Cons y ys)
  have "foldl py_max (py_max x y) ys \<in> insert (py_max x y) (set ys)" by (rule Cons.IH)
  then show ?case using py_max_cases [of x y] by (elim disjE) auto
qed simp

lemma foldl_py_min_in: "foldl py_min x xs \<in> insert x (set xs)"
proof (induction xs arbitrary: x)
  case (Cons y ys)
  have "foldl py_min (py_min x y) ys \<in> insert (py_min x y) (set ys)" by (rule Cons.IH)
  then show ?case using py_min_cases [of x y] by (elim disjE) auto
qed simp

lemma py_maximum_in: "py_maximum xs = Some m \<Longrightarrow> m \<in> set xs"
  using foldl_py_max_in by (cases xs) auto

lemma py_minimum_in: "py_minimum xs = Some m \<Longrightarrow> m \<in> set xs"
  using foldl_py_min_in by (cases xs) auto

lemma py_max_minus: "py_max (- a) (- b) = - py_min a b"
  by (cases a; cases b) (auto simp: py_max_def py_min_def)

lemma py_min_minus: "py_min (- a) (- b) = - py_max a b"
  by (cases a; cases b) (auto simp: py_max_def py_min_def)

text \<open>Conversions. An \<open>int\<close> meets a \<open>float\<close> by conversion to the nearest double.\<close>

definition float_of_int :: "int \<Rightarrow> pyfloat" where
  "float_of_int n = to_f64 (of_int n)"

abbreviation (input) float_of_nat :: "nat \<Rightarrow> pyfloat" where
  "float_of_nat n \<equiv> float_of_int (int n)"

text \<open>A decimal literal of the source is the double nearest to it.\<close>

abbreviation (input) lit :: "rat \<Rightarrow> pyfloat" where
  "lit q \<equiv> to_f64 q"

fun py_int :: "pyfloat \<Rightarrow> int result" where
  "py_int (Fin x) = Ok (if 0 \<le> x then \<lfloor>x\<rfloor> else \<lceil>x\<rceil>)"
| "py_int NaN = Raise ValueError"
| "py_int _ = Raise OverflowError"

fun math_floor :: "pyfloat \<Rightarrow> int result" where
  "math_floor (Fin x) = Ok \<lfloor>x\<rfloor>"
| "math_floor NaN = Raise ValueError"
| "math_floor _ = Raise OverflowError"

fun py_round :: "nat \<Rightarrow> pyfloat \<Rightarrow> pyfloat" where
  "py_round n (Fin x) = to_f64 (of_int (rne (x * 10 ^ n)) / 10 ^ n)"
| "py_round n x = x"

definition py_div :: "pyfloat \<Rightarrow> pyfloat \<Rightarrow> pyfloat result" where
  "py_div a b = (if b = 0 then Raise ZeroDivisionError else Ok (a / b))"

text \<open>
  \<open>a // b\<close> as CPython computes it: an exact remainder, a rounded quotient, a rounded
  correction.
\<close>

fun c_fmod :: "pyfloat \<Rightarrow> pyfloat \<Rightarrow> pyfloat" where
  "c_fmod (Fin x) (Fin y) =
     (if y = 0 then NaN else to_f64 (x - y * of_int (if 0 \<le> x / y then \<lfloor>x / y\<rfloor> else \<lceil>x / y\<rceil>)))"
| "c_fmod (Fin x) NaN = NaN"
| "c_fmod (Fin x) _ = Fin x"
| "c_fmod _ _ = NaN"

fun c_floor :: "pyfloat \<Rightarrow> pyfloat" where
  "c_floor (Fin x) = to_f64 (of_int \<lfloor>x\<rfloor>)"
| "c_floor x = x"

definition py_floordiv :: "pyfloat \<Rightarrow> pyfloat \<Rightarrow> pyfloat result" where
  "py_floordiv v w =
     (if w = 0 then Raise ZeroDivisionError
      else
        let m = c_fmod v w;
            d = (v - m) / w;
            d' = (if m \<noteq> 0 \<and> (w < 0) \<noteq> (m < 0) then d - 1 else d)
        in if d' \<noteq> 0
           then let f = c_floor d' in Ok (if lit (1/2) < d' - f then f + 1 else f)
           else Ok 0)"

text \<open>
  \<open>sum\<close> of floats in CPython 3.12: a running sum with Neumaier's compensation, added at
  the end when it is finite.
\<close>

fun sum_loop :: "pyfloat \<Rightarrow> pyfloat \<Rightarrow> pyfloat list \<Rightarrow> pyfloat \<times> pyfloat" where
  "sum_loop s c [] = (s, c)"
| "sum_loop s c (x # xs) =
     (let t = s + x;
          c' = (if \<bar>x\<bar> \<le> \<bar>s\<bar> then c + ((s - t) + x) else c + ((x - t) + s))
      in sum_loop t c' xs)"

fun py_sum :: "pyfloat list \<Rightarrow> pyfloat" where
  "py_sum [] = 0"
| "py_sum (x # xs) =
     (let (s, c) = sum_loop x 0 xs in if c \<noteq> 0 \<and> isfinite c then s + c else s)"

lemma plus_finite_NaN: "s \<noteq> NaN \<Longrightarrow> isfinite x \<Longrightarrow> s + x \<noteq> NaN"
  by (cases s; cases x) auto

lemma sum_loop_NaN: "s \<noteq> NaN \<Longrightarrow> (\<And>x. x \<in> set xs \<Longrightarrow> isfinite x) \<Longrightarrow> fst (sum_loop s c xs) \<noteq> NaN"
  by (induction s c xs rule: sum_loop.induct) (auto simp: plus_finite_NaN Let_def)

text \<open>A sum of finite numbers may overflow to an infinity but is never NaN.\<close>

lemma py_sum_not_NaN: "(\<And>x. x \<in> set xs \<Longrightarrow> isfinite x) \<Longrightarrow> py_sum xs \<noteq> NaN"
proof (cases xs)
  case (Cons y ys)
  assume fin: "\<And>x. x \<in> set xs \<Longrightarrow> isfinite x"
  obtain s c where sc: "sum_loop y 0 ys = (s, c)" by fastforce
  have "isfinite y" using fin Cons by simp
  then have "y \<noteq> NaN" by auto
  then have "s \<noteq> NaN" using sum_loop_NaN [of y ys 0] fin Cons by (auto simp: sc)
  then show ?thesis using Cons by (auto simp: sc plus_finite_NaN)
qed (simp add: zero_pyfloat_def)

lemma divide_pos_NaN: "a \<noteq> NaN \<Longrightarrow> 0 < b \<Longrightarrow> isfinite b \<Longrightarrow> a / b \<noteq> NaN"
  by (cases a; cases b) (auto simp: signed_inf_def)

lemma float_of_nat_pos: "0 < n \<Longrightarrow> int n \<le> 2 ^ 53 \<Longrightarrow> 0 < float_of_nat n \<and> isfinite (float_of_nat n)"
  using to_f64_int [of "int n"] by (simp add: float_of_int_def)

lemma to_f64_nonneg: "0 \<le> x \<Longrightarrow> 0 \<le> to_f64 x"
  using to_f64_ge_double [of 0 x, OF _ is_double_01(1)] by (simp add: zero_pyfloat_def)

lemma float_of_nat_ge_1: "1 \<le> n \<Longrightarrow> 1 \<le> float_of_nat n"
  unfolding float_of_int_def one_pyfloat_def by (rule to_f64_ge_double [OF _ is_double_01(2)]) simp

lemma float_zero_Inf [simp]: "(0::pyfloat) \<le> PInf" "(0::pyfloat) < PInf" "\<not> (0::pyfloat) < NInf"
  by (simp_all add: zero_pyfloat_def)

lemma times_nonneg: "0 < a \<Longrightarrow> 1 \<le> b \<Longrightarrow> 0 \<le> a * (b :: pyfloat)"
  by (cases a; cases b) (auto simp: one_pyfloat_def signed_inf_def intro!: to_f64_nonneg)

lemma diff_self_not_pos: "\<not> 0 < x - (x :: pyfloat)"
  by (cases x) (auto simp: float_simps minus_pyfloat_def zero_pyfloat_def)

lemma float_zero_NInf [simp]: "\<not> (0::pyfloat) \<le> NInf"
  by (simp add: zero_pyfloat_def)

lemma plus_nonneg: "0 \<le> a \<Longrightarrow> 0 \<le> b \<Longrightarrow> 0 \<le> a + (b :: pyfloat)"
  by (cases a; cases b) (auto intro!: to_f64_nonneg)

lemma diff_self_not_above: "0 \<le> g \<Longrightarrow> \<not> g < x - (x :: pyfloat)"
  using diff_self_not_pos [of x] by (cases g; cases "x - x") (auto simp: zero_pyfloat_def)

text \<open>A sum of ones counts exactly, up to \<open>2 ^ 53\<close> of them.\<close>

lemma sum_loop_ones:
  "k + int n \<le> 2 ^ 53 \<Longrightarrow> 1 \<le> k \<Longrightarrow> sum_loop (Fin (of_int k)) 0 (replicate n 1) = (Fin (of_int (k + int n)), 0)"
proof (induction n arbitrary: k)
  case (Suc n)
  have t: "Fin (of_int k) + 1 = Fin (of_int (k + 1))"
    using to_f64_int [of "k + 1"] Suc.prems by (simp add: one_pyfloat_def)
  have d: "Fin (of_int k) - Fin (of_int (k + 1)) + 1 = 0"
    by (simp add: float_simps one_pyfloat_def zero_pyfloat_def)
  have "\<bar>1 :: pyfloat\<bar> \<le> \<bar>Fin (of_int k)\<bar>" using Suc.prems by (simp add: one_pyfloat_def)
  moreover have "(0::pyfloat) + 0 = 0" by (simp add: zero_pyfloat_def float_simps)
  ultimately have "sum_loop (Fin (of_int k)) 0 (replicate (Suc n) 1) =
      sum_loop (Fin (of_int (k + 1))) 0 (replicate n 1)"
    unfolding replicate.simps sum_loop.simps Let_def t by (simp only: d if_True)
  then show ?case using Suc.IH [of "k + 1"] Suc.prems by (simp add: algebra_simps)
qed (simp add: zero_pyfloat_def)

lemma py_sum_ones: "int n \<le> 2 ^ 53 \<Longrightarrow> py_sum (replicate n 1) = float_of_nat n"
proof (cases n)
  case (Suc m)
  assume n: "int n \<le> 2 ^ 53"
  then have "sum_loop (Fin (of_int 1)) 0 (replicate m 1) = (Fin (of_int (1 + int m)), 0)"
    using Suc by (intro sum_loop_ones) auto
  then show ?thesis using n Suc to_f64_int [of "int n"] by (simp add: float_of_int_def one_pyfloat_def)
qed (simp add: float_of_int_def zero_pyfloat_def float_simps)

lemma fraction_unit:
  assumes "m \<le> n" "0 < n" "int n \<le> 2 ^ 53"
  shows "0 \<le> float_of_nat m / float_of_nat n" "float_of_nat m / float_of_nat n \<le> 1"
proof -
  have "float_of_nat m = Fin (of_nat m)" "float_of_nat n = Fin (of_nat n)"
    using assms to_f64_int [of "int m"] to_f64_int [of "int n"] by (simp_all add: float_of_int_def)
  then show "0 \<le> float_of_nat m / float_of_nat n" "float_of_nat m / float_of_nat n \<le> 1"
    using divide_unit [of "Fin (of_nat m)" "Fin (of_nat n)"] assms by simp_all
qed

end
