(* ===== verification/Candles.thy ===== *)
theory Candles
  imports PyFloat
begin

text \<open>
  The candle and the aggregator that folds a tick stream into closed candles
  (\<open>cortex/cortex/market_context.py\<close>, classes \<open>Candle\<close> and
  \<open>CandleAggregator\<close>). The lemmas show that the aggregator only ever closes well-formed
  candles, whatever the ticks are (NaN and infinite prices included), and that it computes
  the grouping of the valid ticks into maximal runs of equal buckets.
\<close>

section \<open>Data\<close>

record candle =
  c_open :: pyfloat
  c_high :: pyfloat
  c_low :: pyfloat
  c_close :: pyfloat
  c_t_open :: pyfloat
  c_t_close :: pyfloat
  c_volume :: pyfloat

text \<open>\<open>agg_bucket\<close> is \<open>_bucket_open\<close>; the rest is the forming candle.\<close>

record aggregator =
  agg_timeframe :: pyfloat
  agg_bucket :: "pyfloat option"
  agg_o :: pyfloat
  agg_h :: pyfloat
  agg_l :: pyfloat
  agg_c :: pyfloat
  agg_v :: pyfloat

definition new_aggregator :: "pyfloat \<Rightarrow> aggregator" where
  "new_aggregator tf =
     \<lparr>agg_timeframe = tf, agg_bucket = None, agg_o = 0, agg_h = 0, agg_l = 0, agg_c = 0, agg_v = 0\<rparr>"

section \<open>Operations\<close>

text \<open>\<open>math.floor(ts / timeframe) * timeframe\<close>; both steps may raise.\<close>

definition bucket_of :: "pyfloat \<Rightarrow> pyfloat \<Rightarrow> pyfloat result" where
  "bucket_of tf ts =
     rbind (py_div ts tf) (\<lambda>q. rbind (math_floor q) (\<lambda>n. Ok (float_of_int n * tf)))"

definition start_bucket :: "pyfloat \<Rightarrow> pyfloat \<Rightarrow> aggregator \<Rightarrow> aggregator" where
  "start_bucket b price a =
     a\<lparr>agg_bucket := Some b, agg_o := price, agg_h := price, agg_l := price, agg_c := price, agg_v := 0\<rparr>"

definition touch :: "pyfloat \<Rightarrow> aggregator \<Rightarrow> aggregator" where
  "touch price a =
     a\<lparr>agg_h := py_max (agg_h a) price, agg_l := py_min (agg_l a) price, agg_c := price,
       agg_v := agg_v a + 1\<rparr>"

definition current_candle :: "aggregator \<Rightarrow> pyfloat \<Rightarrow> pyfloat \<Rightarrow> candle" where
  "current_candle a t_op t_cl =
     \<lparr>c_open = agg_o a, c_high = agg_h a, c_low = agg_l a, c_close = agg_c a,
      c_t_open = t_op, c_t_close = t_cl, c_volume = agg_v a\<rparr>"

definition valid_price :: "pyfloat \<Rightarrow> bool" where
  "valid_price price \<longleftrightarrow> isfinite price \<and> \<not> price \<le> 0"

definition feed_bucket :: "pyfloat \<Rightarrow> pyfloat \<Rightarrow> aggregator \<Rightarrow> candle option \<times> aggregator" where
  "feed_bucket b price a =
     (case agg_bucket a of
        None \<Rightarrow> (None, touch price (start_bucket b price a))
      | Some b0 \<Rightarrow>
          if \<not> feq b b0
          then (Some (current_candle a b0 b), touch price (start_bucket b price a))
          else (None, touch price a))"

definition feed :: "aggregator \<Rightarrow> pyfloat \<Rightarrow> pyfloat \<Rightarrow> (candle option \<times> aggregator) result" where
  "feed a price ts =
     (if \<not> isfinite price \<or> price \<le> 0 then Ok (None, a)
      else rbind (bucket_of (agg_timeframe a) ts) (\<lambda>b. Ok (feed_bucket b price a)))"

definition forming :: "aggregator \<Rightarrow> pyfloat \<Rightarrow> candle option result" where
  "forming a ts =
     rbind (bucket_of (agg_timeframe a) ts)
       (\<lambda>b. case agg_bucket a of
          None \<Rightarrow> Ok None
        | Some b0 \<Rightarrow> if \<not> feq b b0 then Ok None else Ok (Some (current_candle a b0 ts)))"

text \<open>The loop of a caller: feed the ticks (price, timestamp) in order, collect what closes.\<close>

fun feed_all :: "aggregator \<Rightarrow> (pyfloat \<times> pyfloat) list \<Rightarrow> (candle list \<times> aggregator) result" where
  "feed_all a [] = Ok ([], a)"
| "feed_all a ((price, ts) # ticks) =
     rbind (feed a price ts)
       (\<lambda>(cl, a'). rbind (feed_all a' ticks)
          (\<lambda>(cs, a''). Ok ((case cl of None \<Rightarrow> cs | Some c \<Rightarrow> c # cs), a'')))"

section \<open>Well-formed candles\<close>

definition candle_ok :: "candle \<Rightarrow> bool" where
  "candle_ok c \<longleftrightarrow>
     isfinite (c_open c) \<and> isfinite (c_high c) \<and> isfinite (c_low c) \<and> isfinite (c_close c) \<and>
     0 < c_low c \<and> c_low c \<le> c_open c \<and> c_low c \<le> c_close c \<and>
     c_open c \<le> c_high c \<and> c_close c \<le> c_high c"

text \<open>The invariant of the aggregator: once a bucket is open, it holds a well-formed candle.\<close>

definition agg_ok :: "aggregator \<Rightarrow> bool" where
  "agg_ok a \<longleftrightarrow>
     (agg_bucket a \<noteq> None \<longrightarrow> candle_ok (current_candle a 0 0) \<and> 1 \<le> agg_v a)"

lemma agg_ok_new: "agg_ok (new_aggregator tf)"
  by (simp add: agg_ok_def new_aggregator_def)

lemma candle_ok_times: "candle_ok (current_candle a s t) = candle_ok (current_candle a 0 0)"
  by (simp add: candle_ok_def current_candle_def)

lemma plus_one_ge: "0 \<le> v \<Longrightarrow> 1 \<le> v + (1::pyfloat)"
  using is_double_01(2) by (cases v) (auto simp: zero_pyfloat_def one_pyfloat_def intro!: to_f64_ge_double)

lemma touch_start_ok: "valid_price price \<Longrightarrow> agg_ok (touch price (start_bucket b price a))"
  using plus_one_ge [of 0]
  by (cases price) (auto simp: agg_ok_def valid_price_def touch_def start_bucket_def current_candle_def
      candle_ok_def py_max_def py_min_def zero_pyfloat_def)

lemma touch_ok:
  assumes "agg_ok a" "agg_bucket a \<noteq> None" "valid_price price"
  shows "agg_ok (touch price a)"
proof -
  have ok: "candle_ok (current_candle a 0 0)" and v: "1 \<le> agg_v a"
    using assms by (auto simp: agg_ok_def)
  have "(0::pyfloat) \<le> 1" by (simp add: zero_pyfloat_def one_pyfloat_def)
  then have "1 \<le> agg_v a + 1" using v by (intro plus_one_ge) (rule float_trans)
  moreover have "candle_ok (current_candle (touch price a) 0 0)"
    using ok assms(3)
    by (auto simp: candle_ok_def valid_price_def touch_def current_candle_def py_max_def py_min_def
        isfinite_iff)
  ultimately show ?thesis by (simp add: agg_ok_def) (simp add: touch_def)
qed

lemma feed_ok:
  assumes "agg_ok a" "feed a price ts = Ok (cl, a')"
  shows "agg_ok a' \<and> agg_timeframe a' = agg_timeframe a \<and>
    (\<forall>c. cl = Some c \<longrightarrow> candle_ok c \<and> 1 \<le> c_volume c)"
proof (cases "valid_price price")
  case False
  with assms show ?thesis by (auto simp: feed_def valid_price_def)
next
  case True
  with assms(2) obtain b where "bucket_of (agg_timeframe a) ts = Ok b"
    and ca: "feed_bucket b price a = (cl, a')"
    by (auto simp: feed_def valid_price_def rbind_Inr_iff)
  show ?thesis
  proof (cases "agg_bucket a")
    case None
    with ca True show ?thesis
      by (auto simp: feed_bucket_def touch_start_ok) (simp add: touch_def start_bucket_def)
  next
    case (Some b0)
    with assms(1) have cur: "candle_ok (current_candle a s t)" "1 \<le> agg_v a" for s t
      by (auto simp: agg_ok_def candle_ok_times [of a s t])
    show ?thesis
    proof (cases "feq b b0")
      case True
      with ca Some \<open>valid_price price\<close> assms(1) show ?thesis
        by (auto simp: feed_bucket_def touch_ok) (simp add: touch_def)
    next
      case False
      with ca Some True cur show ?thesis
        by (auto simp: feed_bucket_def touch_start_ok)
          (simp_all add: touch_def start_bucket_def current_candle_def)
    qed
  qed
qed

lemma feed_all_ok:
  "agg_ok a \<Longrightarrow> feed_all a ticks = Ok (cs, a') \<Longrightarrow>
   agg_ok a' \<and> (\<forall>c \<in> set cs. candle_ok c \<and> 1 \<le> c_volume c)"
proof (induction a ticks arbitrary: cs a' rule: feed_all.induct)
  case (1 a)
  then show ?case by simp
next
  case (2 a price ts ticks)
  then obtain cl a1 cs1 where f: "feed a price ts = Ok (cl, a1)"
    and r: "feed_all a1 ticks = Ok (cs1, a')"
    and cs: "cs = (case cl of None \<Rightarrow> cs1 | Some c \<Rightarrow> c # cs1)"
    by (auto simp: rbind_Inr_iff)
  have a1: "agg_ok a1" using feed_ok [OF "2.prems"(1) f] by blast
  have "agg_ok a' \<and> (\<forall>c \<in> set cs1. candle_ok c \<and> 1 \<le> c_volume c)"
    by (rule "2.IH" [OF a1 r])
  with feed_ok [OF "2.prems"(1) f] show ?case by (auto simp: cs split: option.splits)
qed

section \<open>The aggregator against its specification\<close>

text \<open>
  The specification knows nothing of the running candle: the valid ticks, each with the
  bucket it falls into, are cut into maximal runs of equal buckets, and every run but the
  last is a closed candle whose close time is the next run's bucket.
\<close>

function runs :: "(pyfloat \<times> pyfloat) list \<Rightarrow> (pyfloat \<times> pyfloat list) list" where
  "runs [] = []"
| "runs ((b, p) # xs) =
     (b, p # map snd (takeWhile (\<lambda>x. feq (fst x) b) xs)) # runs (dropWhile (\<lambda>x. feq (fst x) b) xs)"
  by pat_completeness auto
termination
  by (relation "measure length") (auto simp: length_dropWhile_le le_imp_less_Suc)

definition candle_of_run :: "pyfloat \<Rightarrow> pyfloat list \<Rightarrow> pyfloat \<Rightarrow> candle" where
  "candle_of_run b ps b' =
     \<lparr>c_open = hd ps, c_high = foldl py_max (hd ps) ps, c_low = foldl py_min (hd ps) ps,
      c_close = last ps, c_t_open = b, c_t_close = b', c_volume = float_of_nat (length ps)\<rparr>"

fun candles_of_runs :: "(pyfloat \<times> pyfloat list) list \<Rightarrow> candle list" where
  "candles_of_runs ((b, ps) # (b', qs) # gs) =
     candle_of_run b ps b' # candles_of_runs ((b', qs) # gs)"
| "candles_of_runs _ = []"

fun valid_ticks :: "pyfloat \<Rightarrow> (pyfloat \<times> pyfloat) list \<Rightarrow> (pyfloat \<times> pyfloat) list result" where
  "valid_ticks tf [] = Ok []"
| "valid_ticks tf ((price, ts) # ticks) =
     (if valid_price price
      then rbind (bucket_of tf ts) (\<lambda>b. rbind (valid_ticks tf ticks) (\<lambda>xs. Ok ((b, price) # xs)))
      else valid_ticks tf ticks)"

definition spec_candles :: "pyfloat \<Rightarrow> (pyfloat \<times> pyfloat) list \<Rightarrow> candle list result" where
  "spec_candles tf ticks = rbind (valid_ticks tf ticks) (\<lambda>xs. Ok (candles_of_runs (runs xs)))"

text \<open>The abstraction: the running candle is the summary of the prices of the open run.\<close>

definition holds_run :: "aggregator \<Rightarrow> pyfloat \<Rightarrow> pyfloat list \<Rightarrow> bool" where
  "holds_run a b ps \<longleftrightarrow>
     ps \<noteq> [] \<and> agg_bucket a = Some b \<and> (\<forall>t. current_candle a b t = candle_of_run b ps t)"

lemma float_count_Suc: "int n < 2 ^ 53 \<Longrightarrow> float_of_nat n + 1 = float_of_nat (Suc n)"
  using to_f64_int [of "int n"] to_f64_int [of "int (Suc n)"]
  by (simp add: float_of_int_def one_pyfloat_def add.commute)

lemma holds_run_start:
  "valid_price p \<Longrightarrow> holds_run (touch p (start_bucket b p a)) b [p]"
  by (cases p) (auto simp: holds_run_def touch_def start_bucket_def current_candle_def candle_of_run_def
      zero_pyfloat_def one_pyfloat_def float_of_int_def float_simps)

lemma holds_run_touch:
  "holds_run a b ps \<Longrightarrow> int (length ps) < 2 ^ 53 \<Longrightarrow> holds_run (touch p a) b (ps @ [p])"
  using float_count_Suc [of "length ps"]
  by (auto simp: holds_run_def touch_def current_candle_def candle_of_run_def hd_append)

lemma runs_Cons_same:
  "feq b' b \<Longrightarrow> runs ((b, p) # (b', q) # xs) =
     (b, p # q # map snd (takeWhile (\<lambda>x. feq (fst x) b) xs)) # runs (dropWhile (\<lambda>x. feq (fst x) b) xs)"
  by simp

text \<open>The runs of the remaining ticks, seen from inside an open run.\<close>

definition open_runs :: "pyfloat \<Rightarrow> pyfloat list \<Rightarrow> (pyfloat \<times> pyfloat) list \<Rightarrow> (pyfloat \<times> pyfloat list) list" where
  "open_runs b ps xs =
     (b, ps @ map snd (takeWhile (\<lambda>x. feq (fst x) b) xs)) # runs (dropWhile (\<lambda>x. feq (fst x) b) xs)"

lemma open_runs_simps:
  "open_runs b ps [] = [(b, ps)]"
  "feq b' b \<Longrightarrow> open_runs b ps ((b', p) # xs) = open_runs b (ps @ [p]) xs"
  "\<not> feq b' b \<Longrightarrow> open_runs b ps ((b', p) # xs) = (b, ps) # open_runs b' [p] xs"
  by (simp_all add: open_runs_def)

lemma runs_open_runs: "runs ((b, p) # xs) = open_runs b [p] xs"
  by (simp add: open_runs_def)

lemma candles_open_runs:
  "candles_of_runs ((b, ps) # open_runs b' qs xs) = candle_of_run b ps b' # candles_of_runs (open_runs b' qs xs)"
  by (simp add: open_runs_def)

lemma feed_all_open:
  assumes "holds_run a b ps" "valid_ticks (agg_timeframe a) ticks = Ok xs"
    "int (length ps + length ticks) \<le> 2 ^ 53"
  shows "\<exists>a'. feed_all a ticks = Ok (candles_of_runs (open_runs b ps xs), a')"
  using assms
proof (induction a ticks arbitrary: b ps xs rule: feed_all.induct)
  case (1 a)
  then show ?case by (auto simp: open_runs_simps)
next
  case (2 a price ts ticks)
  show ?case
  proof (cases "valid_price price")
    case False
    then have "feed a price ts = Ok (None, a)" by (auto simp: feed_def valid_price_def)
    with "2.IH" [of a b ps xs] "2.prems" False show ?thesis by auto
  next
    case True
    with "2.prems"(2) obtain b' xs' where b': "bucket_of (agg_timeframe a) ts = Ok b'"
      and xs': "valid_ticks (agg_timeframe a) ticks = Ok xs'" "xs = (b', price) # xs'"
      by (auto simp: rbind_Inr_iff)
    have f: "feed a price ts = Ok (feed_bucket b' price a)"
      using True b' by (simp add: feed_def valid_price_def)
    have bk: "agg_bucket a = Some b" and cur: "current_candle a b b' = candle_of_run b ps b'"
      using "2.prems"(1) by (auto simp: holds_run_def)
    show ?thesis
    proof (cases "feq b' b")
      case True
      let ?a = "touch price a"
      have "holds_run ?a b (ps @ [price])"
        using "2.prems" by (intro holds_run_touch) auto
      moreover have "agg_timeframe ?a = agg_timeframe a" by (simp add: touch_def)
      ultimately have "\<exists>a'. feed_all ?a ticks = Ok (candles_of_runs (open_runs b (ps @ [price]) xs'), a')"
        using "2.prems"(3) xs' by (intro "2.IH") auto
      then show ?thesis
        using f True bk xs' by (auto simp: feed_bucket_def open_runs_simps)
    next
      case False
      let ?a = "touch price (start_bucket b' price a)"
      have "holds_run ?a b' [price]"
        using True by (rule holds_run_start)
      moreover have "agg_timeframe ?a = agg_timeframe a" by (simp add: touch_def start_bucket_def)
      ultimately have "\<exists>a'. feed_all ?a ticks = Ok (candles_of_runs (open_runs b' [price] xs'), a')"
        using "2.prems"(3) xs' by (intro "2.IH") auto
      then show ?thesis
        using f False bk xs' cur by (auto simp: feed_bucket_def open_runs_simps candles_open_runs)
    qed
  qed
qed

text \<open>The same from the empty aggregator: skip to the first valid tick, which opens a run.\<close>

lemma feed_all_idle:
  assumes "agg_bucket a = None" "valid_ticks (agg_timeframe a) ticks = Ok xs"
    "int (length ticks) \<le> 2 ^ 53"
  shows "\<exists>a'. feed_all a ticks = Ok (candles_of_runs (runs xs), a')"
  using assms
proof (induction a ticks arbitrary: xs rule: feed_all.induct)
  case (1 a)
  then show ?case by auto
next
  case (2 a price ts ticks)
  show ?case
  proof (cases "valid_price price")
    case False
    then have "feed a price ts = Ok (None, a)" by (auto simp: feed_def valid_price_def)
    with "2.IH" [of a xs] "2.prems" False show ?thesis by auto
  next
    case True
    with "2.prems"(2) obtain b' xs' where b': "bucket_of (agg_timeframe a) ts = Ok b'"
      and xs': "valid_ticks (agg_timeframe a) ticks = Ok xs'" "xs = (b', price) # xs'"
      by (auto simp: rbind_Inr_iff)
    let ?a = "touch price (start_bucket b' price a)"
    have "holds_run ?a b' [price]" using True by (rule holds_run_start)
    moreover have "agg_timeframe ?a = agg_timeframe a" by (simp add: touch_def start_bucket_def)
    ultimately have "\<exists>a'. feed_all ?a ticks = Ok (candles_of_runs (open_runs b' [price] xs'), a')"
      using "2.prems"(3) xs' by (intro feed_all_open) auto
    then show ?thesis
      using True b' "2.prems"(1) xs'
      by (auto simp: feed_def valid_price_def feed_bucket_def runs_open_runs simp del: runs.simps)
  qed
qed

section \<open>Properties\<close>

text \<open>
  C35: Whatever ticks a fresh aggregator is fed (negative, NaN or infinite prices
  included), every candle it closes has finite prices with
  \<open>0 < low \<le> open, close \<le> high\<close> and counts at least one tick, and so does the candle
  still forming.
\<close>

theorem aggregator_candles_ok:
  assumes "feed_all (new_aggregator tf) ticks = Ok (cs, a)"
  shows "(\<forall>c \<in> set cs. candle_ok c \<and> 1 \<le> c_volume c) \<and>
    (\<forall>ts c. forming a ts = Ok (Some c) \<longrightarrow> candle_ok c \<and> 1 \<le> c_volume c)"
proof -
  have a: "agg_ok a" and cs: "\<forall>c \<in> set cs. candle_ok c \<and> 1 \<le> c_volume c"
    using feed_all_ok [OF agg_ok_new assms] by auto
  have "candle_ok c \<and> 1 \<le> c_volume c" if f: "forming a ts = Ok (Some c)" for ts c
  proof -
    from f obtain b b0 where "agg_bucket a = Some b" "c = current_candle a b0 ts"
      by (auto simp: forming_def rbind_Inr_iff split: option.splits if_splits)
    with a show ?thesis
      using candle_ok_times [of a b0 ts] by (simp add: agg_ok_def current_candle_def)
  qed
  with cs show ?thesis by blast
qed

definition sample_ticks :: "(pyfloat \<times> pyfloat) list" where
  "sample_ticks = [(Fin 5, Fin 1), (NaN, Fin 2), (Fin 7, Fin 3), (Fin 4, Fin 9), (Fin 6, Fin 12)]"

definition sample_candles :: "candle list" where
  "sample_candles =
     [\<lparr>c_open = Fin 5, c_high = Fin 7, c_low = Fin 5, c_close = Fin 7, c_t_open = Fin 0,
       c_t_close = Fin 8, c_volume = Fin 2\<rparr>]"

lemma sample_run:
  "feed_all (new_aggregator (Fin 8)) sample_ticks =
     Ok (sample_candles, snd (projr (feed_all (new_aggregator (Fin 8)) sample_ticks)))"
  by code_simp

theorem aggregator_candles_ok_witness:
  "list_all (\<lambda>c. candle_ok c \<and> 1 \<le> c_volume c) sample_candles"
  using aggregator_candles_ok [OF sample_run] by (auto simp: list_all_iff)

text \<open>
  C24: The aggregator computes its specification: the closed candles are the summaries
  (first, highest, lowest, last price, tick count) of the maximal runs of equal buckets
  among the valid ticks, all but the last, which is still forming. It raises only if the
  bucket of some valid tick cannot be computed.
\<close>

theorem aggregator_refines_runs:
  assumes "spec_candles tf ticks = Ok cs" "int (length ticks) \<le> 2 ^ 53"
  shows "\<exists>a. feed_all (new_aggregator tf) ticks = Ok (cs, a)"
proof -
  from assms(1) obtain xs where "valid_ticks tf ticks = Ok xs" "cs = candles_of_runs (runs xs)"
    by (auto simp: spec_candles_def rbind_Inr_iff)
  then show ?thesis
    using feed_all_idle [of "new_aggregator tf" ticks xs] assms(2) by (simp add: new_aggregator_def)
qed

theorem aggregator_refines_runs_witness:
  "spec_candles (Fin 8) sample_ticks = Ok sample_candles \<and>
   (\<exists>a. feed_all (new_aggregator (Fin 8)) sample_ticks = Ok (sample_candles, a))"
proof -
  have s: "spec_candles (Fin 8) sample_ticks = Ok sample_candles" by code_simp
  have "int (length sample_ticks) \<le> 2 ^ 53" by (simp add: sample_ticks_def)
  with s aggregator_refines_runs [OF s] show ?thesis by blast
qed

end
