(* ===== verification/MarketContext.thy ===== *)
theory MarketContext
  imports Candles
begin

text \<open>
  The structure reader of \<open>cortex/cortex/market_context.py\<close>: average true range,
  zigzag pivots, polarity, cycle length, the context classifier \<open>build_context\<close> and
  the incremental engine. The lemmas show that pivots alternate, that the average range is
  never NaN, and that a snapshot reports a broken structure exactly when it names the
  level that broke.
\<close>

section \<open>Data\<close>

datatype swing_kind = High | Low

record swing =
  sw_kind :: swing_kind
  sw_price :: pyfloat
  sw_index :: nat

record params =
  p_timeframe :: pyfloat
  p_atr_period :: nat
  p_swing_mult :: pyfloat
  p_range_height :: pyfloat
  p_extension_mult :: pyfloat
  p_min_swings :: nat
  p_lookback :: nat
  p_max_candles :: nat
  p_impulse_mult :: pyfloat

definition default_params :: params where
  "default_params =
     \<lparr>p_timeframe = Fin 300, p_atr_period = 14, p_swing_mult = Fin (3/2), p_range_height = lit (12/10),
      p_extension_mult = Fin 3, p_min_swings = 3, p_lookback = 8, p_max_candles = 400,
      p_impulse_mult = Fin (5/2)\<rparr>"

text \<open>The ranges pydantic enforces on construction.\<close>

definition params_ok :: "params \<Rightarrow> bool" where
  "params_ok p \<longleftrightarrow>
     0 < p_timeframe p \<and> 2 \<le> p_atr_period p \<and> 0 < p_swing_mult p \<and> 0 < p_range_height p \<and>
     0 < p_extension_mult p \<and> 2 \<le> p_min_swings p \<and> 2 \<le> p_lookback p \<and> 30 \<le> p_max_candles p \<and>
     0 < p_impulse_mult p"

datatype regime = R_SEEDING | R_TREND_UP | R_TREND_DOWN | R_RANGE | R_EXPANSION
datatype phase = P_SEEDING | P_COIL | P_TREND | P_EXHAUSTION | P_EXPANSION
datatype bias = Long | Short | Flat

record market_context =
  x_asset :: string
  x_timeframe :: pyfloat
  x_closed :: nat
  x_atr :: pyfloat
  x_regime :: regime
  x_phase :: phase
  x_bias :: bias
  x_momentum :: pyfloat
  x_swing_high :: "pyfloat option"
  x_swing_low :: "pyfloat option"
  x_coil :: "(pyfloat \<times> pyfloat) option"
  x_age :: nat
  x_remaining :: "pyfloat option"
  x_potential :: "pyfloat option"
  x_integrity :: bool
  x_break :: "pyfloat option"

definition new_context :: "string \<Rightarrow> pyfloat \<Rightarrow> nat \<Rightarrow> market_context" where
  "new_context asset tf n =
     \<lparr>x_asset = asset, x_timeframe = tf, x_closed = n, x_atr = 0, x_regime = R_SEEDING,
      x_phase = P_SEEDING, x_bias = Flat, x_momentum = 0, x_swing_high = None, x_swing_low = None,
      x_coil = None, x_age = 0, x_remaining = None, x_potential = None, x_integrity = True,
      x_break = None\<rparr>"

section \<open>Average true range\<close>

text \<open>The loop over \<open>window[1:]\<close>; a true range that is not finite is dropped.\<close>

fun true_ranges :: "pyfloat \<Rightarrow> candle list \<Rightarrow> pyfloat list" where
  "true_ranges prev [] = []"
| "true_ranges prev (c # cs) =
     (let tr = py_max (py_max (c_high c - c_low c) \<bar>c_high c - prev\<bar>) \<bar>c_low c - prev\<bar>
      in if isfinite tr then tr # true_ranges (c_close c) cs else true_ranges (c_close c) cs)"

definition atr_of :: "candle list \<Rightarrow> nat \<Rightarrow> pyfloat" where
  "atr_of candles period =
     (if candles = [] then 0
      else let window = lastn (period + 1) candles in
        if length window \<le> 1 then 0
        else let trs = true_ranges (c_close (hd window)) (tl window) in
          if trs = [] then 0 else py_sum trs / float_of_nat (length trs))"

lemma true_ranges_finite: "x \<in> set (true_ranges prev cs) \<Longrightarrow> isfinite x"
  by (induction prev cs rule: true_ranges.induct) (auto simp: Let_def split: if_splits)

lemma length_true_ranges: "length (true_ranges prev cs) \<le> length cs"
  by (induction prev cs rule: true_ranges.induct) (auto simp: Let_def)

section \<open>Zigzag pivots\<close>

text \<open>The locals of the loop: \<open>direction\<close>, the two running extremes, the pivots so far.\<close>

record zigzag =
  z_dir :: int
  z_high :: "pyfloat option"
  z_low :: "pyfloat option"
  z_swings :: "swing list"

definition zz_up :: "pyfloat \<Rightarrow> nat \<Rightarrow> candle \<Rightarrow> zigzag \<Rightarrow> zigzag" where
  "zz_up min_move i c z =
     (if 0 \<le> z_dir z
      then let ph = (case z_high z of None \<Rightarrow> c_high c
                     | Some h \<Rightarrow> if h < c_high c then c_high c else h)
           in if min_move \<le> ph - c_low c
              then z\<lparr>z_swings := z_swings z @ [\<lparr>sw_kind = High, sw_price = ph, sw_index = i\<rparr>],
                     z_dir := - 1, z_low := Some (c_low c), z_high := None\<rparr>
              else z\<lparr>z_high := Some ph\<rparr>
      else z)"

definition zz_down :: "pyfloat \<Rightarrow> nat \<Rightarrow> candle \<Rightarrow> zigzag \<Rightarrow> zigzag" where
  "zz_down min_move i c z =
     (if z_dir z \<le> 0
      then let pl = (case z_low z of None \<Rightarrow> c_low c
                     | Some l \<Rightarrow> if c_low c < l then c_low c else l)
           in if min_move \<le> c_high c - pl
              then z\<lparr>z_swings := z_swings z @ [\<lparr>sw_kind = Low, sw_price = pl, sw_index = i\<rparr>],
                     z_dir := 1, z_high := Some (c_high c), z_low := None\<rparr>
              else z\<lparr>z_low := Some pl\<rparr>
      else z)"

fun zz_loop :: "pyfloat \<Rightarrow> nat \<Rightarrow> candle list \<Rightarrow> zigzag \<Rightarrow> zigzag" where
  "zz_loop min_move i [] z = z"
| "zz_loop min_move i (c # cs) z = zz_loop min_move (Suc i) cs (zz_down min_move i c (zz_up min_move i c z))"

definition zz_start :: zigzag where
  "zz_start = \<lparr>z_dir = 0, z_high = None, z_low = None, z_swings = []\<rparr>"

definition zigzag_swings :: "candle list \<Rightarrow> pyfloat \<Rightarrow> pyfloat \<Rightarrow> swing list" where
  "zigzag_swings candles atr mult =
     (if candles = [] then []
      else z_swings (zz_loop (py_max (atr * mult) (lit (1 / 10 ^ 12))) 0 candles zz_start))"

section \<open>Polarity and cycle length\<close>

definition prices_of :: "swing_kind \<Rightarrow> swing list \<Rightarrow> pyfloat list" where
  "prices_of k swings = map sw_price (filter (\<lambda>s. sw_kind s = k) swings)"

text \<open>Compare the last two: higher counts \<open>+1\<close>, lower \<open>-1\<close>.\<close>

definition last_two_trend :: "pyfloat list \<Rightarrow> int" where
  "last_two_trend xs =
     (if 2 \<le> length xs \<and> xs ! (length xs - 2) < xs ! (length xs - 1) then 1
      else if 2 \<le> length xs \<and> xs ! (length xs - 1) < xs ! (length xs - 2) then - 1 else 0)"

definition polarity :: "swing list \<Rightarrow> int" where
  "polarity swings =
     (let vals = lastn 8 swings
      in last_two_trend (prices_of High vals) + last_two_trend (prices_of Low vals))"

fun deltas :: "nat list \<Rightarrow> int list" where
  "deltas (a # b # xs) = (int b - int a) # deltas (b # xs)"
| "deltas _ = []"

text \<open>\<open>statistics.median\<close> of integers, then \<open>float\<close>: the middle one, or the mean of the two.\<close>

definition median :: "int list \<Rightarrow> pyfloat" where
  "median xs =
     (let ys = sort xs; n = length ys
      in if odd n then float_of_int (ys ! (n div 2))
         else to_f64 (of_int (ys ! (n div 2 - 1) + ys ! (n div 2)) / 2))"

definition cycle_median :: "swing list \<Rightarrow> pyfloat option" where
  "cycle_median swings =
     (let idxs = map sw_index (lastn 6 swings)
      in if length idxs < 3 then None else Some (median (deltas idxs)))"

text \<open>\<open>x or None\<close>: a zero is falsy.\<close>

definition or_none :: "pyfloat option \<Rightarrow> pyfloat option" where
  "or_none x = (if x = Some 0 then None else x)"

section \<open>The classifier\<close>

text \<open>
  \<open>build_context\<close> is one long function with early returns. Its parts, in the order of the
  source: the single-bar impulse, the swing summary, the broken coil, the polarised trend,
  the range.
\<close>

definition expansion_context :: "candle list \<Rightarrow> params \<Rightarrow> pyfloat \<Rightarrow> market_context \<Rightarrow> market_context" where
  "expansion_context candles p atr ctx =
     (let prev = c_close (candles ! (length candles - 2));
          move = c_close (last candles) - prev
      in ctx\<lparr>x_regime := R_EXPANSION, x_phase := P_EXPANSION,
             x_bias := (if 0 < move then Long else Short),
             x_momentum := move / (atr * float_of_nat (p_atr_period p)),
             x_integrity := False, x_break := Some prev\<rparr>)"

definition recent :: "nat \<Rightarrow> pyfloat list \<Rightarrow> pyfloat list" where
  "recent lookback xs = lastn ((lookback + 1) div 2) xs"

definition swing_context :: "candle list \<Rightarrow> params \<Rightarrow> pyfloat \<Rightarrow> swing list \<Rightarrow> market_context \<Rightarrow> market_context" where
  "swing_context candles p atr swings ctx =
     (let sh = py_maximum (recent (p_lookback p) (prices_of High swings));
          sl = py_minimum (recent (p_lookback p) (prices_of Low swings));
          prev_close = c_close (candles ! (length candles - p_atr_period p))
      in ctx\<lparr>x_swing_high := sh, x_swing_low := sl,
             x_bias := (if sw_kind (last swings) = Low then Long else Short),
             x_coil := (case (sh, sl) of
                 (Some h, Some l) \<Rightarrow> if h - l < p_range_height p * atr then Some (l, h) else None
               | _ \<Rightarrow> None),
             x_momentum := (c_close (last candles) - prev_close) / (atr * float_of_nat (p_atr_period p))\<rparr>)"

definition broken_coil_context :: "pyfloat \<Rightarrow> pyfloat \<Rightarrow> pyfloat \<Rightarrow> swing list \<Rightarrow> market_context \<Rightarrow> market_context" where
  "broken_coil_context lo hi last_close swings ctx =
     ctx\<lparr>x_regime := R_EXPANSION, x_phase := P_EXPANSION,
         x_bias := (if hi < last_close then Long else Short),
         x_integrity := False,
         x_break := Some (if hi < last_close then hi else lo),
         x_potential := None,
         x_remaining := or_none (cycle_median swings)\<rparr>"

definition trend_context ::
    "candle list \<Rightarrow> params \<Rightarrow> pyfloat \<Rightarrow> swing list \<Rightarrow> int \<Rightarrow> market_context \<Rightarrow> market_context" where
  "trend_context candles p atr swings score ctx =
     (let last_close = c_close (last candles);
          up = (0 < score);
          age = nat (int (length candles) - 1 - int (sw_index (last swings)));
          ref = (if up then x_swing_low ctx else x_swing_high ctx);
          leg = (case ref of Some r \<Rightarrow> \<bar>last_close - r\<bar> | None \<Rightarrow> 0);
          ctx1 = ctx\<lparr>x_regime := (if up then R_TREND_UP else R_TREND_DOWN),
                     x_bias := (if up then Long else Short),
                     x_age := age,
                     x_remaining := (case cycle_median swings of
                         Some m \<Rightarrow> Some (py_max 0 (m - float_of_nat age))
                       | None \<Rightarrow> x_remaining ctx),
                     x_phase := (if p_extension_mult p * atr \<le> leg \<and> \<bar>x_momentum ctx\<bar> < Fin (1/4)
                                 then P_EXHAUSTION else P_TREND)\<rparr>
      in case ref of
           Some r \<Rightarrow> if (if up then last_close < r else r < last_close)
                     then ctx1\<lparr>x_integrity := False, x_break := Some r\<rparr> else ctx1
         | None \<Rightarrow> ctx1)"

definition range_context :: "pyfloat \<Rightarrow> pyfloat \<Rightarrow> pyfloat \<Rightarrow> pyfloat \<Rightarrow> market_context \<Rightarrow> market_context" where
  "range_context lo hi last_close atr ctx =
     (let dist = py_min (last_close - lo) (hi - last_close)
      in ctx\<lparr>x_regime := R_RANGE, x_phase := P_COIL,
             x_potential := (if 0 < atr then Some (py_max (dist / atr) 0) else None),
             x_remaining := None, x_integrity := True, x_break := None\<rparr>)"

definition outside :: "pyfloat \<times> pyfloat \<Rightarrow> pyfloat \<Rightarrow> bool" where
  "outside b x \<longleftrightarrow> snd b < x \<or> x < fst b"

definition classify :: "candle list \<Rightarrow> params \<Rightarrow> pyfloat \<Rightarrow> swing list \<Rightarrow> market_context \<Rightarrow> market_context" where
  "classify candles p atr swings ctx0 =
     (let ctx = swing_context candles p atr swings ctx0;
          last_close = c_close (last candles);
          score = polarity swings;
          trend_polarized = (1 \<le> \<bar>score\<bar> \<and> p_min_swings p \<le> length swings)
      in case x_coil ctx of
           Some (lo, hi) \<Rightarrow>
             if outside (lo, hi) last_close then broken_coil_context lo hi last_close swings ctx
             else if trend_polarized then trend_context candles p atr swings score ctx
             else range_context lo hi last_close atr ctx
         | None \<Rightarrow>
             if trend_polarized then trend_context candles p atr swings score ctx
             else ctx\<lparr>x_regime := R_SEEDING, x_phase := P_SEEDING\<rparr>)"

definition build_context :: "candle list \<Rightarrow> params \<Rightarrow> string \<Rightarrow> market_context" where
  "build_context candles p asset =
     (let ctx = new_context asset (p_timeframe p) (length candles)
      in if length candles < p_atr_period p + 2 then ctx
         else let atr = atr_of candles (p_atr_period p); ctx = ctx\<lparr>x_atr := atr\<rparr>
           in if atr \<le> 0 then ctx
              else if 2 \<le> length candles \<and>
                  p_impulse_mult p * atr
                    \<le> \<bar>c_close (last candles) - c_close (candles ! (length candles - 2))\<bar>
                then expansion_context candles p atr ctx
                else let swings = zigzag_swings candles atr (p_swing_mult p)
                  in if length swings < p_min_swings p then ctx
                     else classify candles p atr swings ctx)"

section \<open>The incremental engine\<close>

text \<open>
  A tick carries an optional price and an optional timestamp; a missing price (or a zero
  one) reads as 0, a missing timestamp as the current time.
\<close>

record price_tick =
  k_price :: "pyfloat option"
  k_timestamp :: "pyfloat option"

record engine =
  e_asset :: string
  e_params :: params
  e_agg :: aggregator
  e_candles :: "candle list"
  e_context :: market_context

definition new_engine :: "string \<Rightarrow> params \<Rightarrow> engine" where
  "new_engine asset p =
     \<lparr>e_asset = asset, e_params = p, e_agg = new_aggregator (p_timeframe p), e_candles = [],
      e_context = new_context asset (p_timeframe p) 0\<rparr>"

definition snapshot :: "engine \<Rightarrow> market_context" where
  "snapshot e =
     (let c = e_context e
      in c\<lparr>x_atr := py_round 8 (x_atr c), x_momentum := py_round 6 (x_momentum c),
           x_remaining := map_option (py_round 2) (x_remaining c),
           x_potential := map_option (py_round 2) (x_potential c)\<rparr>)"

definition push_candle :: "candle \<Rightarrow> engine \<Rightarrow> engine" where
  "push_candle c e =
     (let cs = e_candles e @ [c]; m = p_max_candles (e_params e)
      in e\<lparr>e_candles := (if m < length cs then lastn m cs else cs)\<rparr>)"

definition ingest :: "pyfloat \<Rightarrow> price_tick \<Rightarrow> engine \<Rightarrow> (market_context option \<times> engine) result" where
  "ingest now tk e =
     (let price = (case k_price tk of Some q \<Rightarrow> q | None \<Rightarrow> 0);
          ts = (case k_timestamp tk of Some t \<Rightarrow> t | None \<Rightarrow> now)
      in rbind (feed (e_agg e) price ts)
           (\<lambda>(cl, agg). case cl of
              None \<Rightarrow> Ok (None, e\<lparr>e_agg := agg\<rparr>)
            | Some c \<Rightarrow>
                let e1 = push_candle c (e\<lparr>e_agg := agg\<rparr>);
                    e2 = e1\<lparr>e_context := build_context (e_candles e1) (e_params e1) (e_asset e1)\<rparr>
                in Ok (Some (snapshot e2), e2)))"

fun ingest_all :: "pyfloat \<Rightarrow> price_tick list \<Rightarrow> engine \<Rightarrow> engine result" where
  "ingest_all now [] e = Ok e"
| "ingest_all now (tk # tks) e = rbind (ingest now tk e) (\<lambda>(_, e'). ingest_all now tks e')"

section \<open>Lemmas: range, pivots\<close>

lemma atr_not_NaN:
  assumes "int period \<le> 2 ^ 53"
  shows "atr_of candles period \<noteq> NaN"
proof -
  define w where "w = lastn (period + 1) candles"
  define trs where "trs = true_ranges (c_close (hd w)) (tl w)"
  have fin: "\<And>x. x \<in> set trs \<Longrightarrow> isfinite x" unfolding trs_def by (rule true_ranges_finite)
  have "length trs \<le> period"
    using length_true_ranges [of "c_close (hd w)" "tl w"] by (simp add: trs_def w_def)
  then have "trs \<noteq> [] \<Longrightarrow> py_sum trs / float_of_nat (length trs) \<noteq> NaN"
    using assms py_sum_not_NaN [OF fin] float_of_nat_pos [of "length trs"]
    by (intro divide_pos_NaN) auto
  then show ?thesis
    by (auto simp: atr_of_def Let_def zero_pyfloat_def trs_def w_def)
qed

text \<open>Where a running extreme, and a pivot, comes from.\<close>

definition seen_high :: "candle list \<Rightarrow> nat \<Rightarrow> pyfloat \<Rightarrow> bool" where
  "seen_high cs n x \<longleftrightarrow> (\<exists>j<n. x = c_high (cs ! j))"

definition seen_low :: "candle list \<Rightarrow> nat \<Rightarrow> pyfloat \<Rightarrow> bool" where
  "seen_low cs n x \<longleftrightarrow> (\<exists>j<n. x = c_low (cs ! j))"

definition pivot_ok :: "pyfloat \<Rightarrow> candle list \<Rightarrow> nat \<Rightarrow> swing \<Rightarrow> bool" where
  "pivot_ok m cs n s \<longleftrightarrow> sw_index s < n \<and>
     (case sw_kind s of
        High \<Rightarrow> seen_high cs (Suc (sw_index s)) (sw_price s) \<and> m \<le> sw_price s - c_low (cs ! sw_index s)
      | Low \<Rightarrow> seen_low cs (Suc (sw_index s)) (sw_price s) \<and> m \<le> c_high (cs ! sw_index s) - sw_price s)"

definition alternating :: "swing list \<Rightarrow> bool" where
  "alternating swings \<longleftrightarrow> successively (\<lambda>a b. sw_kind a \<noteq> sw_kind b) swings"

definition zz_inv :: "pyfloat \<Rightarrow> candle list \<Rightarrow> nat \<Rightarrow> zigzag \<Rightarrow> bool" where
  "zz_inv m cs n z \<longleftrightarrow>
     (\<forall>h. z_high z = Some h \<longrightarrow> seen_high cs n h) \<and>
     (\<forall>l. z_low z = Some l \<longrightarrow> seen_low cs n l) \<and>
     (\<forall>s \<in> set (z_swings z). pivot_ok m cs n s) \<and>
     alternating (z_swings z) \<and> sorted (map sw_index (z_swings z)) \<and>
     (z_swings z \<noteq> [] \<longrightarrow>
        (sw_kind (last (z_swings z)) = High \<longrightarrow> z_dir z < 0) \<and>
        (sw_kind (last (z_swings z)) = Low \<longrightarrow> 0 < z_dir z))"

lemma seen_high_Suc: "seen_high cs n x \<Longrightarrow> seen_high cs (Suc n) x"
  by (auto simp: seen_high_def less_Suc_eq)

lemma seen_low_Suc: "seen_low cs n x \<Longrightarrow> seen_low cs (Suc n) x"
  by (auto simp: seen_low_def less_Suc_eq)

lemma zz_inv_mono: "zz_inv m cs n z \<Longrightarrow> zz_inv m cs (Suc n) z"
  by (auto simp: zz_inv_def pivot_ok_def intro: seen_high_Suc seen_low_Suc)

lemma alternating_snoc:
  "alternating (xs @ [x]) \<longleftrightarrow> alternating xs \<and> (xs \<noteq> [] \<longrightarrow> sw_kind (last xs) \<noteq> sw_kind x)"
  by (auto simp: alternating_def successively_append_iff)

lemma sorted_index_snoc:
  "sorted (map sw_index xs) \<Longrightarrow> (\<And>s. s \<in> set xs \<Longrightarrow> sw_index s \<le> i) \<Longrightarrow>
   sorted (map sw_index xs @ [i])"
  by (auto simp: sorted_append)

lemma pivot_index: "pivot_ok m cs (Suc i) s \<Longrightarrow> sw_index s \<le> i"
  by (simp add: pivot_ok_def)

lemma zz_up_inv:
  assumes inv: "zz_inv m cs (Suc i) z"
  shows "zz_inv m cs (Suc i) (zz_up m i (cs ! i) z)"
proof (cases "0 \<le> z_dir z")
  case False
  then show ?thesis using inv by (simp add: zz_up_def)
next
  case True
  define ph where "ph = (case z_high z of None \<Rightarrow> c_high (cs ! i)
    | Some h \<Rightarrow> if h < c_high (cs ! i) then c_high (cs ! i) else h)"
  have ph: "seen_high cs (Suc i) ph"
    using inv by (auto simp: ph_def zz_inv_def seen_high_def split: option.splits)
  have up: "zz_up m i (cs ! i) z =
    (if m \<le> ph - c_low (cs ! i)
     then z\<lparr>z_swings := z_swings z @ [\<lparr>sw_kind = High, sw_price = ph, sw_index = i\<rparr>],
            z_dir := - 1, z_low := Some (c_low (cs ! i)), z_high := None\<rparr>
     else z\<lparr>z_high := Some ph\<rparr>)"
    using True by (simp add: zz_up_def ph_def)
  have "z_swings z \<noteq> [] \<Longrightarrow> sw_kind (last (z_swings z)) \<noteq> High"
    using inv True by (auto simp: zz_inv_def)
  moreover have "sorted (map sw_index (z_swings z) @ [i])"
    using inv by (intro sorted_index_snoc) (auto simp: zz_inv_def dest: pivot_index)
  moreover have "seen_low cs (Suc i) (c_low (cs ! i))" by (auto simp: seen_low_def)
  ultimately show ?thesis
    using inv ph unfolding up
    by (auto simp: zz_inv_def alternating_snoc pivot_ok_def [of m cs "Suc i" "\<lparr>sw_kind = High, sw_price = ph, sw_index = i\<rparr>"])
qed

lemma zz_down_inv:
  assumes inv: "zz_inv m cs (Suc i) z"
  shows "zz_inv m cs (Suc i) (zz_down m i (cs ! i) z)"
proof (cases "z_dir z \<le> 0")
  case False
  then show ?thesis using inv by (simp add: zz_down_def)
next
  case True
  define pl where "pl = (case z_low z of None \<Rightarrow> c_low (cs ! i)
    | Some l \<Rightarrow> if c_low (cs ! i) < l then c_low (cs ! i) else l)"
  have pl: "seen_low cs (Suc i) pl"
    using inv by (auto simp: pl_def zz_inv_def seen_low_def split: option.splits)
  have dn: "zz_down m i (cs ! i) z =
    (if m \<le> c_high (cs ! i) - pl
     then z\<lparr>z_swings := z_swings z @ [\<lparr>sw_kind = Low, sw_price = pl, sw_index = i\<rparr>],
            z_dir := 1, z_high := Some (c_high (cs ! i)), z_low := None\<rparr>
     else z\<lparr>z_low := Some pl\<rparr>)"
    using True by (simp add: zz_down_def pl_def)
  have "z_swings z \<noteq> [] \<Longrightarrow> sw_kind (last (z_swings z)) \<noteq> Low"
    using inv True by (auto simp: zz_inv_def)
  moreover have "sorted (map sw_index (z_swings z) @ [i])"
    using inv by (intro sorted_index_snoc) (auto simp: zz_inv_def dest: pivot_index)
  moreover have "seen_high cs (Suc i) (c_high (cs ! i))" by (auto simp: seen_high_def)
  ultimately show ?thesis
    using inv pl unfolding dn
    by (auto simp: zz_inv_def alternating_snoc pivot_ok_def [of m cs "Suc i" "\<lparr>sw_kind = Low, sw_price = pl, sw_index = i\<rparr>"])
qed

lemma zz_loop_inv:
  "cs = pre @ rest \<Longrightarrow> zz_inv m cs (length pre) z \<Longrightarrow> zz_inv m cs (length cs) (zz_loop m (length pre) rest z)"
proof (induction rest arbitrary: pre z)
  case Nil
  then show ?case by simp
next
  case (Cons c rest)
  have c: "cs ! length pre = c" using Cons.prems(1) by simp
  have "zz_inv m cs (Suc (length pre)) (zz_down m (length pre) c (zz_up m (length pre) c z))"
    using zz_down_inv [OF zz_up_inv [OF zz_inv_mono [OF Cons.prems(2)]]] by (simp only: c)
  then show ?case
    using Cons.IH [of "pre @ [c]"] Cons.prems(1) by simp
qed

lemma zz_start_inv: "zz_inv m cs 0 zz_start"
  by (simp add: zz_inv_def zz_start_def alternating_def)

lemma zigzag_inv:
  "zz_inv (py_max (atr * mult) (lit (1 / 10 ^ 12))) candles (length candles)
     (zz_loop (py_max (atr * mult) (lit (1 / 10 ^ 12))) 0 candles zz_start)"
  using zz_loop_inv [of candles "[]" candles _ zz_start] zz_start_inv by simp

section \<open>Lemmas: the snapshot\<close>

text \<open>
  What a reader of a snapshot may rely on: the phase fits the regime, the bias fits the
  trend, a broken structure names its level and an intact one does not, and inside a
  trend the level named is the defining swing and the price has crossed it.
\<close>

definition phase_fits :: "market_context \<Rightarrow> bool" where
  "phase_fits x \<longleftrightarrow>
     (case x_regime x of
        R_SEEDING \<Rightarrow> x_phase x = P_SEEDING
      | R_RANGE \<Rightarrow> x_phase x = P_COIL \<and> x_coil x \<noteq> None
      | R_EXPANSION \<Rightarrow> x_phase x = P_EXPANSION \<and> x_bias x \<noteq> Flat \<and> \<not> x_integrity x
      | R_TREND_UP \<Rightarrow> x_phase x \<in> {P_TREND, P_EXHAUSTION} \<and> x_bias x = Long
      | R_TREND_DOWN \<Rightarrow> x_phase x \<in> {P_TREND, P_EXHAUSTION} \<and> x_bias x = Short)"

definition break_fits :: "pyfloat \<Rightarrow> market_context \<Rightarrow> bool" where
  "break_fits last_close x \<longleftrightarrow>
     (x_integrity x \<longleftrightarrow> x_break x = None) \<and>
     (\<forall>r. x_break x = Some r \<longrightarrow>
        (x_regime x = R_TREND_UP \<longrightarrow> x_swing_low x = Some r \<and> last_close < r) \<and>
        (x_regime x = R_TREND_DOWN \<longrightarrow> x_swing_high x = Some r \<and> r < last_close) \<and>
        (x_regime x \<in> {R_EXPANSION, R_TREND_UP, R_TREND_DOWN}))"

definition intact :: "market_context \<Rightarrow> bool" where
  "intact x \<longleftrightarrow> x_integrity x \<and> x_break x = None"

lemma trend_context_fits:
  "intact ctx \<Longrightarrow> phase_fits (trend_context candles p atr swings score ctx) \<and>
   break_fits (c_close (last candles)) (trend_context candles p atr swings score ctx)"
  by (auto simp: trend_context_def Let_def phase_fits_def break_fits_def intact_def split: option.splits)

lemma classify_fits:
  assumes "intact ctx"
  shows "phase_fits (classify candles p atr swings ctx) \<and>
    break_fits (c_close (last candles)) (classify candles p atr swings ctx)"
proof -
  have "intact (swing_context candles p atr swings ctx)"
    using assms by (simp add: intact_def swing_context_def Let_def)
  then show ?thesis
    using trend_context_fits [of "swing_context candles p atr swings ctx" candles p atr swings "polarity swings"]
    by (auto simp: classify_def Let_def split: option.splits prod.splits)
      (auto simp: broken_coil_context_def range_context_def Let_def phase_fits_def break_fits_def intact_def)
qed

lemma intact_new: "intact (new_context asset tf n)"
  by (simp add: intact_def new_context_def)

lemma build_context_fits:
  "phase_fits (build_context candles p asset) \<and>
   break_fits (c_close (last candles)) (build_context candles p asset)"
proof -
  have new: "phase_fits (new_context asset tf n) \<and> break_fits lc (new_context asset tf n)" for tf n lc
    by (simp add: phase_fits_def break_fits_def new_context_def)
  have atr: "phase_fits (x\<lparr>x_atr := a\<rparr>) = phase_fits x" "break_fits lc (x\<lparr>x_atr := a\<rparr>) = break_fits lc x"
    "intact (x\<lparr>x_atr := a\<rparr>) = intact x" for x a lc
    by (simp_all add: phase_fits_def break_fits_def intact_def split: regime.split)
  have ex: "phase_fits (expansion_context candles p a x) \<and> break_fits lc (expansion_context candles p a x)" for a x lc
    by (simp add: phase_fits_def break_fits_def expansion_context_def Let_def)
  show ?thesis
    using new ex classify_fits [of "(new_context asset (p_timeframe p) (length candles))\<lparr>x_atr := a\<rparr>" for a]
    by (simp add: build_context_def Let_def atr intact_new)
qed

section \<open>Lemmas: the engine\<close>

interpretation candle_history: bounded_history push_candle e_candles "\<lambda>e. p_max_candles (e_params e)"
  by unfold_locales (auto simp: push_candle_def Let_def lastn_all)

definition tick_pair :: "pyfloat \<Rightarrow> price_tick \<Rightarrow> pyfloat \<times> pyfloat" where
  "tick_pair now tk =
     ((case k_price tk of Some q \<Rightarrow> q | None \<Rightarrow> 0), (case k_timestamp tk of Some t \<Rightarrow> t | None \<Rightarrow> now))"

lemma push_candle_frame [simp]:
  "e_params (push_candle c e) = e_params e" "e_asset (push_candle c e) = e_asset e"
  "e_agg (push_candle c e) = e_agg e" "e_context (push_candle c e) = e_context e"
  by (simp_all add: push_candle_def Let_def)

text \<open>One call of \<open>ingest\<close>, in terms of the aggregator's step.\<close>

lemma ingest_cases:
  assumes "ingest now tk e = Ok (out, e')"
  obtains (idle) "feed (e_agg e) (fst (tick_pair now tk)) (snd (tick_pair now tk)) = Ok (None, e_agg e')"
      "out = None" "e_candles e' = e_candles e" "e_context e' = e_context e"
      "e_params e' = e_params e" "e_asset e' = e_asset e"
  | (closes) c where
      "feed (e_agg e) (fst (tick_pair now tk)) (snd (tick_pair now tk)) = Ok (Some c, e_agg e')"
      "out = Some (snapshot e')" "e_candles e' = e_candles (push_candle c e)"
      "e_context e' = build_context (e_candles e') (e_params e) (e_asset e)"
      "e_params e' = e_params e" "e_asset e' = e_asset e"
  using assms
  by (auto simp: ingest_def tick_pair_def Let_def rbind_Inr_iff push_candle_def split: option.splits)

definition engine_sees :: "engine \<Rightarrow> candle list \<Rightarrow> engine \<Rightarrow> bool" where
  "engine_sees e cs e' \<longleftrightarrow>
     e_params e' = e_params e \<and> e_asset e' = e_asset e \<and>
     length (e_candles e') \<le> p_max_candles (e_params e) \<and>
     e_candles e' = lastn (p_max_candles (e_params e)) (e_candles e @ cs) \<and>
     e_context e' = (if cs = [] then e_context e
                     else build_context (e_candles e') (e_params e) (e_asset e))"

lemma ingest_all_sees:
  assumes "ingest_all now tks e = Ok e'" "length (e_candles e) \<le> p_max_candles (e_params e)"
  shows "\<exists>cs. feed_all (e_agg e) (map (tick_pair now) tks) = Ok (cs, e_agg e') \<and> engine_sees e cs e'"
  using assms
proof (induction tks arbitrary: e)
  case Nil
  then show ?case by (auto simp: engine_sees_def lastn_all)
next
  case (Cons tk tks)
  then obtain out e1 where i: "ingest now tk e = Ok (out, e1)" and r: "ingest_all now tks e1 = Ok e'"
    by (auto simp: rbind_Inr_iff)
  let ?m = "p_max_candles (e_params e)"
  from i show ?case
  proof (cases rule: ingest_cases)
    case idle
    obtain p t where pt: "tick_pair now tk = (p, t)" by fastforce
    have "length (e_candles e1) \<le> p_max_candles (e_params e1)" using idle Cons.prems(2) by simp
    with Cons.IH [OF r] obtain cs where "feed_all (e_agg e1) (map (tick_pair now) tks) = Ok (cs, e_agg e')"
      "engine_sees e1 cs e'" by blast
    with idle pt show ?thesis by (auto simp: engine_sees_def)
  next
    case (closes c)
    obtain p t where pt: "tick_pair now tk = (p, t)" by fastforce
    have cs1: "e_candles e1 = lastn ?m (e_candles e @ [c])"
      using closes(3) by (simp add: candle_history.items_push)
    then have "length (e_candles e1) \<le> p_max_candles (e_params e1)" using closes(5) by simp
    with Cons.IH [OF r] obtain cs where "feed_all (e_agg e1) (map (tick_pair now) tks) = Ok (cs, e_agg e')"
      and s: "engine_sees e1 cs e'" by blast
    moreover have "engine_sees e (c # cs) e'"
      using s closes(4,5,6) cs1 by (auto simp: engine_sees_def lastn_lastn_append lastn_all)
    ultimately show ?thesis using closes(1) pt by auto
  qed
qed

section \<open>Properties\<close>


definition vee :: "candle list" where
  "vee = [\<lparr>c_open = Fin 10, c_high = Fin 11, c_low = Fin 10, c_close = Fin 11, c_t_open = 0, c_t_close = 1, c_volume = 1\<rparr>,
          \<lparr>c_open = Fin 11, c_high = Fin 11, c_low = Fin 5, c_close = Fin 6, c_t_open = 1, c_t_close = Fin 2, c_volume = 1\<rparr>,
          \<lparr>c_open = Fin 6, c_high = Fin 9, c_low = Fin 6, c_close = Fin 9, c_t_open = Fin 2, c_t_close = Fin 3, c_volume = 1\<rparr>]"


text \<open>
  The average true range of any candle list, one with NaN or infinite prices
  included, is never NaN.
\<close>

theorem atr_of_not_NaN:
  assumes "int period \<le> 2 ^ 53"
  shows "atr_of candles period \<noteq> NaN"
  using assms by (rule atr_not_NaN)

definition nan_candle :: candle where
  "nan_candle = \<lparr>c_open = NaN, c_high = PInf, c_low = NInf, c_close = NaN, c_t_open = 0, c_t_close = 1, c_volume = 1\<rparr>"

theorem atr_of_not_NaN_witness: "atr_of [nan_candle, nan_candle] 14 \<noteq> NaN"
  by (rule atr_of_not_NaN) simp

text \<open>
  A snapshot is self-consistent: the phase fits the regime and the bias the trend,
  \<open>integrity\<close> is \<open>False\<close> exactly when a \<open>break_level\<close> is given, and in a trend that
  level is the defining swing and the last close has crossed it.
\<close>

theorem build_context_consistent:
  "phase_fits (build_context candles p asset) \<and>
   break_fits (c_close (last candles)) (build_context candles p asset)"
  by (rule build_context_fits)

text \<open>
  C25: The incremental engine is the aggregator followed by the classifier over a bounded
  window: after any ticks it holds the newest \<open>max_candles\<close> of the candles the
  aggregator closed, all well-formed, never more, and its context is that of exactly
  these candles.
\<close>

theorem engine_refines:
  assumes "ingest_all now tks (new_engine asset p) = Ok e"
  shows "\<exists>cs. feed_all (new_aggregator (p_timeframe p)) (map (tick_pair now) tks) = Ok (cs, e_agg e) \<and>
    e_candles e = lastn (p_max_candles p) cs \<and> length (e_candles e) \<le> p_max_candles p \<and>
    (\<forall>c \<in> set (e_candles e). candle_ok c) \<and>
    (cs \<noteq> [] \<longrightarrow> e_context e = build_context (e_candles e) p asset)"
proof -
  let ?e = "new_engine asset p"
  have e: "e_candles ?e = []" "e_params ?e = p" "e_asset ?e = asset" "e_agg ?e = new_aggregator (p_timeframe p)"
    by (simp_all add: new_engine_def)
  obtain cs where cs: "feed_all (new_aggregator (p_timeframe p)) (map (tick_pair now) tks) = Ok (cs, e_agg e)"
    and s: "engine_sees ?e cs e"
    using ingest_all_sees [OF assms] e by auto
  have "\<forall>c \<in> set cs. candle_ok c" using feed_all_ok [OF agg_ok_new cs] by blast
  moreover have "e_candles e = lastn (p_max_candles p) cs" using s e by (simp add: engine_sees_def)
  ultimately show ?thesis
    using cs s e set_lastn [of "p_max_candles p" cs] by (auto simp: engine_sees_def)
qed

definition sample_engine_ticks :: "price_tick list" where
  "sample_engine_ticks =
     [\<lparr>k_price = Some (Fin 5), k_timestamp = Some (Fin 1)\<rparr>, \<lparr>k_price = None, k_timestamp = None\<rparr>,
      \<lparr>k_price = Some (Fin 7), k_timestamp = Some (Fin 400)\<rparr>]"

theorem engine_refines_witness:
  "\<exists>e cs. ingest_all 0 sample_engine_ticks (new_engine ''SYNTH'' default_params) = Ok e \<and>
    e_candles e = lastn 400 cs \<and> cs \<noteq> []"
proof -
  have ok: "is_ok (ingest_all 0 sample_engine_ticks (new_engine ''SYNTH'' default_params))"
    and len: "map_sum id (\<lambda>e. length (e_candles e))
      (ingest_all 0 sample_engine_ticks (new_engine ''SYNTH'' default_params)) = Ok 1"
    by code_simp+
  from ok obtain e where e: "ingest_all 0 sample_engine_ticks (new_engine ''SYNTH'' default_params) = Ok e"
    by (auto simp: is_ok_iff)
  from engine_refines [OF e] obtain cs where cs: "e_candles e = lastn (p_max_candles default_params) cs"
    by blast
  then have "e_candles e = lastn 400 cs" by (simp add: default_params_def)
  moreover have "length (e_candles e) = 1" using len e by simp
  ultimately show ?thesis using e by fastforce
qed

end
