(* ===== verification/DeadManConfig.thy ===== *)
theory DeadManConfig
  imports PyFloat
begin

text \<open>
  The data of the dead-man switch: \<open>doomsday/doomsday/config.py\<close> and the default plan of
  \<open>doomsday/doomsday/cli.py\<close>. Python integers of the configuration are naturals (the
  bounds pydantic enforces are \<open>config_ok\<close>).
\<close>

datatype step_type = NOTIFY | HALT_PLACEMENTS | REDUCE_EXPOSURE | ACQUIRE_ASSETS | SEAL

record escalation_step =
  s_step :: step_type
  s_channels :: "string list"
  s_target :: "pyfloat option"
  s_via :: "string option"
  s_asset_out :: "string option"

record dead_man_config =
  g_interval :: pyfloat
  g_grace_mult :: nat
  g_escalation_mult :: nat
  g_enabled :: bool
  g_abortable :: nat
  g_liq_mult :: nat
  g_plan :: "escalation_step list"
  g_oracle :: string
  g_strict :: bool
  g_max_journal :: nat

definition grace_period :: "dead_man_config \<Rightarrow> pyfloat" where
  "grace_period cfg = g_interval cfg * float_of_nat (g_grace_mult cfg)"

definition escalation_period :: "dead_man_config \<Rightarrow> pyfloat" where
  "escalation_period cfg = g_interval cfg * float_of_nat (g_escalation_mult cfg)"

definition liquidation_grace :: "dead_man_config \<Rightarrow> pyfloat" where
  "liquidation_grace cfg = grace_period cfg * float_of_nat (g_liq_mult cfg)"

definition step_ok :: "escalation_step \<Rightarrow> bool" where
  "step_ok s \<longleftrightarrow> (case s_target s of None \<Rightarrow> True | Some x \<Rightarrow> 0 \<le> x \<and> x \<le> Fin 100)"

definition config_ok :: "dead_man_config \<Rightarrow> bool" where
  "config_ok cfg \<longleftrightarrow>
     0 < g_interval cfg \<and> 1 \<le> g_grace_mult cfg \<and> 1 \<le> g_escalation_mult cfg \<and>
     1 \<le> g_liq_mult cfg \<and> 16 \<le> g_max_journal cfg \<and> list_all step_ok (g_plan cfg)"

definition plain_step :: "step_type \<Rightarrow> escalation_step" where
  "plain_step t = \<lparr>s_step = t, s_channels = [], s_target = None, s_via = None, s_asset_out = None\<rparr>"

definition default_plan :: "escalation_step list" where
  "default_plan =
     [(plain_step NOTIFY)\<lparr>s_channels := [''ops-slack'']\<rparr>,
      plain_step HALT_PLACEMENTS,
      (plain_step REDUCE_EXPOSURE)\<lparr>s_target := Some (Fin 50)\<rparr>,
      (plain_step ACQUIRE_ASSETS)\<lparr>s_asset_out := Some ''USDC'', s_via := Some ''simulation_oracle''\<rparr>,
      plain_step SEAL]"

definition default_config :: "pyfloat \<Rightarrow> dead_man_config" where
  "default_config interval =
     \<lparr>g_interval = interval, g_grace_mult = 3, g_escalation_mult = 6, g_enabled = True,
      g_abortable = 2, g_liq_mult = 4, g_plan = default_plan, g_oracle = ''simulation_oracle'',
      g_strict = False, g_max_journal = 2048\<rparr>"

lemma default_config_ok: "0 < interval \<Longrightarrow> config_ok (default_config interval)"
  by (simp add: config_ok_def default_config_def default_plan_def plain_step_def step_ok_def
      zero_pyfloat_def)

text \<open>A positive multiple of a positive interval is not negative: products round monotonically.\<close>

lemma grace_period_nonneg: "config_ok cfg \<Longrightarrow> 0 \<le> grace_period cfg"
  unfolding config_ok_def grace_period_def by (intro times_nonneg float_of_nat_ge_1) auto

lemma escalation_period_nonneg: "config_ok cfg \<Longrightarrow> 0 \<le> escalation_period cfg"
  unfolding config_ok_def escalation_period_def by (intro times_nonneg float_of_nat_ge_1) auto

end
