(* ===== verification/Oracle.thy ===== *)
theory Oracle
  imports PyFloat
begin

text \<open>
  The conversion oracle of \<open>doomsday/doomsday/oracle.py\<close>. Orders are mutable objects that
  the oracle's dictionary and the daemon's list share, so they live in an explicit store:
  an order reference is an address, \<open>submit\<close> allocates, \<open>settle\<close> updates in place.
  The interface \<open>AssetConversionOracle\<close> is the locale \<open>conversion_oracle\<close>; the
  simulation and the config-driven wrapper interpret it. The SHA-256 quote reference is the
  parameter \<open>ref_of\<close> of the text that the source hashes; nothing is assumed of it.
\<close>

section \<open>Data\<close>

datatype conversion_status = SUBMITTED | SETTLED | FAILED

record conversion_quote =
  cq_asset_in :: string
  cq_asset_out :: string
  cq_quantity_in :: pyfloat
  cq_est_out :: pyfloat
  cq_ref :: string
  cq_indicative :: bool

record conversion_order =
  co_id :: string
  co_ref :: string
  co_asset_in :: string
  co_asset_out :: string
  co_quantity_in :: pyfloat
  co_status :: conversion_status

text \<open>The pydantic model \<open>ConversionQuote\<close>: both assets are non-empty strings, both
  quantities positive.\<close>

definition make_quote :: "string \<Rightarrow> string option \<Rightarrow> pyfloat \<Rightarrow> pyfloat \<Rightarrow> string \<Rightarrow> conversion_quote result" where
  "make_quote a_in a_out qty est ref =
     (case a_out of
        None \<Rightarrow> Raise ValidationError
      | Some out \<Rightarrow>
          if a_in = [] \<or> out = [] \<or> \<not> 0 < qty \<or> \<not> 0 < est then Raise ValidationError
          else Ok \<lparr>cq_asset_in = a_in, cq_asset_out = out, cq_quantity_in = qty, cq_est_out = est,
                   cq_ref = ref, cq_indicative = True\<rparr>)"

section \<open>The interface\<close>

record 'o oracle_ops =
  oo_quote :: "string \<Rightarrow> string option \<Rightarrow> pyfloat \<Rightarrow> 'o \<Rightarrow> conversion_quote result \<times> 'o"
  oo_submit :: "conversion_quote \<Rightarrow> 'o \<Rightarrow> nat result \<times> 'o"
  oo_status :: "string \<Rightarrow> 'o \<Rightarrow> nat result"
  oo_order :: "nat \<Rightarrow> 'o \<Rightarrow> conversion_order"

text \<open>What a client does with it: fetch a quote, submit exactly that quote.\<close>

definition convert :: "'o oracle_ops \<Rightarrow> string \<Rightarrow> string option \<Rightarrow> pyfloat \<Rightarrow> 'o \<Rightarrow> nat result \<times> 'o" where
  "convert ops a_in a_out qty s =
     (case oo_quote ops a_in a_out qty s of
        (Inl e, s1) \<Rightarrow> (Raise e, s1)
      | (Inr q, s1) \<Rightarrow> oo_submit ops q s1)"

locale conversion_oracle =
  fixes ops :: "'o oracle_ops"
    and live :: "'o \<Rightarrow> nat set"
  assumes quote_answers: "oo_quote ops a b q s = (Inr k, s') \<Longrightarrow>
      cq_asset_in k = a \<and> b = Some (cq_asset_out k) \<and> cq_quantity_in k = q \<and> 0 < q"
    and quote_frame: "oo_quote ops a b q s = (r, s') \<Longrightarrow> x \<in> live s \<Longrightarrow>
      x \<in> live s' \<and> oo_order ops x s' = oo_order ops x s"
    and submit_fresh: "oo_submit ops k s = (Inr x, s') \<Longrightarrow> x \<notin> live s \<and> x \<in> live s'"
    and submit_order: "oo_submit ops k s = (Inr x, s') \<Longrightarrow>
      co_status (oo_order ops x s') = SUBMITTED \<and> co_ref (oo_order ops x s') = cq_ref k \<and>
      co_asset_in (oo_order ops x s') = cq_asset_in k \<and>
      co_asset_out (oo_order ops x s') = cq_asset_out k \<and>
      co_quantity_in (oo_order ops x s') = cq_quantity_in k"
    and submit_found: "oo_submit ops k s = (Inr x, s') \<Longrightarrow>
      oo_status ops (co_id (oo_order ops x s')) s' = Inr x"
    and submit_frame: "oo_submit ops k s = (r2, s') \<Longrightarrow> x \<in> live s \<Longrightarrow>
      x \<in> live s' \<and> oo_order ops x s' = oo_order ops x s"
begin

lemma convert_frame:
  assumes "convert ops a b q s = (r, s')" "x \<in> live s"
  shows "x \<in> live s'" "oo_order ops x s' = oo_order ops x s"
  using assms
  by (auto simp: convert_def split: prod.splits sum.splits dest: quote_frame submit_frame)
    (metis quote_frame submit_frame)+

lemma convert_order:
  assumes "convert ops a b q s = (Inr x, s')"
  shows "x \<notin> live s \<and> x \<in> live s' \<and> co_status (oo_order ops x s') = SUBMITTED \<and>
    co_asset_in (oo_order ops x s') = a \<and> b = Some (co_asset_out (oo_order ops x s')) \<and>
    co_quantity_in (oo_order ops x s') = q \<and> 0 < q \<and>
    oo_status ops (co_id (oo_order ops x s')) s' = Inr x"
proof -
  from assms obtain k s1 where k: "oo_quote ops a b q s = (Inr k, s1)" "oo_submit ops k s1 = (Inr x, s')"
    by (auto simp: convert_def split: prod.splits sum.splits)
  from quote_answers [OF k(1)] submit_fresh [OF k(2)] submit_order [OF k(2)] submit_found [OF k(2)]
  show ?thesis using quote_frame [OF k(1), of x] by auto
qed

end

section \<open>The simulation\<close>

record sim_oracle =
  so_fee_bps :: int
  so_heap :: "conversion_order list"
  so_orders :: "string \<rightharpoonup> nat"

definition new_sim_oracle :: "int \<Rightarrow> sim_oracle" where
  "new_sim_oracle fee = \<lparr>so_fee_bps = fee, so_heap = [], so_orders = Map.empty\<rparr>"

type_synonym quote_hash = "string \<Rightarrow> string option \<Rightarrow> pyfloat \<Rightarrow> int \<Rightarrow> string"

definition sim_quote :: "quote_hash \<Rightarrow> string \<Rightarrow> string option \<Rightarrow> pyfloat \<Rightarrow> sim_oracle \<Rightarrow> conversion_quote result" where
  "sim_quote ref_of a_in a_out qty s =
     (if qty \<le> 0 then Raise ValueError
      else make_quote a_in a_out qty (qty * (1 - float_of_int (so_fee_bps s) / Fin 10000))
             (ref_of a_in a_out qty (so_fee_bps s)))"

definition order_for :: "conversion_quote \<Rightarrow> conversion_order" where
  "order_for q =
     \<lparr>co_id = ''sim-'' @ cq_ref q, co_ref = cq_ref q, co_asset_in = cq_asset_in q,
      co_asset_out = cq_asset_out q, co_quantity_in = cq_quantity_in q, co_status = SUBMITTED\<rparr>"

definition sim_submit :: "conversion_quote \<Rightarrow> sim_oracle \<Rightarrow> nat result \<times> sim_oracle" where
  "sim_submit q s =
     (let x = length (so_heap s)
      in (Ok x, s\<lparr>so_heap := so_heap s @ [order_for q], so_orders := (so_orders s)(co_id (order_for q) \<mapsto> x)\<rparr>))"

definition sim_status :: "string \<Rightarrow> sim_oracle \<Rightarrow> nat result" where
  "sim_status order_id s = (case so_orders s order_id of None \<Rightarrow> Raise KeyError | Some x \<Rightarrow> Ok x)"

definition sim_settle :: "string \<Rightarrow> sim_oracle \<Rightarrow> nat result \<times> sim_oracle" where
  "sim_settle order_id s =
     (case sim_status order_id s of
        Inl e \<Rightarrow> (Raise e, s)
      | Inr x \<Rightarrow>
          if co_status (so_heap s ! x) \<noteq> SUBMITTED then (Raise AssertionError, s)
          else (Ok x, s\<lparr>so_heap := (so_heap s)[x := (so_heap s ! x)\<lparr>co_status := SETTLED\<rparr>]\<rparr>))"

definition sim_ops :: "quote_hash \<Rightarrow> sim_oracle oracle_ops" where
  "sim_ops ref_of =
     \<lparr>oo_quote = (\<lambda>a b q s. (sim_quote ref_of a b q s, s)), oo_submit = sim_submit,
      oo_status = sim_status, oo_order = (\<lambda>x s. so_heap s ! x)\<rparr>"

definition sim_live :: "sim_oracle \<Rightarrow> nat set" where
  "sim_live s = {x. x < length (so_heap s)}"

lemma make_quote_Inr:
  "make_quote a b q e r = Inr k \<longleftrightarrow>
     (\<exists>out. b = Some out \<and> a \<noteq> [] \<and> out \<noteq> [] \<and> 0 < q \<and> 0 < e \<and>
       k = \<lparr>cq_asset_in = a, cq_asset_out = out, cq_quantity_in = q, cq_est_out = e, cq_ref = r,
            cq_indicative = True\<rparr>)"
  by (auto simp: make_quote_def split: option.splits)

interpretation sim: conversion_oracle "sim_ops ref_of" sim_live for ref_of
  by unfold_locales
    (auto simp: sim_ops_def sim_quote_def make_quote_Inr sim_submit_def sim_live_def order_for_def
      sim_status_def Let_def nth_append split: if_splits)

section \<open>The config-driven wrapper\<close>

record 'o config_oracle =
  wo_inner :: 'o
  wo_label :: string

definition config_ops :: "'o oracle_ops \<Rightarrow> 'o config_oracle oracle_ops" where
  "config_ops ops =
     \<lparr>oo_quote = (\<lambda>a b q w. case oo_quote ops a b q (wo_inner w) of (r, s) \<Rightarrow> (r, w\<lparr>wo_inner := s\<rparr>)),
      oo_submit = (\<lambda>k w. case oo_submit ops k (wo_inner w) of (r, s) \<Rightarrow> (r, w\<lparr>wo_inner := s\<rparr>)),
      oo_status = (\<lambda>i w. oo_status ops i (wo_inner w)),
      oo_order = (\<lambda>x w. oo_order ops x (wo_inner w))\<rparr>"

context conversion_oracle begin

lemma config_oracle: "conversion_oracle (config_ops ops) (\<lambda>w. live (wo_inner w))"
  by unfold_locales
    (auto simp: config_ops_def split: prod.splits dest: quote_answers quote_frame submit_fresh
      submit_order submit_found submit_frame)

end

interpretation wrapped: conversion_oracle "config_ops (sim_ops ref_of)" "\<lambda>w. sim_live (wo_inner w)" for ref_of
  by (rule sim.config_oracle)

section \<open>The factory\<close>

definition oracle_factory :: "string \<Rightarrow> sim_oracle result" where
  "oracle_factory name = (if name = ''simulation_oracle'' then Ok (new_sim_oracle 0) else Raise ValueError)"

end
