(* ===== verification/DeadMan.thy ===== *)
theory DeadMan
  imports DeadManConfig Oracle
begin

text \<open>
  The dead-man switch of \<open>doomsday/doomsday/daemon.py\<close>: heartbeat, disarm, the tick that
  walks the escalation plan, the journal. Each operation runs under the daemon's lock, so it
  is one atomic step. The clock is the sequence of its readings: \<open>d_clock n\<close> is what the
  \<open>n\<close>-th call of \<open>self.clock()\<close> returns, \<open>d_reads\<close> counts the calls. Hooks and oracle are
  parameters: a hook may change the daemon and may raise. The journal texts are the
  constructors of \<open>detail\<close>, with the values the source formats into them.
\<close>

section \<open>State\<close>

datatype escalation_state = ARMED | WATCHING | ESCALATING | LIQUIDATING | DORMANT

fun transitions :: "escalation_state \<Rightarrow> escalation_state list" where
  "transitions ARMED = [WATCHING]"
| "transitions WATCHING = [ESCALATING, ARMED]"
| "transitions ESCALATING = [ARMED, LIQUIDATING]"
| "transitions LIQUIDATING = [DORMANT]"
| "transitions DORMANT = []"

datatype detail =
    ArmedHeartbeat
  | GovernanceDisarmed
  | Execute step_type
  | NotifyChannels "string list"
  | PlacementsHalted
  | ReduceExposure "pyfloat option"
  | AcquiredAssets string string
  | JournalSealed
  | HeartbeatLost
  | HeartbeatResumed
  | PlanArmed
  | PlanComplete
  | PlanFailed py_error
  | ConversionsSettled
  | LiquidationGraceElapsed

record transition =
  t_from :: escalation_state
  t_to :: escalation_state
  t_time :: pyfloat
  t_detail :: detail

record 'o daemon =
  d_config :: dead_man_config
  d_oracle :: 'o
  d_key :: "string option"
  d_state :: escalation_state
  d_last_beat :: "pyfloat option"
  d_step_index :: nat
  d_journal :: "transition list"
  d_last_error :: "(nat \<times> py_error) option"
  d_orders :: "nat list"
  d_liq_since :: "pyfloat option"
  d_clock :: "nat \<Rightarrow> pyfloat"
  d_reads :: nat

type_synonym 'o hooks =
  "step_type \<Rightarrow> (escalation_step \<Rightarrow> 'o daemon \<Rightarrow> 'o daemon \<times> unit result) option"

abbreviation no_hooks :: "'o hooks" where "no_hooks \<equiv> \<lambda>_. None"

definition init_daemon :: "dead_man_config \<Rightarrow> 'o \<Rightarrow> string option \<Rightarrow> (nat \<Rightarrow> pyfloat) \<Rightarrow> 'o daemon" where
  "init_daemon cfg ora key clk =
     \<lparr>d_config = cfg, d_oracle = ora, d_key = key, d_state = ARMED, d_last_beat = None,
      d_step_index = 0, d_journal = [], d_last_error = None, d_orders = [], d_liq_since = None,
      d_clock = clk, d_reads = 0\<rparr>"

text \<open>Without an oracle the constructor asks the factory, which refuses unknown names.\<close>

definition new_daemon :: "dead_man_config \<Rightarrow> string option \<Rightarrow> (nat \<Rightarrow> pyfloat) \<Rightarrow> sim_oracle daemon result" where
  "new_daemon cfg key clk = rbind (oracle_factory (g_oracle cfg)) (\<lambda>ora. Ok (init_daemon cfg ora key clk))"

section \<open>Operations\<close>

definition read_clock :: "'o daemon \<Rightarrow> pyfloat \<times> 'o daemon" where
  "read_clock d = (d_clock d (d_reads d), d\<lparr>d_reads := Suc (d_reads d)\<rparr>)"

text \<open>Appending to \<open>deque(maxlen=...)\<close> drops the oldest entries.\<close>

definition journal_append :: "transition \<Rightarrow> 'o daemon \<Rightarrow> 'o daemon" where
  "journal_append t d = d\<lparr>d_journal := lastn (g_max_journal (d_config d)) (d_journal d @ [t])\<rparr>"

definition move :: "escalation_state \<Rightarrow> detail \<Rightarrow> 'o daemon \<Rightarrow> bool \<times> 'o daemon" where
  "move target det d =
     (if target \<notin> set (transitions (d_state d)) then (False, d)
      else let (t, d1) = read_clock d;
               d2 = journal_append \<lparr>t_from = d_state d, t_to = target, t_time = t, t_detail = det\<rparr> d1
           in (True, d2\<lparr>d_state := target\<rparr>))"

definition journal_note :: "detail \<Rightarrow> 'o daemon \<Rightarrow> 'o daemon" where
  "journal_note det d =
     (let (t, d1) = read_clock d
      in journal_append \<lparr>t_from = d_state d, t_to = d_state d, t_time = t, t_detail = det\<rparr> d1)"

definition beat :: "bool \<Rightarrow> 'o daemon \<Rightarrow> 'o daemon \<times> unit result" where
  "beat signed d =
     (if g_strict (d_config d) \<and> \<not> signed then (d, Raise PermissionError)
      else let (t, d1) = read_clock d; d2 = d1\<lparr>d_last_beat := Some t\<rparr>
           in ((if d_state d2 = ARMED then journal_note ArmedHeartbeat d2 else d2), Ok ()))"

definition disarm :: "string \<Rightarrow> 'o daemon \<Rightarrow> 'o daemon \<times> unit result" where
  "disarm key d =
     (if d_key d = None \<or> Some key \<noteq> d_key d then (d, Raise PermissionError)
      else let d1 = snd (move ARMED GovernanceDisarmed d);
               (t, d2) = read_clock (d1\<lparr>d_step_index := 0, d_liq_since := None\<rparr>)
           in (d2\<lparr>d_last_beat := Some t\<rparr>, Ok ()))"

definition can_abort :: "'o daemon \<Rightarrow> bool" where
  "can_abort d \<longleftrightarrow> d_step_index d < g_abortable (d_config d)"

text \<open>\<open>step.via or self.config.oracle\<close>: an empty name is falsy.\<close>

definition via_name :: "escalation_step \<Rightarrow> dead_man_config \<Rightarrow> string" where
  "via_name s cfg = (case s_via s of None \<Rightarrow> g_oracle cfg | Some v \<Rightarrow> if v = [] then g_oracle cfg else v)"

definition acquire_assets :: "'o oracle_ops \<Rightarrow> escalation_step \<Rightarrow> 'o daemon \<Rightarrow> 'o daemon \<times> unit result" where
  "acquire_assets ops s d =
     (case convert ops ''PORTFOLIO'' (s_asset_out s) 1 (d_oracle d) of
        (Inl e, ora) \<Rightarrow> (d\<lparr>d_oracle := ora\<rparr>, Raise e)
      | (Inr x, ora) \<Rightarrow>
          (journal_note (AcquiredAssets (co_id (oo_order ops x ora)) (via_name s (d_config d)))
             (d\<lparr>d_oracle := ora, d_orders := d_orders d @ [x]\<rparr>), Ok ()))"

definition step_action :: "'o oracle_ops \<Rightarrow> escalation_step \<Rightarrow> 'o daemon \<Rightarrow> 'o daemon \<times> unit result" where
  "step_action ops s d =
     (case s_step s of
        NOTIFY \<Rightarrow> (journal_note (NotifyChannels (s_channels s)) d, Ok ())
      | HALT_PLACEMENTS \<Rightarrow> (journal_note PlacementsHalted d, Ok ())
      | REDUCE_EXPOSURE \<Rightarrow> (journal_note (ReduceExposure (s_target s)) d, Ok ())
      | ACQUIRE_ASSETS \<Rightarrow> acquire_assets ops s d
      | SEAL \<Rightarrow> (journal_note JournalSealed d, Ok ()))"

definition execute_step :: "'o oracle_ops \<Rightarrow> 'o hooks \<Rightarrow> escalation_step \<Rightarrow> 'o daemon \<Rightarrow> 'o daemon \<times> unit result" where
  "execute_step ops hooks s d =
     (case step_action ops s (journal_note (Execute (s_step s)) d) of
        (d1, Inl e) \<Rightarrow> (d1, Raise e)
      | (d1, Inr _) \<Rightarrow> (case hooks (s_step s) of None \<Rightarrow> (d1, Ok ()) | Some h \<Rightarrow> h s d1))"

text \<open>
  The \<open>for i in range(...)\<close> loop of \<open>tick\<close>, over the step numbers still due. A raising
  step ends the loop and sends the daemon to \<open>LIQUIDATING\<close>.
\<close>

fun plan_loop ::
    "'o oracle_ops \<Rightarrow> 'o hooks \<Rightarrow> pyfloat \<Rightarrow> escalation_step list \<Rightarrow> nat list \<Rightarrow> 'o daemon \<Rightarrow> 'o daemon" where
  "plan_loop ops hooks now plan [] d = d"
| "plan_loop ops hooks now plan (i # is) d =
     (let d0 = d\<lparr>d_step_index := i\<rparr>
      in if i - 1 < length plan
         then case execute_step ops hooks (plan ! (i - 1)) d0 of
             (d1, Inl e) \<Rightarrow> snd (move LIQUIDATING (PlanFailed e) (d1\<lparr>d_last_error := Some (i, e)\<rparr>))
           | (d1, Inr _) \<Rightarrow>
               plan_loop ops hooks now plan is
                 (if i - 1 = length plan - 1
                  then snd (move LIQUIDATING PlanComplete (d1\<lparr>d_liq_since := Some now\<rparr>)) else d1)
         else plan_loop ops hooks now plan is d0)"

definition steps_due :: "dead_man_config \<Rightarrow> pyfloat \<Rightarrow> int result" where
  "steps_due cfg elapsed =
     rbind (py_floordiv (elapsed - grace_period cfg) (escalation_period cfg)) py_int"

definition tick_armed :: "pyfloat \<Rightarrow> 'o daemon \<Rightarrow> 'o daemon" where
  "tick_armed elapsed d =
     (if grace_period (d_config d) < elapsed then snd (move WATCHING HeartbeatLost d) else d)"

definition tick_watching :: "pyfloat \<Rightarrow> 'o daemon \<Rightarrow> 'o daemon" where
  "tick_watching elapsed d =
     (let cfg = d_config d
      in if elapsed \<le> grace_period cfg
         then case move ARMED HeartbeatResumed d of
             (True, d1) \<Rightarrow> d1\<lparr>d_step_index := 0, d_liq_since := None\<rparr>
           | (False, d1) \<Rightarrow> d1
         else if grace_period cfg + escalation_period cfg < elapsed
         then snd (move ESCALATING PlanArmed d) else d)"

definition tick_escalating ::
    "'o oracle_ops \<Rightarrow> 'o hooks \<Rightarrow> pyfloat \<Rightarrow> pyfloat \<Rightarrow> 'o daemon \<Rightarrow> 'o daemon \<times> unit result" where
  "tick_escalating ops hooks now elapsed d =
     (let cfg = d_config d
      in if elapsed \<le> grace_period cfg \<and> can_abort d
         then (case move ARMED HeartbeatResumed d of
                 (True, d1) \<Rightarrow> d1\<lparr>d_step_index := 0\<rparr>
               | (False, d1) \<Rightarrow> d1, Ok ())
         else case steps_due cfg elapsed of
             Inl e \<Rightarrow> (d, Raise e)
           | Inr n \<Rightarrow>
               if n \<le> int (d_step_index d) then (d, Ok ())
               else (plan_loop ops hooks now (g_plan cfg)
                       [Suc (d_step_index d) ..< Suc (nat (min n (int (length (g_plan cfg)))))] d, Ok ()))"

definition pending :: "'o oracle_ops \<Rightarrow> 'o daemon \<Rightarrow> bool" where
  "pending ops d \<longleftrightarrow> list_ex (\<lambda>x. co_status (oo_order ops x (d_oracle d)) = SUBMITTED) (d_orders d)"

definition tick_liquidating :: "'o oracle_ops \<Rightarrow> pyfloat \<Rightarrow> 'o daemon \<Rightarrow> 'o daemon" where
  "tick_liquidating ops now d =
     (let since = (case d_liq_since d of None \<Rightarrow> now | Some t \<Rightarrow> t);
          d1 = d\<lparr>d_liq_since := Some since\<rparr>
      in if \<not> pending ops d1 \<or> liquidation_grace (d_config d1) < now - since
         then snd (move DORMANT
                (if \<not> pending ops d1 then ConversionsSettled else LiquidationGraceElapsed) d1)
         else d1)"

definition tick :: "'o oracle_ops \<Rightarrow> 'o hooks \<Rightarrow> 'o daemon \<Rightarrow> 'o daemon \<times> escalation_state result" where
  "tick ops hooks d =
     (let (now, d0) = read_clock d;
          elapsed = now - (case d_last_beat d0 of None \<Rightarrow> now | Some t \<Rightarrow> t);
          (d1, r) = (if \<not> g_enabled (d_config d0) then (d0\<lparr>d_state := ARMED\<rparr>, Ok ())
             else case d_state d0 of
               ARMED \<Rightarrow> (tick_armed elapsed d0, Ok ())
             | WATCHING \<Rightarrow> (tick_watching elapsed d0, Ok ())
             | ESCALATING \<Rightarrow> tick_escalating ops hooks now elapsed d0
             | LIQUIDATING \<Rightarrow> (tick_liquidating ops now d0, Ok ())
             | DORMANT \<Rightarrow> (d0, Ok ()))
      in (d1, rbind r (\<lambda>_. Ok (d_state d1))))"

section \<open>Field effects\<close>

interpretation journal: bounded_history journal_append d_journal "\<lambda>d. g_max_journal (d_config d)"
  by unfold_locales (simp_all add: journal_append_def)

lemma journal_append_simps [simp]:
  "d_config (journal_append t d) = d_config d" "d_oracle (journal_append t d) = d_oracle d"
  "d_key (journal_append t d) = d_key d" "d_state (journal_append t d) = d_state d"
  "d_last_beat (journal_append t d) = d_last_beat d" "d_step_index (journal_append t d) = d_step_index d"
  "d_last_error (journal_append t d) = d_last_error d" "d_orders (journal_append t d) = d_orders d"
  "d_liq_since (journal_append t d) = d_liq_since d" "d_clock (journal_append t d) = d_clock d"
  "d_journal (journal_append t d) = lastn (g_max_journal (d_config d)) (d_journal d @ [t])"
  by (simp_all add: journal_append_def)

lemma journal_note_simps [simp]:
  "d_config (journal_note x d) = d_config d" "d_oracle (journal_note x d) = d_oracle d"
  "d_key (journal_note x d) = d_key d" "d_state (journal_note x d) = d_state d"
  "d_last_beat (journal_note x d) = d_last_beat d" "d_step_index (journal_note x d) = d_step_index d"
  "d_last_error (journal_note x d) = d_last_error d" "d_orders (journal_note x d) = d_orders d"
  "d_liq_since (journal_note x d) = d_liq_since d" "d_clock (journal_note x d) = d_clock d"
  by (simp_all add: journal_note_def read_clock_def)

lemma move_simps [simp]:
  "d_config (snd (move s x d)) = d_config d" "d_oracle (snd (move s x d)) = d_oracle d"
  "d_key (snd (move s x d)) = d_key d" "d_last_beat (snd (move s x d)) = d_last_beat d"
  "d_step_index (snd (move s x d)) = d_step_index d" "d_last_error (snd (move s x d)) = d_last_error d"
  "d_orders (snd (move s x d)) = d_orders d" "d_liq_since (snd (move s x d)) = d_liq_since d"
  "d_clock (snd (move s x d)) = d_clock d"
  "d_state (snd (move s x d)) = (if s \<in> set (transitions (d_state d)) then s else d_state d)"
  "fst (move s x d) \<longleftrightarrow> s \<in> set (transitions (d_state d))"
  by (simp_all add: move_def read_clock_def)

lemma move_refused: "s \<notin> set (transitions (d_state d)) \<Longrightarrow> move s x d = (False, d)"
  by (simp add: move_def)

section \<open>The audit trail\<close>

text \<open>
  The journal is an audit trail: bounded, every entry a note or an edge of the transition
  table, consecutive entries linked, the last one ending in the current state.
\<close>

definition legal :: "transition \<Rightarrow> bool" where
  "legal t \<longleftrightarrow> t_to t = t_from t \<or> t_to t \<in> set (transitions (t_from t))"

fun chained :: "transition list \<Rightarrow> bool" where
  "chained (a # b # xs) \<longleftrightarrow> t_to a = t_from b \<and> chained (b # xs)"
| "chained _ \<longleftrightarrow> True"

definition audited :: "'o daemon \<Rightarrow> bool" where
  "audited d \<longleftrightarrow>
     length (d_journal d) \<le> g_max_journal (d_config d) \<and> 0 < g_max_journal (d_config d) \<and>
     list_all legal (d_journal d) \<and> chained (d_journal d) \<and>
     d_state d = (if d_journal d = [] then ARMED else t_to (last (d_journal d)))"

lemma chained_snoc: "chained (xs @ [t]) \<longleftrightarrow> chained xs \<and> (xs \<noteq> [] \<longrightarrow> t_to (last xs) = t_from t)"
  by (induction xs rule: chained.induct) auto

lemma chained_tl: "chained (a # xs) \<Longrightarrow> chained xs"
  by (cases xs) auto

lemma chained_drop: "chained xs \<Longrightarrow> chained (drop n xs)"
proof (induction n arbitrary: xs)
  case (Suc n)
  then show ?case by (cases xs) (auto dest: chained_tl)
qed simp

lemma audited_append:
  assumes "audited d" "t_from t = d_state d" "legal t" "d_config d' = d_config d"
    "d_journal d' = lastn (g_max_journal (d_config d)) (d_journal d @ [t])" "d_state d' = t_to t"
  shows "audited d'"
proof -
  let ?n = "g_max_journal (d_config d)"
  have ch: "chained (d_journal d @ [t]) \<or> d_journal d = []"
    using assms by (auto simp: audited_def chained_snoc)
  have "chained (lastn ?n (d_journal d @ [t]))"
    unfolding lastn_def by (rule chained_drop) (use ch in \<open>auto simp: chained_snoc\<close>)
  moreover have "list_all legal (lastn ?n (d_journal d @ [t]))"
    using set_lastn [of ?n "d_journal d @ [t]"] assms by (auto simp: list_all_iff audited_def)
  ultimately show ?thesis
    using assms by (simp add: audited_def last_lastn)
qed

lemma audited_cong:
  "d_config d' = d_config d \<Longrightarrow> d_journal d' = d_journal d \<Longrightarrow> d_state d' = d_state d \<Longrightarrow>
     audited d' = audited d"
  by (simp add: audited_def)

lemma audited_note: "audited d \<Longrightarrow> audited (journal_note x d)"
  by (rule audited_append [of d "\<lparr>t_from = d_state d, t_to = d_state d, t_time = d_clock d (d_reads d), t_detail = x\<rparr>"])
    (simp_all add: journal_note_def read_clock_def legal_def)

lemma audited_move: "audited d \<Longrightarrow> audited (snd (move s x d))"
proof (cases "s \<in> set (transitions (d_state d))")
  case True
  assume "audited d"
  then show ?thesis
    by (rule audited_append [of d "\<lparr>t_from = d_state d, t_to = s, t_time = d_clock d (d_reads d), t_detail = x\<rparr>"])
      (use True in \<open>simp_all add: move_def read_clock_def legal_def\<close>)
qed (simp add: move_refused)

lemma audited_init: "config_ok cfg \<Longrightarrow> audited (init_daemon cfg ora key clk)"
  by (simp add: audited_def init_daemon_def config_ok_def)

section \<open>Executing a step\<close>

text \<open>
  The hooks a theorem admits: they may act on the outside (the oracle, the orders, the clock)
  but not on the state machine, its counters and its journal.
\<close>

definition same_fsm :: "'o daemon \<Rightarrow> 'o daemon \<Rightarrow> bool" where
  "same_fsm d d' \<longleftrightarrow>
     d_config d' = d_config d \<and> d_key d' = d_key d \<and> d_state d' = d_state d \<and>
     d_last_beat d' = d_last_beat d \<and> d_step_index d' = d_step_index d \<and> d_liq_since d' = d_liq_since d"

definition quiet_hooks :: "'o hooks \<Rightarrow> bool" where
  "quiet_hooks hooks \<longleftrightarrow>
     (\<forall>t h s d. hooks t = Some h \<longrightarrow> same_fsm d (fst (h s d)) \<and> d_journal (fst (h s d)) = d_journal d)"

lemma quiet_no_hooks: "quiet_hooks no_hooks"
  by (simp add: quiet_hooks_def)

text \<open>\<open>appends d es d'\<close>: the journal of \<open>d'\<close> is that of \<open>d\<close> with the entries \<open>es\<close> appended.\<close>

definition appends :: "'o daemon \<Rightarrow> transition list \<Rightarrow> 'o daemon \<Rightarrow> bool" where
  "appends d es d' \<longleftrightarrow>
     d_config d' = d_config d \<and> d_journal d' = lastn (g_max_journal (d_config d)) (d_journal d @ es)"

definition executed :: "transition list \<Rightarrow> step_type list" where
  "executed es = concat (map (\<lambda>t. case t_detail t of Execute s \<Rightarrow> [s] | _ \<Rightarrow> []) es)"

lemma executed_simps [simp]:
  "executed [] = []" "executed (es @ fs) = executed es @ executed fs"
  "executed [t] = (case t_detail t of Execute s \<Rightarrow> [s] | _ \<Rightarrow> [])"
  by (simp_all add: executed_def)

lemma appends_trans: "appends d es d1 \<Longrightarrow> appends d1 fs d2 \<Longrightarrow> appends d (es @ fs) d2"
  by (simp add: appends_def lastn_lastn_append)

lemma appends_note:
  "\<exists>e. appends d [e] (journal_note x d) \<and> t_detail e = x"
  by (rule exI [of _ "\<lparr>t_from = d_state d, t_to = d_state d, t_time = d_clock d (d_reads d), t_detail = x\<rparr>"])
    (simp add: appends_def journal_note_def read_clock_def)

lemma appends_cong:
  "d_config d' = d_config d1 \<Longrightarrow> d_journal d' = d_journal d1 \<Longrightarrow> appends d es d' = appends d es d1"
  by (simp add: appends_def)

lemma step_action_keeps:
  assumes "step_action ops s d = (d', r)" "audited d"
  shows "same_fsm d d' \<and> audited d' \<and> (\<exists>es. appends d es d' \<and> executed es = [])"
proof -
  have stay: "\<exists>es. appends d es (d\<lparr>d_oracle := ora\<rparr>) \<and> executed es = []" for ora
    using assms(2) by (intro exI [of _ "[]"]) (simp add: appends_def audited_def lastn_all)
  have log: "same_fsm d (journal_note x e) \<and> audited (journal_note x e) \<and>
      (\<exists>es. appends d es (journal_note x e) \<and> executed es = [])"
    if "same_fsm d e" "d_journal e = d_journal d" "\<And>t. x \<noteq> Execute t" for e x
  proof -
    have "audited e" using that assms(2) by (simp add: same_fsm_def audited_def)
    moreover obtain t where t: "appends e [t] (journal_note x e)" "t_detail t = x"
      using appends_note by blast
    moreover have "appends d [t] (journal_note x e)"
      using t(1) that by (simp add: appends_def same_fsm_def)
    moreover have "executed [t] = []" using t(2) that(3) by (cases x) auto
    ultimately show ?thesis using that(1) by (auto simp: same_fsm_def audited_note)
  qed
  have refl: "same_fsm d d" by (simp add: same_fsm_def)
  show ?thesis
  proof (cases "s_step s")
    case ACQUIRE_ASSETS
    show ?thesis
    proof (cases "convert ops ''PORTFOLIO'' (s_asset_out s) 1 (d_oracle d)")
      case (Pair q ora)
      show ?thesis
      proof (cases q)
        case (Inl e)
        then show ?thesis
          using assms ACQUIRE_ASSETS Pair stay
          by (auto simp: step_action_def acquire_assets_def same_fsm_def audited_def)
      next
        case (Inr x)
        let ?e = "d\<lparr>d_oracle := ora, d_orders := d_orders d @ [x]\<rparr>"
        have "d' = journal_note (AcquiredAssets (co_id (oo_order ops x ora)) (via_name s (d_config d))) ?e"
          using assms(1) ACQUIRE_ASSETS Pair Inr by (simp add: step_action_def acquire_assets_def)
        moreover have "same_fsm d ?e" "d_journal ?e = d_journal d" by (simp_all add: same_fsm_def)
        ultimately show ?thesis using log [of ?e] by simp
      qed
    qed
  qed (use assms(1) log [OF refl] in \<open>auto simp: step_action_def\<close>)
qed

lemma execute_step_keeps:
  assumes "execute_step ops hooks s d = (d', r)" "audited d" "quiet_hooks hooks"
  shows "same_fsm d d' \<and> audited d' \<and> (\<exists>es. appends d es d' \<and> executed es = [s_step s])"
proof -
  let ?n = "journal_note (Execute (s_step s)) d"
  obtain d1 r1 where a: "step_action ops s ?n = (d1, r1)" by fastforce
  from step_action_keeps [OF a audited_note [OF assms(2)]] obtain es where
    k: "same_fsm ?n d1" "audited d1" "appends ?n es d1" "executed es = []" by blast
  obtain e where e: "appends d [e] ?n" "t_detail e = Execute (s_step s)" using appends_note by blast
  have "appends d ([e] @ es) d1" using e(1) k(3) by (rule appends_trans)
  moreover have "executed ([e] @ es) = [s_step s]" using e(2) k(4) by (simp only: executed_simps) simp
  moreover have "same_fsm d d1" using k(1) by (simp add: same_fsm_def)
  ultimately have d1: "same_fsm d d1" "\<exists>es. appends d es d1 \<and> executed es = [s_step s]" by blast+
  have "d_journal d' = d_journal d1 \<and> same_fsm d1 d'"
    using assms(1,3) a
    by (auto simp: execute_step_def quiet_hooks_def same_fsm_def split: sum.splits option.splits)
      (metis fst_conv)+
  then show ?thesis
    using d1 k(2) by (auto simp: same_fsm_def audited_def appends_def)
qed

text \<open>
  The loop over the steps \<open>Suc k, ..., n\<close>: it either stays in \<open>ESCALATING\<close> having done them
  all, or reaches \<open>LIQUIDATING\<close>; it executes the steps in plan order, none skipped, none twice.
\<close>

definition loop_result :: "pyfloat \<Rightarrow> escalation_step list \<Rightarrow> nat \<Rightarrow> nat \<Rightarrow> 'o daemon \<Rightarrow> 'o daemon \<Rightarrow> bool" where
  "loop_result now plan k n d d' \<longleftrightarrow>
     audited d' \<and> d_config d' = d_config d \<and> d_key d' = d_key d \<and> d_last_beat d' = d_last_beat d \<and>
     k \<le> d_step_index d' \<and> d_step_index d' \<le> n \<and>
     (\<exists>es. appends d es d' \<and>
        executed es = map s_step (take (d_step_index d' - k) (drop k plan))) \<and>
     (d_state d' = ESCALATING \<and> d_liq_since d' = d_liq_since d \<and> d_step_index d' = n \<and>
        (k < n \<longrightarrow> n < length plan) \<or>
      d_state d' = LIQUIDATING \<and> k < d_step_index d' \<and> d_liq_since d' \<in> {d_liq_since d, Some now})"

lemma move_appends:
  assumes "s \<in> set (transitions (d_state d))"
  shows "\<exists>e. appends d [e] (snd (move s x d)) \<and> t_detail e = x"
  by (rule exI [of _ "\<lparr>t_from = d_state d, t_to = s, t_time = d_clock d (d_reads d), t_detail = x\<rparr>"])
    (use assms in \<open>simp add: appends_def move_def read_clock_def\<close>)

lemma loop_result_cons:
  assumes "loop_result now plan (Suc k) n d1 d'" "appends d es d1" "executed es = [s_step (plan ! k)]"
    "d_key d1 = d_key d" "d_last_beat d1 = d_last_beat d" "d_liq_since d1 = d_liq_since d"
    "k < length plan" "k < n" "n \<le> length plan" "n = Suc k \<longrightarrow> Suc k < length plan"
  shows "loop_result now plan k n d d'"
proof -
  from assms(1) obtain fs where fs: "appends d1 fs d'"
    "executed fs = map s_step (take (d_step_index d' - Suc k) (drop (Suc k) plan))"
    by (auto simp: loop_result_def)
  have idx: "Suc k \<le> d_step_index d'" using assms(1) by (simp add: loop_result_def)
  then have "d_step_index d' - k = Suc (d_step_index d' - Suc k)" by simp
  then have "take (d_step_index d' - k) (drop k plan) =
      plan ! k # take (d_step_index d' - Suc k) (drop (Suc k) plan)"
    using assms(7) by (simp add: Cons_nth_drop_Suc [symmetric])
  then have "executed (es @ fs) = map s_step (take (d_step_index d' - k) (drop k plan))"
    using assms(3) fs(2) by simp
  moreover have "appends d (es @ fs) d'" using assms(2) fs(1) by (rule appends_trans)
  ultimately show ?thesis
    using assms idx by (auto simp: loop_result_def appends_def)
qed

lemma plan_loop_result:
  assumes "audited d" "d_state d = ESCALATING" "d_step_index d = k" "k \<le> n" "n \<le> length plan"
    "quiet_hooks hooks"
  shows "loop_result now plan k n d (plan_loop ops hooks now plan [Suc k ..< Suc n] d)"
  using assms
proof (induction "n - k" arbitrary: k d)
  case 0
  then have "[Suc k ..< Suc n] = []" by simp
  then show ?case
    using 0 by (auto simp: loop_result_def audited_def appends_def lastn_all
        intro!: exI [of _ "[]"])
next
  case (Suc m)
  then have kn: "k < n" and kp: "k < length plan" by auto
  let ?d0 = "d\<lparr>d_step_index := Suc k\<rparr>"
  have upt: "[Suc k ..< Suc n] = Suc k # [Suc (Suc k) ..< Suc n]"
    using kn by (simp add: upt_conv_Cons)
  have a0: "audited ?d0" using Suc.prems(1) by (simp add: audited_def)
  obtain d1 r where x: "execute_step ops hooks (plan ! k) ?d0 = (d1, r)" by fastforce
  from execute_step_keeps [OF x a0 Suc.prems(6)] obtain es where
    s: "same_fsm ?d0 d1" and a1: "audited d1" and es: "appends ?d0 es d1" "executed es = [s_step (plan ! k)]"
    by blast
  have es': "appends d es d1" using es(1) by (simp add: appends_def)
  have tk: "take (Suc 0) (drop k plan) = [plan ! k]"
    using kp by (simp add: take_Suc_conv_app_nth)
  have f: "d_config d1 = d_config d" "d_key d1 = d_key d" "d_last_beat d1 = d_last_beat d"
    "d_state d1 = ESCALATING" "d_step_index d1 = Suc k" "d_liq_since d1 = d_liq_since d"
    using s Suc.prems(2) by (simp_all add: same_fsm_def)
  have liq: "loop_result now plan k n d (snd (move LIQUIDATING y e))"
    if e: "same_fsm d1 (e\<lparr>d_liq_since := d_liq_since d1\<rparr>)" "d_journal e = d_journal d1"
      "d_liq_since e \<in> {d_liq_since d, Some now}" "\<And>t. y \<noteq> Execute t" for e y
  proof -
    have ae: "audited e" using e(1,2) a1 by (simp add: same_fsm_def audited_def)
    obtain t where t: "appends e [t] (snd (move LIQUIDATING y e))" "t_detail t = y"
      using move_appends [of LIQUIDATING e y] e(1) f(4) by (auto simp: same_fsm_def)
    have "appends d es e" using es' e(1,2) by (simp add: appends_def same_fsm_def)
    from appends_trans [OF this t(1)] have "appends d (es @ [t]) (snd (move LIQUIDATING y e))" .
    moreover have "executed (es @ [t]) = map s_step (take (Suc k - k) (drop k plan))"
      using es(2) t(2) e(4) tk by (cases y) auto
    ultimately show ?thesis
      using e f kn audited_move [OF ae, of LIQUIDATING y]
      by (auto simp: loop_result_def same_fsm_def)
  qed
  show ?case
  proof (cases r)
    case (Inl err)
    have "plan_loop ops hooks now plan [Suc k ..< Suc n] d =
        snd (move LIQUIDATING (PlanFailed err) (d1\<lparr>d_last_error := Some (Suc k, err)\<rparr>))"
      using kp x Inl by (simp add: upt del: upt_Suc)
    moreover have "loop_result now plan k n d
        (snd (move LIQUIDATING (PlanFailed err) (d1\<lparr>d_last_error := Some (Suc k, err)\<rparr>)))"
      by (rule liq) (simp_all add: same_fsm_def f)
    ultimately show ?thesis by simp
  next
    case (Inr u)
    show ?thesis
    proof (cases "k = length plan - 1")
      case True
      then have "Suc k = n" using kn Suc.prems(5) by simp
      then have upt1: "[Suc k ..< Suc n] = [Suc k]" by simp
      have "plan_loop ops hooks now plan [Suc k ..< Suc n] d =
          snd (move LIQUIDATING PlanComplete (d1\<lparr>d_liq_since := Some now\<rparr>))"
        unfolding upt1 using kp x Inr True by simp
      moreover have "loop_result now plan k n d
          (snd (move LIQUIDATING PlanComplete (d1\<lparr>d_liq_since := Some now\<rparr>)))"
        by (rule liq) (simp_all add: same_fsm_def f)
      ultimately show ?thesis by simp
    next
      case False
      have eq: "plan_loop ops hooks now plan [Suc k ..< Suc n] d =
          plan_loop ops hooks now plan [Suc (Suc k) ..< Suc n] d1"
        using kp x Inr False by (simp add: upt del: upt_Suc)
      have "loop_result now plan (Suc k) n d1 (plan_loop ops hooks now plan [Suc (Suc k) ..< Suc n] d1)"
        using Suc.hyps(2) Suc.prems(5,6) kn a1 f by (intro Suc.hyps(1)) auto
      then show ?thesis
        unfolding eq using es' es(2) f False kp kn Suc.prems(5) by (auto intro: loop_result_cons)
    qed
  qed
qed

section \<open>Ticks\<close>

text \<open>What a tick reads: the time since the last heartbeat, zero before the first one.\<close>

definition silence :: "'o daemon \<Rightarrow> pyfloat" where
  "silence d =
     d_clock d (d_reads d) - (case d_last_beat d of None \<Rightarrow> d_clock d (d_reads d) | Some t \<Rightarrow> t)"

text \<open>The counters that go with each state.\<close>

definition counters_ok :: "'o daemon \<Rightarrow> bool" where
  "counters_ok d \<longleftrightarrow>
     d_step_index d \<le> length (g_plan (d_config d)) \<and>
     (d_state d \<in> {ARMED, WATCHING} \<longrightarrow> d_step_index d = 0 \<and> d_liq_since d = None) \<and>
     (d_state d = ESCALATING \<longrightarrow> d_liq_since d = None \<and>
        (g_plan (d_config d) \<noteq> [] \<longrightarrow> d_step_index d < length (g_plan (d_config d))))"

definition daemon_inv :: "'o daemon \<Rightarrow> bool" where
  "daemon_inv d \<longleftrightarrow> audited d \<and> counters_ok d \<and> g_enabled (d_config d)"

definition edge :: "escalation_state \<Rightarrow> escalation_state \<Rightarrow> bool" where
  "edge s s' \<longleftrightarrow> s' = s \<or> s' \<in> set (transitions s)"

abbreviation read1 :: "'o daemon \<Rightarrow> 'o daemon" where
  "read1 d \<equiv> d\<lparr>d_reads := Suc (d_reads d)\<rparr>"

lemma tick_cases:
  assumes "tick ops hooks d = (d', r)" "g_enabled (d_config d)"
  obtains (armed) "d_state d = ARMED" "d' = tick_armed (silence d) (read1 d)" "r = Ok (d_state d')"
  | (watching) "d_state d = WATCHING" "d' = tick_watching (silence d) (read1 d)" "r = Ok (d_state d')"
  | (escalating) r1 where "d_state d = ESCALATING" "r = rbind r1 (\<lambda>_. Ok (d_state d'))"
      "tick_escalating ops hooks (d_clock d (d_reads d)) (silence d) (read1 d) = (d', r1)"
  | (liquidating) "d_state d = LIQUIDATING" "r = Ok (d_state d')"
      "d' = tick_liquidating ops (d_clock d (d_reads d)) (read1 d)"
  | (dormant) "d_state d = DORMANT" "d' = read1 d" "r = Ok DORMANT"
proof -
  let ?now = "d_clock d (d_reads d)"
  have t: "tick ops hooks d =
      (let (d1, r) = (case d_state d of
               ARMED \<Rightarrow> (tick_armed (silence d) (read1 d), Ok ())
             | WATCHING \<Rightarrow> (tick_watching (silence d) (read1 d), Ok ())
             | ESCALATING \<Rightarrow> tick_escalating ops hooks ?now (silence d) (read1 d)
             | LIQUIDATING \<Rightarrow> (tick_liquidating ops ?now (read1 d), Ok ())
             | DORMANT \<Rightarrow> (read1 d, Ok ()))
       in (d1, rbind r (\<lambda>_. Ok (d_state d1))))"
    using assms(2) by (cases "d_state d") (simp_all add: tick_def read_clock_def silence_def Let_def)
  show thesis
  proof (cases "d_state d")
    case ESCALATING
    obtain d1 r1 where e: "tick_escalating ops hooks ?now (silence d) (read1 d) = (d1, r1)"
      by fastforce
    with t assms(1) ESCALATING have "d' = d1" "r = rbind r1 (\<lambda>_. Ok (d_state d1))" by simp_all
    with e ESCALATING show thesis using that(3) by simp
  qed (use t assms(1) that in simp_all)
qed

definition tick_frame :: "'o daemon \<Rightarrow> 'o daemon \<Rightarrow> bool" where
  "tick_frame d d' \<longleftrightarrow>
     d_config d' = d_config d \<and> d_key d' = d_key d \<and> d_last_beat d' = d_last_beat d \<and>
     edge (d_state d) (d_state d') \<and> (daemon_inv d \<longrightarrow> daemon_inv d')"

lemma audited_reads [simp]:
  "audited (d\<lparr>d_reads := n\<rparr>) = audited d" "audited (d\<lparr>d_step_index := i\<rparr>) = audited d"
  "audited (d\<lparr>d_liq_since := l\<rparr>) = audited d" "audited (d\<lparr>d_last_beat := b\<rparr>) = audited d"
  "audited (d\<lparr>d_clock := c\<rparr>) = audited d" "audited (d\<lparr>d_oracle := u\<rparr>) = audited d"
  by (simp_all add: audited_def)

lemma fst_snd_move: "move s x d = (b, d1) \<Longrightarrow> b = (s \<in> set (transitions (d_state d))) \<and> d1 = snd (move s x d)"
  using move_simps(11) [of s x d] by (cases "move s x d") simp

lemma tick_armed_frame: "d_state d = ARMED \<Longrightarrow> tick_frame d (tick_armed e d)"
  by (auto simp: tick_armed_def tick_frame_def edge_def daemon_inv_def counters_ok_def
      intro: audited_move)

lemma tick_watching_frame: "d_state d = WATCHING \<Longrightarrow> tick_frame d (tick_watching e d)"
  by (auto simp: tick_watching_def tick_frame_def edge_def daemon_inv_def counters_ok_def Let_def
      audited_move split: prod.splits bool.splits dest!: fst_snd_move)

lemma tick_liquidating_frame: "d_state d = LIQUIDATING \<Longrightarrow> tick_frame d (tick_liquidating ops now d)"
  by (auto simp: tick_liquidating_def tick_frame_def edge_def daemon_inv_def counters_ok_def Let_def
      audited_move)

lemma escalating_loop:
  assumes "tick_escalating ops hooks now e d = (d', r)" "d_state d = ESCALATING" "daemon_inv d"
    "quiet_hooks hooks" "\<not> (e \<le> grace_period (d_config d) \<and> can_abort d)"
    "steps_due (d_config d) e = Ok n" "int (d_step_index d) < n"
  shows "loop_result now (g_plan (d_config d)) (d_step_index d)
    (nat (min n (int (length (g_plan (d_config d)))))) d d'"
proof -
  let ?plan = "g_plan (d_config d)"
  let ?n = "nat (min n (int (length ?plan)))"
  have "d' = plan_loop ops hooks now ?plan [Suc (d_step_index d) ..< Suc ?n] d"
    using assms by (auto simp: tick_escalating_def Let_def simp del: upt_Suc)
  moreover have "d_step_index d \<le> ?n" "?n \<le> length ?plan"
    using assms(3,7) by (auto simp: daemon_inv_def counters_ok_def)
  ultimately show ?thesis
    using plan_loop_result [of d "d_step_index d" ?n ?plan hooks now ops] assms(2,3,4)
    by (simp add: daemon_inv_def)
qed

lemma loop_result_frame:
  assumes "loop_result now (g_plan (d_config d)) (d_step_index d) n d d'" "d_state d = ESCALATING"
    "daemon_inv d" "n \<le> length (g_plan (d_config d))"
  shows "tick_frame d d'"
  using assms
  by (auto simp: loop_result_def tick_frame_def edge_def daemon_inv_def counters_ok_def)

lemma tick_escalating_frame:
  assumes "tick_escalating ops hooks now e d = (d', r)" "d_state d = ESCALATING" "daemon_inv d"
    "quiet_hooks hooks"
  shows "tick_frame d d'"
proof (cases "e \<le> grace_period (d_config d) \<and> can_abort d")
  case True
  then have "d' = (snd (move ARMED HeartbeatResumed d))\<lparr>d_step_index := 0\<rparr>"
    using assms(1,2)
    by (auto simp: tick_escalating_def Let_def split: prod.splits bool.splits dest!: fst_snd_move)
  then show ?thesis
    using assms(2,3) by (auto simp: tick_frame_def edge_def daemon_inv_def counters_ok_def audited_move)
next
  case False
  show ?thesis
  proof (cases "\<exists>n. steps_due (d_config d) e = Ok n \<and> int (d_step_index d) < n")
    case True
    then obtain n where n: "steps_due (d_config d) e = Ok n" "int (d_step_index d) < n" by blast
    show ?thesis
      using escalating_loop [OF assms False n] assms(2,3) by (auto intro: loop_result_frame)
  next
    case no: False
    then have "d' = d"
      using assms(1) False by (auto simp: tick_escalating_def Let_def split: sum.splits if_splits)
    then show ?thesis by (simp add: tick_frame_def edge_def)
  qed
qed

lemma tick_frames:
  assumes "tick ops hooks d = (d', r)" "daemon_inv d" "quiet_hooks hooks"
  shows "tick_frame d d'"
proof -
  have en: "g_enabled (d_config d)" and i: "daemon_inv (read1 d)"
    using assms(2) by (simp_all add: daemon_inv_def counters_ok_def)
  have unread: "tick_frame (read1 d) x \<Longrightarrow> tick_frame d x" for x
    by (auto simp: tick_frame_def daemon_inv_def counters_ok_def)
  from assms(1) en show ?thesis
  proof (cases rule: tick_cases)
    case armed
    then show ?thesis using unread tick_armed_frame [of "read1 d"] by simp
  next
    case watching
    then show ?thesis using unread tick_watching_frame [of "read1 d"] by simp
  next
    case (escalating r1)
    then show ?thesis using unread tick_escalating_frame [OF escalating(3)] i assms(3) by simp
  next
    case liquidating
    then show ?thesis using unread tick_liquidating_frame [of "read1 d"] by simp
  next
    case dormant
    then show ?thesis using i by (simp add: tick_frame_def edge_def)
  qed
qed

section \<open>Runs\<close>

text \<open>
  What can happen to a daemon: a heartbeat, a disarm attempt, a tick; the clock source and the
  oracle change under it (time passes, orders settle).
\<close>

inductive op_step :: "'o oracle_ops \<Rightarrow> 'o hooks \<Rightarrow> 'o daemon \<Rightarrow> 'o daemon \<Rightarrow> bool"
  for ops :: "'o oracle_ops" and hooks :: "'o hooks" where
  op_beat: "beat signed d = (d', r) \<Longrightarrow> op_step ops hooks d d'"
| op_disarm: "disarm key d = (d', r) \<Longrightarrow> op_step ops hooks d d'"
| op_tick: "tick ops hooks d = (d', r) \<Longrightarrow> op_step ops hooks d d'"
| op_clock: "op_step ops hooks d (d\<lparr>d_clock := c\<rparr>)"
| op_world: "op_step ops hooks d (d\<lparr>d_oracle := u\<rparr>)"

inductive_cases op_stepE: "op_step ops hooks d d'"

inductive reachable :: "'o oracle_ops \<Rightarrow> 'o hooks \<Rightarrow> 'o daemon \<Rightarrow> 'o daemon \<Rightarrow> bool"
  for ops :: "'o oracle_ops" and hooks :: "'o hooks" and d0 :: "'o daemon" where
  reach_refl: "reachable ops hooks d0 d0"
| reach_step: "reachable ops hooks d0 d \<Longrightarrow> op_step ops hooks d d' \<Longrightarrow> reachable ops hooks d0 d'"

lemma beat_frame:
  "beat signed d = (d', r) \<Longrightarrow>
     d_config d' = d_config d \<and> d_state d' = d_state d \<and> (daemon_inv d \<longrightarrow> daemon_inv d')"
  by (auto simp: beat_def Let_def read_clock_def daemon_inv_def counters_ok_def audited_note
      split: if_splits)

lemma disarm_cases:
  assumes "disarm key d = (d', r)"
  obtains (refused) "d' = d" "r = Raise PermissionError" "d_key d \<noteq> Some key"
  | (accepted) m t where "m = snd (move ARMED GovernanceDisarmed d)" "r = Ok ()" "d_key d = Some key"
      "d' = m\<lparr>d_step_index := 0, d_liq_since := None, d_reads := Suc (d_reads m), d_last_beat := Some t\<rparr>"
proof (cases "d_key d = Some key")
  case True
  let ?m = "snd (move ARMED GovernanceDisarmed d)"
  have "d' = ?m\<lparr>d_step_index := 0, d_liq_since := None, d_reads := Suc (d_reads ?m),
      d_last_beat := Some (d_clock ?m (d_reads ?m))\<rparr>" "r = Ok ()"
    using assms True by (auto simp: disarm_def Let_def read_clock_def)
  with True show thesis by (intro accepted) auto
next
  case False
  with assms show thesis by (intro refused) (auto simp: disarm_def split: if_splits)
qed

lemma disarm_frame:
  assumes "disarm key d = (d', r)"
  shows "d_config d' = d_config d \<and> edge (d_state d) (d_state d') \<and> (daemon_inv d \<longrightarrow> daemon_inv d')"
  using assms
proof (cases rule: disarm_cases)
  case refused
  then show ?thesis by (simp add: edge_def)
next
  case (accepted m t)
  have "d_state m = d_state d \<or> d_state m = ARMED \<and> edge (d_state d) ARMED" "d_config m = d_config d"
    using accepted(1) by (simp_all add: edge_def)
  moreover have "audited m" if "audited d" using that accepted(1) by (simp add: audited_move)
  moreover have "d_state d' = d_state m" "d_config d' = d_config m" "d_step_index d' = 0"
    "d_liq_since d' = None" "audited d' = audited m"
    using accepted(4) by (simp_all add: audited_def)
  ultimately show ?thesis by (auto simp: edge_def daemon_inv_def counters_ok_def)
qed

lemma op_step_frame:
  assumes "op_step ops hooks d d'" "daemon_inv d" "quiet_hooks hooks"
  shows "d_config d' = d_config d \<and> edge (d_state d) (d_state d') \<and> daemon_inv d'"
  using assms(1)
proof cases
  case (op_tick r)
  then show ?thesis using tick_frames [OF _ assms(2,3)] assms(2) by (simp add: tick_frame_def)
next
  case (op_clock c)
  then show ?thesis using assms(2) by (simp add: edge_def daemon_inv_def counters_ok_def)
next
  case (op_world u)
  then show ?thesis using assms(2) by (simp add: edge_def daemon_inv_def counters_ok_def)
qed (use assms(2) in \<open>auto dest: beat_frame disarm_frame simp: edge_def\<close>)

lemma reachable_inv:
  assumes "reachable ops hooks d0 d" "daemon_inv d0" "quiet_hooks hooks"
  shows "d_config d = d_config d0 \<and> daemon_inv d"
  using assms by induction (auto dest: op_step_frame)

lemma daemon_inv_init:
  "config_ok cfg \<Longrightarrow> g_enabled cfg \<Longrightarrow> daemon_inv (init_daemon cfg ora key clk)"
  using audited_init [of cfg ora key clk] by (simp add: daemon_inv_def counters_ok_def init_daemon_def)

section \<open>Progress without heartbeats\<close>

definition tick_at :: "'o oracle_ops \<Rightarrow> 'o hooks \<Rightarrow> pyfloat \<Rightarrow> 'o daemon \<Rightarrow> 'o daemon" where
  "tick_at ops hooks t d = fst (tick ops hooks (d\<lparr>d_clock := \<lambda>_. t\<rparr>))"

text \<open>At \<open>t\<close> the grace and escalation periods since \<open>t0\<close> are over and the whole plan is due.\<close>

definition long_silent :: "dead_man_config \<Rightarrow> pyfloat \<Rightarrow> pyfloat \<Rightarrow> bool" where
  "long_silent cfg t0 t \<longleftrightarrow>
     grace_period cfg < t - t0 \<and> grace_period cfg + escalation_period cfg < t - t0 \<and>
     (case steps_due cfg (t - t0) of Inl _ \<Rightarrow> False | Inr n \<Rightarrow> int (length (g_plan cfg)) \<le> n)"

definition fired :: "pyfloat set \<Rightarrow> 'o daemon \<Rightarrow> bool" where
  "fired ts d \<longleftrightarrow> d_state d = DORMANT \<or> d_state d = LIQUIDATING \<and>
     (case d_liq_since d of None \<Rightarrow> True | Some t \<Rightarrow> t \<in> ts)"

definition silent_since :: "dead_man_config \<Rightarrow> pyfloat \<Rightarrow> 'o daemon \<Rightarrow> bool" where
  "silent_since cfg t0 d \<longleftrightarrow> d_config d = cfg \<and> d_last_beat d = Some t0 \<and> daemon_inv d"

lemma tick_at_frame:
  assumes "silent_since cfg t0 d" "quiet_hooks hooks"
  shows "silent_since cfg t0 (tick_at ops hooks t d) \<and> edge (d_state d) (d_state (tick_at ops hooks t d))"
proof -
  obtain d' r where t: "tick ops hooks (d\<lparr>d_clock := \<lambda>_. t\<rparr>) = (d', r)" by fastforce
  have "daemon_inv (d\<lparr>d_clock := \<lambda>_. t\<rparr>)"
    using assms(1) by (auto simp: silent_since_def daemon_inv_def counters_ok_def)
  with tick_frames [OF t _ assms(2)] have "tick_frame (d\<lparr>d_clock := \<lambda>_. t\<rparr>) d'"
    "daemon_inv (d\<lparr>d_clock := \<lambda>_. t\<rparr>)" by blast+
  then show ?thesis
    using assms(1) t by (auto simp: silent_since_def tick_at_def tick_frame_def)
qed

lemma tick_at_armed:
  assumes "silent_since cfg t0 d" "long_silent cfg t0 t" "d_state d = ARMED"
  shows "d_state (tick_at ops hooks t d) = WATCHING"
  using assms
  by (auto simp: tick_at_def tick_def read_clock_def tick_armed_def silent_since_def daemon_inv_def
      long_silent_def Let_def)

lemma tick_at_watching:
  assumes "silent_since cfg t0 d" "long_silent cfg t0 t" "d_state d = WATCHING"
  shows "d_state (tick_at ops hooks t d) = ESCALATING"
  using assms float_less_asym [of "grace_period cfg" "t - t0"]
  by (auto simp: tick_at_def tick_def read_clock_def tick_watching_def silent_since_def daemon_inv_def
      long_silent_def Let_def)

lemma tick_at_escalating:
  assumes d: "silent_since cfg t0 d" "long_silent cfg t0 t" "d_state d = ESCALATING" "quiet_hooks hooks"
    and "g_plan cfg \<noteq> []"
  shows "fired {t} (tick_at ops hooks t d)"
proof -
  let ?d = "d\<lparr>d_clock := \<lambda>_. t, d_reads := Suc (d_reads d)\<rparr>"
  obtain n where n: "steps_due cfg (t - t0) = Ok n" "int (length (g_plan cfg)) \<le> n"
    using d(2) by (auto simp: long_silent_def split: sum.splits)
  have inv: "daemon_inv ?d" "d_config ?d = cfg" "d_state ?d = ESCALATING"
    using d(1,3) by (auto simp: silent_since_def daemon_inv_def counters_ok_def)
  have late: "\<not> t - t0 \<le> grace_period cfg"
    using d(2) float_less_asym by (auto simp: long_silent_def)
  have idx: "d_step_index d < length (g_plan cfg)"
    using d(1,3) assms(5) by (auto simp: silent_since_def daemon_inv_def counters_ok_def)
  obtain d' r where e: "tick_escalating ops hooks t (t - t0) ?d = (d', r)" by fastforce
  have min: "nat (min n (int (length (g_plan cfg)))) = length (g_plan cfg)" using n(2) by simp
  have "loop_result t (g_plan cfg) (d_step_index d) (length (g_plan cfg)) ?d d'"
    using escalating_loop [OF e inv(3,1) d(4), of n] late n idx inv(2) min by simp
  then have "d_state d' = LIQUIDATING" "d_liq_since d' \<in> {d_liq_since d, Some t}"
    using idx by (auto simp: loop_result_def)
  moreover have "d_liq_since d = None" using d(1,3) by (simp add: silent_since_def daemon_inv_def counters_ok_def)
  moreover have "tick_at ops hooks t d = d'"
    using e d(1,3) by (auto simp: tick_at_def tick_def read_clock_def silent_since_def daemon_inv_def split: prod.splits)
  ultimately show ?thesis by (auto simp: fired_def)
qed

lemma pending_updates [simp]:
  "pending ops (d\<lparr>d_liq_since := l\<rparr>) = pending ops d" "pending ops (d\<lparr>d_reads := n\<rparr>) = pending ops d"
  "pending ops (d\<lparr>d_clock := c\<rparr>) = pending ops d"
  by (simp_all add: pending_def)

lemma tick_liquidating_fields:
  "d_liq_since (tick_liquidating ops now d) = Some (case d_liq_since d of None \<Rightarrow> now | Some t \<Rightarrow> t)"
  "d_state d = LIQUIDATING \<Longrightarrow> d_state (tick_liquidating ops now d) =
     (if pending ops d \<and> \<not> liquidation_grace (d_config d) < now - (case d_liq_since d of None \<Rightarrow> now | Some t \<Rightarrow> t)
      then LIQUIDATING else DORMANT)"
  by (simp_all add: tick_liquidating_def Let_def)

lemma tick_at_liquidating:
  assumes "g_enabled (d_config d)" "d_state d = LIQUIDATING"
  shows "tick_at ops hooks t d = tick_liquidating ops t (d\<lparr>d_clock := \<lambda>_. t, d_reads := Suc (d_reads d)\<rparr>)"
  using assms by (simp add: tick_at_def tick_def read_clock_def)

lemma tick_at_dormant: "g_enabled (d_config d) \<Longrightarrow> d_state d = DORMANT \<Longrightarrow> d_state (tick_at ops hooks t d) = DORMANT"
  by (simp add: tick_at_def tick_def read_clock_def)

text \<open>
  A tick in \<open>LIQUIDATING\<close> fixes the start of the liquidation if it is not known yet, and
  ends in \<open>DORMANT\<close> once the grace since then is over.
\<close>

lemma tick_at_fired:
  assumes "silent_since cfg t0 d" "fired ts d"
  shows "fired (insert t ts) (tick_at ops hooks t d)"
    "d_state (tick_at ops hooks t d) = LIQUIDATING \<longrightarrow> d_liq_since (tick_at ops hooks t d) \<noteq> None"
    "d_state d = LIQUIDATING \<Longrightarrow> d_liq_since d \<noteq> None \<Longrightarrow>
      (\<And>s. s \<in> ts \<Longrightarrow> liquidation_grace cfg < t - s) \<Longrightarrow> d_state (tick_at ops hooks t d) = DORMANT"
proof -
  have en: "g_enabled (d_config d)" and cfg: "d_config d = cfg"
    using assms(1) by (auto simp: silent_since_def daemon_inv_def)
  consider "d_state d = DORMANT" | "d_state d = LIQUIDATING" using assms(2) by (auto simp: fired_def)
  then have "fired (insert t ts) (tick_at ops hooks t d) \<and>
    (d_state (tick_at ops hooks t d) = LIQUIDATING \<longrightarrow> d_liq_since (tick_at ops hooks t d) \<noteq> None) \<and>
    (d_state d = LIQUIDATING \<and> d_liq_since d \<noteq> None \<and> (\<forall>s \<in> ts. liquidation_grace cfg < t - s) \<longrightarrow>
      d_state (tick_at ops hooks t d) = DORMANT)"
  proof cases
    case 1
    then show ?thesis using tick_at_dormant [OF en] by (simp add: fired_def)
  next
    case 2
    then show ?thesis
      using assms(2) cfg by (cases "d_liq_since d")
        (auto simp: tick_at_liquidating [OF en 2] tick_liquidating_fields fired_def)
  qed
  then show "fired (insert t ts) (tick_at ops hooks t d)"
    "d_state (tick_at ops hooks t d) = LIQUIDATING \<longrightarrow> d_liq_since (tick_at ops hooks t d) \<noteq> None"
    "d_state d = LIQUIDATING \<Longrightarrow> d_liq_since d \<noteq> None \<Longrightarrow>
      (\<And>s. s \<in> ts \<Longrightarrow> liquidation_grace cfg < t - s) \<Longrightarrow> d_state (tick_at ops hooks t d) = DORMANT"
    by auto
qed

lemma silent_progress:
  assumes d: "silent_since cfg t0 d" "long_silent cfg t0 t" "quiet_hooks hooks" "g_plan cfg \<noteq> []"
    and "d_state d \<in> {ARMED, WATCHING, ESCALATING}"
  shows "fired {t} (tick_at ops hooks t (tick_at ops hooks t (tick_at ops hooks t d)))"
proof -
  let ?k = "tick_at ops hooks t"
  have f: "silent_since cfg t0 x \<Longrightarrow> silent_since cfg t0 (?k x)" for x
    using tick_at_frame d(3) by blast
  have go: "fired {t} x \<Longrightarrow> silent_since cfg t0 x \<Longrightarrow> fired {t} (?k x)" for x
    using tick_at_fired(1) [of cfg t0 x "{t}" t ops hooks] by simp
  have esc: "fired {t} (?k x)" if "silent_since cfg t0 x" "d_state x = ESCALATING" for x
    using that d by (intro tick_at_escalating)
  have watch: "fired {t} (?k (?k x))" if "silent_since cfg t0 x" "d_state x = WATCHING" for x
    using that d(2) by (intro esc f tick_at_watching)
  have arm: "fired {t} (?k (?k (?k x)))" if "silent_since cfg t0 x" "d_state x = ARMED" for x
    using that d(2) by (intro watch f tick_at_armed)
  from assms(5) consider "d_state d = ARMED" | "d_state d = WATCHING" | "d_state d = ESCALATING" by auto
  then show ?thesis using d(1) by cases (simp_all add: arm watch esc go f)
qed

lemma escalating_step:
  assumes "daemon_inv d" "quiet_hooks hooks" "d_state d = ESCALATING" "tick ops hooks d = (d', r)"
    "d_state d' \<noteq> ARMED"
  shows "d_step_index d \<le> d_step_index d' \<and>
    (\<exists>es. appends d es d' \<and> executed es =
      map s_step (take (d_step_index d' - d_step_index d) (drop (d_step_index d) (g_plan (d_config d)))))"
proof -
  let ?d = "read1 d" and ?e = "silence d"
  have inv: "daemon_inv ?d" using assms(1) by (simp add: daemon_inv_def counters_ok_def)
  have len: "length (d_journal d) \<le> g_max_journal (d_config d)"
    using assms(1) by (simp add: daemon_inv_def audited_def)
  from assms(4) have "g_enabled (d_config d) \<Longrightarrow> \<exists>r1. tick_escalating ops hooks (d_clock d (d_reads d)) ?e ?d = (d', r1)"
    by (elim tick_cases) (use assms(3) in auto)
  then obtain r1 where t: "tick_escalating ops hooks (d_clock d (d_reads d)) ?e ?d = (d', r1)"
    using assms(1) by (auto simp: daemon_inv_def)
  have na: "\<not> (?e \<le> grace_period (d_config ?d) \<and> can_abort ?d)"
    using t assms(3,5)
    by (auto simp: tick_escalating_def Let_def split: prod.splits bool.splits dest!: fst_snd_move)
  show ?thesis
  proof (cases "\<exists>n. steps_due (d_config ?d) ?e = Ok n \<and> int (d_step_index ?d) < n")
    case True
    then obtain n where n: "steps_due (d_config ?d) ?e = Ok n" "int (d_step_index ?d) < n" by blast
    show ?thesis
      using escalating_loop [OF t _ inv assms(2) na n] assms(3)
      by (auto simp: loop_result_def appends_def)
  next
    case False
    then have "d' = ?d"
      using t na by (auto simp: tick_escalating_def Let_def split: sum.splits if_splits)
    then show ?thesis using len by (auto simp: appends_def lastn_all intro!: exI [of _ "[]"])
  qed
qed

lemma dormant_run:
  assumes "reachable ops hooks d d'" "daemon_inv d" "quiet_hooks hooks" "d_state d = DORMANT"
  shows "d_state d' = DORMANT"
  using assms(1)
proof induction
  case (reach_step d1 d2)
  then show ?case
    using reachable_inv [OF reach_step(1) assms(2,3)] op_step_frame [OF reach_step(2) _ assms(3)]
    by (auto simp: edge_def)
qed (rule assms(4))

lemma reachable_tick_at: "reachable ops hooks d0 d \<Longrightarrow> reachable ops hooks d0 (tick_at ops hooks t d)"
  unfolding tick_at_def
  by (cases "tick ops hooks (d\<lparr>d_clock := \<lambda>_. t\<rparr>)") (auto intro: reach_step op_clock op_tick)

lemma reachable_beat: "reachable ops hooks d0 d \<Longrightarrow> reachable ops hooks d0 (fst (beat signed d))"
  by (cases "beat signed d") (auto intro: reach_step op_beat)

lemma no_liquidation:
  assumes "daemon_inv d" "quiet_hooks hooks" "d_state d = ESCALATING" "tick ops hooks d = (d', r)"
    "g_plan (d_config d) = []"
  shows "d_state d' \<noteq> LIQUIDATING"
proof
  assume liq: "d_state d' = LIQUIDATING"
  have idx: "d_step_index d = 0" using assms(1,5) by (simp add: daemon_inv_def counters_ok_def)
  have "daemon_inv d'" "d_config d' = d_config d"
    using tick_frames [OF assms(4,1,2)] assms(1) by (simp_all add: tick_frame_def)
  from assms(4) have "g_enabled (d_config d) \<Longrightarrow>
      \<exists>r1. tick_escalating ops hooks (d_clock d (d_reads d)) (silence d) (read1 d) = (d', r1)"
    by (elim tick_cases) (use assms(3) in auto)
  then show False
    using assms(1,3,5) liq idx
    by (auto simp: daemon_inv_def tick_escalating_def Let_def split: if_splits prod.splits bool.splits
        sum.splits dest!: fst_snd_move)
qed

section \<open>Properties\<close>

text \<open>A daemon for the witnesses: a heartbeat at time 0, interval 1, the default plan.\<close>

definition plain_hash :: quote_hash where "plain_hash = (\<lambda>_ _ _ _. ''ref'')"

definition sample_ops :: "sim_oracle oracle_ops" where "sample_ops = sim_ops plain_hash"

definition sample_cfg :: dead_man_config where
  "sample_cfg = (default_config 1)\<lparr>g_max_journal := 16\<rparr>"

lemma sample_config: "config_ok sample_cfg" "g_enabled sample_cfg"
  by (simp_all add: sample_cfg_def config_ok_def default_config_def default_plan_def plain_step_def
      step_ok_def zero_pyfloat_def one_pyfloat_def)

definition sample_daemon :: "sim_oracle daemon" where
  "sample_daemon = init_daemon sample_cfg (new_sim_oracle 0) (Some ''key'') (\<lambda>_. 0)"

definition sample_beaten :: "sim_oracle daemon" where
  "sample_beaten = fst (beat False sample_daemon)"

definition sample_escalating :: "sim_oracle daemon" where
  "sample_escalating = tick_at sample_ops no_hooks (Fin 10) (tick_at sample_ops no_hooks (Fin 4) sample_beaten)"

lemma sample_reachable:
  "reachable sample_ops no_hooks sample_daemon sample_beaten"
  "reachable sample_ops no_hooks sample_daemon sample_escalating"
  by (auto simp: sample_beaten_def sample_escalating_def intro!: reachable_tick_at reachable_beat reach_refl)

lemma sample_state: "d_state sample_escalating = ESCALATING"
  by code_simp

text \<open>
  C2: In every reachable state the journal is a faithful audit trail: at most
  \<open>max_journal_entries\<close> entries, each a note or an edge of the transition table, consecutive
  entries linked, the last one ending in the current state. Every operation moves along the
  table only, whatever hooks and oracle do (hooks that leave the state machine alone).
\<close>

theorem dead_man_audit_trail:
  assumes "config_ok cfg" "g_enabled cfg" "quiet_hooks hooks"
    and "reachable ops hooks (init_daemon cfg ora key clk) d"
  shows "audited d \<and> (\<forall>d'. op_step ops hooks d d' \<longrightarrow> edge (d_state d) (d_state d'))"
  using reachable_inv [OF assms(4) daemon_inv_init [OF assms(1,2)] assms(3)] op_step_frame [OF _ _ assms(3)]
  by (auto simp: daemon_inv_def)

theorem dead_man_audit_trail_witness: "audited sample_escalating \<and> d_state sample_escalating = ESCALATING"
  using dead_man_audit_trail [OF sample_config quiet_no_hooks sample_reachable(2) [unfolded sample_daemon_def]]
    sample_state
  by blast

text \<open>
  C4: While the daemon escalates, a tick that does not abort executes exactly the next steps of
  the plan, in plan order, none skipped and none twice, and journals each: the \<open>Execute\<close>
  entries it appends are the steps between the old and the new step index.
\<close>

theorem plan_runs_in_order:
  assumes "config_ok cfg" "g_enabled cfg" "quiet_hooks hooks"
    and "reachable ops hooks (init_daemon cfg ora key clk) d" "d_state d = ESCALATING"
    and "tick ops hooks d = (d', r)" "d_state d' \<noteq> ARMED"
  shows "d_step_index d \<le> d_step_index d' \<and>
    (\<exists>es. appends d es d' \<and> executed es =
      map s_step (take (d_step_index d' - d_step_index d) (drop (d_step_index d) (g_plan cfg))))"
  using reachable_inv [OF assms(4) daemon_inv_init [OF assms(1,2)] assms(3)]
    escalating_step [OF _ assms(3,5,6,7)]
  by (auto simp: init_daemon_def)

theorem plan_runs_in_order_witness:
  "\<exists>d' es. d' = tick_at sample_ops no_hooks (Fin 15) sample_escalating \<and>
     appends sample_escalating es d' \<and> executed es = [NOTIFY, HALT_PLACEMENTS]"
proof -
  let ?d = "sample_escalating\<lparr>d_clock := \<lambda>_. Fin 15\<rparr>"
  obtain d' r where t: "tick sample_ops no_hooks ?d = (d', r)" by fastforce
  have d': "d' = tick_at sample_ops no_hooks (Fin 15) sample_escalating" using t by (simp add: tick_at_def)
  have "reachable sample_ops no_hooks sample_daemon ?d"
    using sample_reachable(2) op_clock by (rule reach_step)
  moreover have s: "d_state d' = ESCALATING \<and> d_step_index d' = 2 \<and> d_step_index ?d = 0"
    unfolding d' by code_simp
  ultimately have "\<exists>es. appends ?d es d' \<and> executed es =
      map s_step (take (d_step_index d' - d_step_index ?d) (drop (d_step_index ?d) (g_plan sample_cfg)))"
    using plan_runs_in_order [OF sample_config quiet_no_hooks _ _ t] sample_state
    by (simp add: sample_daemon_def)
  moreover have "map s_step (take (2 - 0) (drop 0 (g_plan sample_cfg))) = [NOTIFY, HALT_PLACEMENTS]"
    by code_simp
  ultimately show ?thesis using s d' by (auto simp: appends_def)
qed

text \<open>
  C12: \<open>DORMANT\<close> is final: once the liquidation is sealed no heartbeat, tick, disarm attempt or
  change of the world brings the daemon back.
\<close>

theorem dormant_is_final:
  assumes "config_ok cfg" "g_enabled cfg" "quiet_hooks hooks"
    and "reachable ops hooks (init_daemon cfg ora key clk) d" "d_state d = DORMANT"
    and "reachable ops hooks d d'"
  shows "d_state d' = DORMANT"
  using reachable_inv [OF assms(4) daemon_inv_init [OF assms(1,2)] assms(3)]
    dormant_run [OF assms(6) _ assms(3,5)]
  by blast

definition sample_dormant :: "sim_oracle daemon" where
  "sample_dormant = tick_at sample_ops no_hooks (Fin 200) (tick_at sample_ops no_hooks (Fin 99) sample_escalating)"

theorem dormant_is_final_witness:
  "d_state sample_dormant = DORMANT \<and> d_state (fst (disarm ''key'' sample_dormant)) = DORMANT"
proof -
  have s: "d_state sample_dormant = DORMANT" by code_simp
  have "reachable sample_ops no_hooks sample_daemon sample_dormant"
    unfolding sample_dormant_def by (intro reachable_tick_at sample_reachable)
  moreover have "reachable sample_ops no_hooks sample_dormant (fst (disarm ''key'' sample_dormant))"
    by (cases "disarm ''key'' sample_dormant") (auto intro: reach_step reach_refl op_disarm)
  ultimately show ?thesis
    using dormant_is_final [OF sample_config quiet_no_hooks _ s] s by (simp add: sample_daemon_def)
qed

text \<open>
  C3: No false alarm, and no alarm without a first heartbeat: the daemon leaves \<open>ARMED\<close> only
  in a tick that finds a recorded heartbeat older than the grace period, and arms the plan only
  when it is older than grace and escalation period together. Before the first heartbeat it
  stays \<open>ARMED\<close> for ever.
\<close>

theorem alarm_needs_silence:
  assumes "op_step ops hooks d d'" "config_ok (d_config d)" "g_enabled (d_config d)"
  shows "(d_state d = ARMED \<and> d_state d' \<noteq> ARMED \<longrightarrow>
      (\<exists>t0. d_last_beat d = Some t0 \<and> grace_period (d_config d) < d_clock d (d_reads d) - t0)) \<and>
    (d_state d = WATCHING \<and> d_state d' = ESCALATING \<longrightarrow>
      (\<exists>t0. d_last_beat d = Some t0 \<and>
        grace_period (d_config d) + escalation_period (d_config d) < d_clock d (d_reads d) - t0))"
  using assms(1)
proof cases
  case (op_tick r)
  have n: "0 \<le> grace_period (d_config d)" "0 \<le> grace_period (d_config d) + escalation_period (d_config d)"
    using grace_period_nonneg [OF assms(2)] escalation_period_nonneg [OF assms(2)]
    by (auto intro: plus_nonneg)
  show ?thesis
    using op_tick assms(3)
  proof (cases rule: tick_cases)
    case armed
    then show ?thesis using diff_self_not_above [OF n(1)]
      by (auto simp: tick_armed_def silence_def split: option.splits if_splits)
  next
    case watching
    then show ?thesis using diff_self_not_above [OF n(2)]
      by (auto simp: tick_watching_def silence_def Let_def split: option.splits if_splits prod.splits bool.splits
          dest!: fst_snd_move)
  qed simp_all
next
  case (op_disarm key r)
  then show ?thesis by (auto elim!: disarm_cases)
next
  case (op_beat s r)
  then show ?thesis using beat_frame [OF op_beat] by auto
qed auto

definition sample_overdue :: "sim_oracle daemon" where
  "sample_overdue = sample_beaten\<lparr>d_clock := \<lambda>_. Fin 4\<rparr>"

theorem alarm_needs_silence_witness:
  "d_state (fst (tick sample_ops no_hooks sample_overdue)) = WATCHING \<and>
   (\<exists>t0. d_last_beat sample_overdue = Some t0 \<and>
      grace_period sample_cfg < d_clock sample_overdue (d_reads sample_overdue) - t0)"
proof -
  have s: "d_state sample_overdue = ARMED" "d_state (fst (tick sample_ops no_hooks sample_overdue)) = WATCHING"
    by code_simp+
  have c: "d_config sample_overdue = sample_cfg"
    by (simp add: sample_overdue_def sample_beaten_def beat_def read_clock_def sample_daemon_def init_daemon_def Let_def)
  obtain d' r where t: "tick sample_ops no_hooks sample_overdue = (d', r)" by fastforce
  from alarm_needs_silence [OF op_tick [OF t]] s c sample_config t show ?thesis by simp
qed

text \<open>
  C1: The dead-man switch fires: with a non-empty plan, a daemon that has not begun to
  liquidate and whose heartbeats stopped at \<open>t0\<close> is \<open>DORMANT\<close> after three ticks at a time when
  the whole plan is due and two later ticks a liquidation grace apart, whatever steps fail, whatever
  the oracle answers and whether or not the orders ever settle.
\<close>

theorem dead_man_fires:
  assumes "config_ok cfg" "g_enabled cfg" "quiet_hooks hooks" "g_plan cfg \<noteq> []"
    and "reachable ops hooks (init_daemon cfg ora key clk) d"
    and "d_state d \<in> {ARMED, WATCHING, ESCALATING}" "d_last_beat d = Some t0" "long_silent cfg t0 t"
    and "liquidation_grace cfg < t2 - t" "liquidation_grace cfg < t2 - t1"
  shows "d_state (tick_at ops hooks t2 (tick_at ops hooks t1
    (tick_at ops hooks t (tick_at ops hooks t (tick_at ops hooks t d))))) = DORMANT"
proof -
  let ?d = "tick_at ops hooks t (tick_at ops hooks t (tick_at ops hooks t d))"
  have "silent_since cfg t0 d"
    using reachable_inv [OF assms(5) daemon_inv_init [OF assms(1,2)] assms(3)] assms(7)
    by (simp add: silent_since_def init_daemon_def)
  moreover have keep: "silent_since cfg t0 (tick_at ops hooks t x)" if "silent_since cfg t0 x" for x
    using tick_at_frame [OF that assms(3)] by blast
  ultimately have f: "fired {t} ?d" and s: "silent_since cfg t0 ?d"
    using silent_progress assms(3,4,6,8) by (blast, intro keep)
  let ?e = "tick_at ops hooks t1 ?d"
  have s1: "silent_since cfg t0 ?e" using tick_at_frame [OF s assms(3)] by blast
  have f1: "fired {t1, t} ?e" "d_state ?e = LIQUIDATING \<longrightarrow> d_liq_since ?e \<noteq> None"
    using tick_at_fired(1,2) [OF s f] by blast+
  show ?thesis
  proof (cases "d_state ?e = DORMANT")
    case True
    then show ?thesis using s1 by (auto intro!: tick_at_dormant simp: silent_since_def daemon_inv_def)
  next
    case False
    then have "d_state ?e = LIQUIDATING" using f1(1) by (auto simp: fired_def)
    then show ?thesis using tick_at_fired(3) [OF s1 f1(1)] f1(2) assms(9,10) by auto
  qed
qed

theorem dead_man_fires_witness:
  "d_state (tick_at sample_ops no_hooks (Fin 200) (tick_at sample_ops no_hooks (Fin 100)
    (tick_at sample_ops no_hooks (Fin 99) (tick_at sample_ops no_hooks (Fin 99)
      (tick_at sample_ops no_hooks (Fin 99) sample_beaten))))) = DORMANT"
proof -
  have "d_state sample_beaten = ARMED" "d_last_beat sample_beaten = Some (Fin 0)" "g_plan sample_cfg \<noteq> []"
    "long_silent sample_cfg (Fin 0) (Fin 99)" "liquidation_grace sample_cfg < Fin 200 - Fin 99"
    "liquidation_grace sample_cfg < Fin 200 - Fin 100"
    by code_simp+
  then show ?thesis
    using dead_man_fires [OF sample_config quiet_no_hooks _ sample_reachable(1) [unfolded sample_daemon_def]]
    by blast
qed


definition failing_cfg :: dead_man_config where
  "failing_cfg = sample_cfg\<lparr>g_plan := [plain_step ACQUIRE_ASSETS, plain_step SEAL]\<rparr>"

definition failing_daemon :: "sim_oracle daemon" where
  "failing_daemon = (tick_at sample_ops no_hooks (Fin 10) (tick_at sample_ops no_hooks (Fin 4)
     (fst (beat False (init_daemon failing_cfg (new_sim_oracle 0) None (\<lambda>_. 0))))))\<lparr>d_clock := \<lambda>_. Fin 15\<rparr>"


text \<open>
  C14: Only the governance key disarms: with any other key, or with none configured, \<open>disarm\<close>
  raises and changes nothing; with the key it stands the daemon down from \<open>WATCHING\<close> and
  \<open>ESCALATING\<close>, and never out of \<open>LIQUIDATING\<close> or \<open>DORMANT\<close>, though it resets the plan's
  counters there too.
\<close>

theorem disarm_needs_key:
  "if d_key d = Some key
   then snd (disarm key d) = Ok () \<and>
     d_state (fst (disarm key d)) = (if d_state d \<in> {LIQUIDATING, DORMANT} then d_state d else ARMED) \<and>
     d_step_index (fst (disarm key d)) = 0 \<and> d_liq_since (fst (disarm key d)) = None
   else disarm key d = (d, Raise PermissionError)"
proof -
  obtain d' r where "disarm key d = (d', r)" by fastforce
  then show ?thesis by (elim disarm_cases; cases "d_state d") simp_all
qed

text \<open>
  An empty plan is never carried out: a daemon configured without steps may escalate, but
  it never liquidates and never becomes dormant.
\<close>

theorem empty_plan_never_liquidates:
  assumes "config_ok cfg" "g_enabled cfg" "quiet_hooks hooks" "g_plan cfg = []"
    and "reachable ops hooks (init_daemon cfg ora key clk) d"
  shows "d_state d \<in> {ARMED, WATCHING, ESCALATING}"
  using assms(5)
proof induction
  case (reach_step d d')
  have inv: "daemon_inv d" "d_config d = cfg"
    using reachable_inv [OF reach_step(1) daemon_inv_init [OF assms(1,2)] assms(3)] by (simp_all add: init_daemon_def)
  show ?case
  proof (rule ccontr)
    assume bad: "d_state d' \<notin> {ARMED, WATCHING, ESCALATING}"
    with op_step_frame [OF reach_step(2) inv(1) assms(3)] reach_step(3)
    have esc: "d_state d = ESCALATING" "d_state d' = LIQUIDATING" by (auto simp: edge_def)
    from reach_step(2) show False
    proof cases
      case (op_tick r)
      then show False using no_liquidation [OF inv(1) assms(3) esc(1) op_tick] esc inv(2) assms(4) by simp
    qed (use esc in \<open>auto dest: beat_frame elim!: disarm_cases\<close>)
  qed
qed (simp add: init_daemon_def)

definition empty_daemon :: "sim_oracle daemon" where
  "empty_daemon = fst (beat False (init_daemon (sample_cfg\<lparr>g_plan := []\<rparr>) (new_sim_oracle 0) None (\<lambda>_. 0)))"

theorem empty_plan_never_liquidates_witness:
  "d_state (tick_at sample_ops no_hooks (Fin 999) (tick_at sample_ops no_hooks (Fin 99)
     (tick_at sample_ops no_hooks (Fin 99) empty_daemon))) \<in> {ARMED, WATCHING, ESCALATING}"
proof -
  have "config_ok (sample_cfg\<lparr>g_plan := []\<rparr>)" "g_enabled (sample_cfg\<lparr>g_plan := []\<rparr>)"
    using sample_config by (simp_all add: config_ok_def)
  then show ?thesis
    unfolding empty_daemon_def
    by (rule empty_plan_never_liquidates [OF _ _ quiet_no_hooks _ reachable_tick_at [OF reachable_tick_at
        [OF reachable_tick_at [OF reachable_beat [OF reach_refl]]]]]) simp
qed

text \<open>
  Switching escalation off disarms outside the table: a tick then forces any state, even
  \<open>DORMANT\<close>, back to \<open>ARMED\<close> and leaves no journal entry.
\<close>

theorem disabled_forces_armed:
  assumes "\<not> g_enabled (d_config d)"
  shows "snd (tick ops hooks d) = Ok ARMED \<and> d_state (fst (tick ops hooks d)) = ARMED \<and>
    d_journal (fst (tick ops hooks d)) = d_journal d"
  using assms by (simp add: tick_def read_clock_def)

theorem disabled_forces_armed_witness:
  "d_state (sample_dormant\<lparr>d_config := sample_cfg\<lparr>g_enabled := False\<rparr>\<rparr>) = DORMANT \<and>
   d_state (fst (tick sample_ops no_hooks (sample_dormant\<lparr>d_config := sample_cfg\<lparr>g_enabled := False\<rparr>\<rparr>))) = ARMED"
proof -
  have "d_state (sample_dormant\<lparr>d_config := sample_cfg\<lparr>g_enabled := False\<rparr>\<rparr>) = DORMANT" by code_simp
  then show ?thesis
    using disabled_forces_armed [of "sample_dormant\<lparr>d_config := sample_cfg\<lparr>g_enabled := False\<rparr>\<rparr>"] by simp
qed

text \<open>
  Asset conversion is never a blind order: with the simulation oracle a successful
  \<open>ACQUIRE_ASSETS\<close> step records exactly one new order, for one unit of \<open>PORTFOLIO\<close> into the
  step's asset, \<open>SUBMITTED\<close>, found by the oracle under its id, and leaves every earlier order
  alone; a failed one records no order.
\<close>

theorem acquire_records_one_order:
  assumes "acquire_assets (sim_ops ref_of) s d = (d', r)"
  shows "case r of
      Inl e \<Rightarrow> d_orders d' = d_orders d \<and> d_journal d' = d_journal d
    | Inr _ \<Rightarrow> (\<exists>x. d_orders d' = d_orders d @ [x] \<and> x \<notin> sim_live (d_oracle d) \<and>
        co_status (so_heap (d_oracle d') ! x) = SUBMITTED \<and>
        co_asset_in (so_heap (d_oracle d') ! x) = ''PORTFOLIO'' \<and>
        s_asset_out s = Some (co_asset_out (so_heap (d_oracle d') ! x)) \<and>
        co_quantity_in (so_heap (d_oracle d') ! x) = 1 \<and>
        sim_status (co_id (so_heap (d_oracle d') ! x)) (d_oracle d') = Ok x \<and>
        (\<forall>y \<in> sim_live (d_oracle d). so_heap (d_oracle d') ! y = so_heap (d_oracle d) ! y))"
proof -
  obtain q ora where c: "convert (sim_ops ref_of) ''PORTFOLIO'' (s_asset_out s) 1 (d_oracle d) = (q, ora)"
    by fastforce
  show ?thesis
  proof (cases q)
    case (Inl e)
    then show ?thesis using assms c by (auto simp: acquire_assets_def)
  next
    case (Inr x)
    have o: "oo_order (sim_ops ref_of) = (\<lambda>x s. so_heap s ! x)" "oo_status (sim_ops ref_of) = sim_status"
      by (simp_all add: sim_ops_def)
    have d': "d_orders d' = d_orders d @ [x]" "d_oracle d' = ora" "r = Ok ()"
      using assms c Inr by (auto simp: acquire_assets_def)
    show ?thesis
      using sim.convert_order [OF c [unfolded Inr]] sim.convert_frame(2) [OF c] d' by (auto simp: o)
  qed
qed

theorem acquire_records_one_order_witness:
  "d_orders (fst (acquire_assets sample_ops (default_plan ! 3) sample_daemon)) = [0]"
proof -
  obtain d' r where a: "acquire_assets (sim_ops plain_hash) (default_plan ! 3) sample_daemon = (d', r)" by fastforce
  have "is_ok (snd (acquire_assets sample_ops (default_plan ! 3) sample_daemon))"
    "d_orders sample_daemon = []" "d_orders (fst (acquire_assets sample_ops (default_plan ! 3) sample_daemon)) ! 0 = 0"
    by code_simp+
  then show ?thesis
    using acquire_records_one_order [OF a] a by (cases r) (auto simp: sample_ops_def)
qed

end
