(* ===== verification/DoomsdayCli.thy ===== *)
theory DoomsdayCli
  imports DeadMan
begin

text \<open>
  The command-line front end of the dead-man switch (\<open>doomsday/doomsday/cli.py\<close>): the
  end-to-end self test, and what \<open>--disarm\<close> does. \<open>t_beat\<close> and \<open>t0\<close> are the two readings of
  \<open>time.monotonic\<close> around the first heartbeat; printed output is not modelled.
\<close>

definition assert_that :: "bool \<Rightarrow> unit result" where
  "assert_that b = (if b then Ok () else Raise AssertionError)"

definition self_test_config :: dead_man_config where
  "self_test_config = (default_config 1)\<lparr>g_escalation_mult := 1\<rparr>"

text \<open>Replace the clock and tick, as \<open>daemon.clock = lambda: t; state = daemon.tick()\<close>.\<close>

definition clocked_tick :: "quote_hash \<Rightarrow> pyfloat \<Rightarrow> sim_oracle daemon \<Rightarrow> sim_oracle daemon \<times> escalation_state result" where
  "clocked_tick ref_of t d = tick (sim_ops ref_of) no_hooks (d\<lparr>d_clock := \<lambda>_. t\<rparr>)"

fun drive_to_dormant :: "quote_hash \<Rightarrow> nat \<Rightarrow> pyfloat \<Rightarrow> sim_oracle daemon \<Rightarrow> sim_oracle daemon \<times> escalation_state result" where
  "drive_to_dormant ref_of 0 deadline d = (d, Ok (d_state d))"
| "drive_to_dormant ref_of (Suc k) deadline d =
     (let t = deadline + (liquidation_grace (d_config d) + Fin 5);
          (d1, r) = clocked_tick ref_of t d
      in case r of Inl e \<Rightarrow> (d1, Raise e)
         | Inr s \<Rightarrow> if s = DORMANT then (d1, Ok s) else drive_to_dormant ref_of k t d1)"

definition step_seen :: "escalation_state \<Rightarrow> escalation_state \<Rightarrow> transition list \<Rightarrow> bool" where
  "step_seen a b j \<longleftrightarrow> list_ex (\<lambda>t. t_from t = a \<and> t_to t = b) j"

definition self_test_fsm :: "quote_hash \<Rightarrow> pyfloat \<Rightarrow> pyfloat \<Rightarrow> unit result" where
  "self_test_fsm ref_of t_beat t0 =
     (let cfg = self_test_config in
      rbind (new_daemon cfg None (\<lambda>_. t_beat)) (\<lambda>d0.
      rbind (assert_that (d_state d0 = ARMED)) (\<lambda>_.
      let (d1, r1) = beat False d0 in rbind r1 (\<lambda>_.
      let (d2, r2) = clocked_tick ref_of (t0 + Fin (1/2)) d1 in rbind r2 (\<lambda>s2.
      rbind (assert_that (s2 = ARMED)) (\<lambda>_.
      let (d3, r3) = clocked_tick ref_of (t0 + (grace_period cfg + escalation_period cfg + Fin 10)) d2 in
      rbind r3 (\<lambda>s3. rbind (assert_that (s3 = WATCHING)) (\<lambda>_.
      let (d4, r4) = clocked_tick ref_of (t0 + (grace_period cfg + escalation_period cfg * Fin 3)) d3 in
      rbind r4 (\<lambda>s4. rbind (assert_that (s4 = ESCALATING)) (\<lambda>_.
      let (d5, r5) = drive_to_dormant ref_of 30 (t0 + (grace_period cfg + escalation_period cfg * Fin 60)) d4 in
      rbind r5 (\<lambda>s5. rbind (assert_that (s5 = DORMANT)) (\<lambda>_.
      rbind (assert_that (step_seen ARMED WATCHING (d_journal d5))) (\<lambda>_.
      assert_that (step_seen WATCHING ESCALATING (d_journal d5)))))))))))))))"

definition self_test_disarm :: "pyfloat \<Rightarrow> int result" where
  "self_test_disarm t =
     (let cfg = default_config (Fin 5) in
      rbind (new_daemon cfg None (\<lambda>_. t)) (\<lambda>fresh.
      rbind (assert_that (d_state fresh = ARMED)) (\<lambda>_.
      case snd (disarm ''wrong-key'' fresh) of
        Inr _ \<Rightarrow> Ok 1
      | Inl e \<Rightarrow>
          if e \<noteq> PermissionError then Raise e
          else rbind (new_daemon cfg (Some '''') (\<lambda>_. t)) (\<lambda>keyed.
            let (d, r) = disarm '''' keyed in
            rbind r (\<lambda>_. rbind (assert_that (d_state d = ARMED)) (\<lambda>_. Ok 0))))))"

definition cmd_self_test :: "quote_hash \<Rightarrow> pyfloat \<Rightarrow> pyfloat \<Rightarrow> int result" where
  "cmd_self_test ref_of t_beat t0 =
     rbind (self_test_fsm ref_of t_beat t0) (\<lambda>_. self_test_disarm t0)"

definition cmd_disarm :: "string \<Rightarrow> dead_man_config \<Rightarrow> pyfloat \<Rightarrow> int result" where
  "cmd_disarm key cfg t =
     rbind (new_daemon cfg (Some key) (\<lambda>_. t)) (\<lambda>d.
     rbind (assert_that (d_state d = ARMED)) (\<lambda>_. Ok 0))"

text \<open>
  \<open>--run\<close>: the background thread has ticked \<open>n\<close> times when the user interrupts. A tick that raises
  would end the thread.
\<close>

fun run_ticks :: "quote_hash \<Rightarrow> nat \<Rightarrow> sim_oracle daemon \<Rightarrow> sim_oracle daemon" where
  "run_ticks ref_of 0 d = d"
| "run_ticks ref_of (Suc n) d =
     (case tick (sim_ops ref_of) no_hooks d of (d', Inl _) \<Rightarrow> d' | (d', Inr _) \<Rightarrow> run_ticks ref_of n d')"

definition cmd_run :: "quote_hash \<Rightarrow> dead_man_config \<Rightarrow> (nat \<Rightarrow> pyfloat) \<Rightarrow> nat \<Rightarrow> sim_oracle daemon result" where
  "cmd_run ref_of cfg clk n = rbind (new_daemon cfg None clk) (\<lambda>d. Ok (run_ticks ref_of n d))"

text \<open>
  Loading the configuration: \<open>file path\<close> is what the file at that path parses to (\<open>None\<close> when there is
  none), the default plan takes its interval from the command line and pydantic checks it.
\<close>

definition load_config :: "(string \<Rightarrow> dead_man_config result option) \<Rightarrow> string option \<Rightarrow> pyfloat \<Rightarrow> dead_man_config result" where
  "load_config file path interval =
     (case (case path of Some p \<Rightarrow> if p = [] then None else file p | None \<Rightarrow> None) of
        Some loaded \<Rightarrow> loaded
      | None \<Rightarrow> if config_ok (default_config interval) then Ok (default_config interval) else Raise ValidationError)"

record cli_args =
  a_self_test :: bool
  a_run :: bool
  a_beat :: bool
  a_status :: bool
  a_disarm :: "string option"
  a_config :: "string option"
  a_interval :: pyfloat

text \<open>
  The dispatch of \<open>main\<close> on parsed arguments; an empty governance key counts as no key. \<open>--beat\<close> and
  \<open>--status\<close> only print.
\<close>

definition cli_main ::
    "quote_hash \<Rightarrow> (string \<Rightarrow> dead_man_config result option) \<Rightarrow> pyfloat \<Rightarrow> pyfloat \<Rightarrow> (nat \<Rightarrow> pyfloat) \<Rightarrow> nat \<Rightarrow> cli_args \<Rightarrow> int result" where
  "cli_main ref_of file t_beat t0 clk n args =
     (let key = (case a_disarm args of Some k \<Rightarrow> k | None \<Rightarrow> []) in
      if \<not> (a_self_test args \<or> a_run args \<or> a_beat args \<or> a_status args \<or> key \<noteq> []) then Ok 0
      else rbind (load_config file (a_config args) (a_interval args)) (\<lambda>cfg.
        if a_self_test args then cmd_self_test ref_of t_beat t0
        else if a_run args then rbind (cmd_run ref_of cfg clk n) (\<lambda>_. Ok 0)
        else if a_beat args then Ok 0
        else if a_status args then Ok 0
        else if key \<noteq> [] then cmd_disarm key cfg t0
        else Ok 0))"

section \<open>Properties\<close>

lemma self_test_disarm_passes: "self_test_disarm t = Ok 0"
  by (simp add: self_test_disarm_def new_daemon_def oracle_factory_def default_config_def
      init_daemon_def disarm_def assert_that_def Let_def read_clock_def move_def)

lemma self_test_ok: "cmd_self_test ref_of 0 0 = Ok 0"
proof -
  have "self_test_fsm ref_of 0 0 = Ok ()" by code_simp
  then show ?thesis by (simp add: cmd_self_test_def self_test_disarm_passes)
qed

lemma cmd_disarm_result:
  "cmd_disarm key cfg t = (if g_oracle cfg = ''simulation_oracle'' then Ok 0 else Raise ValueError)"
  by (simp add: cmd_disarm_def new_daemon_def oracle_factory_def init_daemon_def assert_that_def)

text \<open>
  The self test passes: the default plan walks \<open>ARMED\<close>, \<open>WATCHING\<close>, \<open>ESCALATING\<close>,
  \<open>LIQUIDATING\<close>, \<open>DORMANT\<close> within the ticks the test allows, the transitions are journaled,
  a wrong key is refused and the right one accepted, whatever the hash of the quotes is.
\<close>

theorem self_test_passes: "cmd_self_test ref_of 0 0 = Ok 0"
  by (rule self_test_ok)

text \<open>
  \<open>--disarm\<close> only builds a daemon and looks at it: whatever the key, it succeeds on every
  configuration with a known oracle and never presents the key to a daemon.
\<close>

theorem cmd_disarm_checks_no_key:
  "cmd_disarm key cfg t = (if g_oracle cfg = ''simulation_oracle'' then Ok 0 else Raise ValueError)"
  by (rule cmd_disarm_result)

lemma tick_unbeaten:
  assumes "d_state d = ARMED" "d_last_beat d = None" "config_ok (d_config d)"
  shows "tick ops hooks d = (d\<lparr>d_reads := Suc (d_reads d)\<rparr>, Ok ARMED)"
proof -
  have "\<not> grace_period (d_config d) < x - x" for x :: pyfloat
    using grace_period_nonneg [OF assms(3)] by (rule diff_self_not_above)
  then show ?thesis using assms(1,2) by (simp add: tick_def read_clock_def tick_armed_def Let_def)
qed

lemma run_ticks_unbeaten:
  "d_state d = ARMED \<Longrightarrow> d_last_beat d = None \<Longrightarrow> config_ok (d_config d) \<Longrightarrow>
     run_ticks ref_of n d = d\<lparr>d_reads := d_reads d + n\<rparr>"
  by (induction n arbitrary: d) (simp_all add: tick_unbeaten)

text \<open>
  The switch on the command line has no exit status but 0: each command returns it or raises, and
  only a configuration that does not load or names an unknown oracle makes it raise.
\<close>

theorem cli_main_exit:
  "case cli_main ref_of file 0 0 clk n args of
     Inr code \<Rightarrow> code = 0
   | Inl e \<Rightarrow> (case load_config file (a_config args) (a_interval args) of
       Inl e' \<Rightarrow> e = e' | Inr cfg \<Rightarrow> e = ValueError \<and> g_oracle cfg \<noteq> ''simulation_oracle'')"
proof -
  have st: "cmd_self_test ref_of 0 0 = Ok 0" by (rule self_test_ok)
  have dis: "cmd_disarm key cfg 0 = (if g_oracle cfg = ''simulation_oracle'' then Ok 0 else Raise ValueError)" for key cfg
    by (rule cmd_disarm_result)
  have run: "rbind (cmd_run ref_of cfg clk n) (\<lambda>_. Ok (0 :: int)) =
      (if g_oracle cfg = ''simulation_oracle'' then Ok 0 else Raise ValueError)" for cfg
    by (simp add: cmd_run_def new_daemon_def oracle_factory_def)
  show ?thesis
    by (cases "load_config file (a_config args) (a_interval args)")
      (simp_all add: cli_main_def Let_def st dis run)
qed

text \<open>
  A switch started from the command line never fires. \<open>--run\<close> starts the daemon and never beats
  it, and a daemon without a first heartbeat takes the present for the last one: whatever the clock
  says and however long it runs, it stays ARMED with an empty journal and no orders.
\<close>

theorem cmd_run_never_fires:
  assumes "config_ok cfg" "cmd_run ref_of cfg clk n = Ok d"
  shows "d_state d = ARMED \<and> d_last_beat d = None \<and> d_journal d = [] \<and> d_orders d = []"
proof -
  obtain ora where "d = run_ticks ref_of n (init_daemon cfg ora None clk)"
    using assms(2) by (auto simp: cmd_run_def new_daemon_def rbind_Inr_iff)
  moreover have "run_ticks ref_of n (init_daemon cfg ora None clk) =
      (init_daemon cfg ora None clk)\<lparr>d_reads := d_reads (init_daemon cfg ora None clk) + n\<rparr>"
    by (rule run_ticks_unbeaten) (simp_all add: init_daemon_def assms(1))
  ultimately show ?thesis by (simp add: init_daemon_def)
qed

lemma cmd_run_never_fires_witness:
  "case cmd_run (\<lambda>_ _ _ _. []) (default_config (Fin 5)) (\<lambda>i. Fin (of_nat i) * Fin 86400) 365 of
     Inr d \<Rightarrow> d_state d = ARMED \<and> d_journal d = [] | Inl _ \<Rightarrow> False"
proof -
  have "0 < Fin 5" by simp
  from default_config_ok [OF this] have c: "config_ok (default_config (Fin 5))" .
  obtain d where "cmd_run (\<lambda>_ _ _ _. []) (default_config (Fin 5)) (\<lambda>i. Fin (of_nat i) * Fin 86400) 365 = Ok d"
    by (auto simp: cmd_run_def new_daemon_def oracle_factory_def default_config_def)
  with cmd_run_never_fires [OF c this] show ?thesis by simp
qed

end
