(* ===== verification/Json.thy ===== *)
theory Json
  imports PyFloat "HOL-Library.AList"
begin

text \<open>
  Decoded JSON values as Python's \<open>json\<close> module returns them, and dictionaries as association
  lists in insertion order (\<open>AList.update\<close> replaces in place or appends, like a \<open>dict\<close>).
\<close>

datatype json =
    JNull
  | JBool bool
  | JInt int
  | JFloat pyfloat
  | JStr string
  | JList "json list"
  | JObj "(string \<times> json) list"

text \<open>\<open>d.get(key)\<close> and \<open>d.get(key, default)\<close> of a decoded object.\<close>

definition obj_get :: "(string \<times> json) list \<Rightarrow> string \<Rightarrow> json" where
  "obj_get kvs k = (case map_of kvs k of None \<Rightarrow> JNull | Some v \<Rightarrow> v)"

definition obj_get_or :: "(string \<times> json) list \<Rightarrow> string \<Rightarrow> json \<Rightarrow> json" where
  "obj_get_or kvs k d = (case map_of kvs k of None \<Rightarrow> d | Some v \<Rightarrow> v)"

text \<open>\<open>str(v)\<close>: the identity on strings; \<open>render\<close> stands for Python's rendering of the rest.\<close>

definition py_str :: "(json \<Rightarrow> string) \<Rightarrow> json \<Rightarrow> string" where
  "py_str render v = (case v of JStr s \<Rightarrow> s | _ \<Rightarrow> render v)"

lemma keys_update: "fst ` set (AList.update k v xs) = insert k (fst ` set xs)"
  using AList.dom_update [of k v xs] by simp

lemma distinct_keys_update: "distinct (map fst xs) \<Longrightarrow> distinct (map fst (AList.update k v xs))"
  by (rule distinct_update)

lemma map_of_update: "map_of (AList.update k v xs) = (map_of xs)(k \<mapsto> v)"
  by (rule update_conv')

end
