(* ===== verification/Consensus.thy ===== *)
theory Consensus
  imports Json
begin

text \<open>
  State sync of the edge mesh (\<open>mesh/mesh/bft_consensus.py\<close>): the node, its proposal
  round over a peer transport, and the handler of inbound messages. The transport of
  \<open>mesh/mesh/peer_transport.py\<close> is the interface \<open>transport\<close>: a request answers with a
  decoded response or nothing, a send is best effort. A round runs without concurrent
  changes of the proposing node itself.
\<close>

section \<open>State\<close>

definition POLICY_HONEST :: string where "POLICY_HONEST = ''honest''"
definition POLICY_FAULTY :: string where "POLICY_FAULTY = ''faulty''"
definition OP_VOTE_REQUEST :: string where "OP_VOTE_REQUEST = ''vote_request''"
definition OP_COMMIT :: string where "OP_COMMIT = ''commit''"

record bft_node =
  b_id :: string
  b_peers :: "(string \<times> string option) list"
  b_policies :: "(string \<times> string) list"
  b_ledger :: "string \<rightharpoonup> string"
  b_commits :: nat
  b_rejected :: nat
  b_byzantine :: nat

definition new_node :: "string \<Rightarrow> bft_node" where
  "new_node node_id =
     \<lparr>b_id = node_id, b_peers = [], b_policies = [], b_ledger = Map.empty, b_commits = 0,
      b_rejected = 0, b_byzantine = 0\<rparr>"

section \<open>Membership\<close>

definition register_peer :: "string \<Rightarrow> string option \<Rightarrow> bft_node \<Rightarrow> bft_node" where
  "register_peer pid uri n =
     (if pid \<notin> set (map fst (b_peers n))
      then n\<lparr>b_peers := AList.update pid uri (b_peers n),
             b_policies := AList.update pid POLICY_HONEST (b_policies n)\<rparr>
      else if uri \<noteq> None then n\<lparr>b_peers := AList.update pid uri (b_peers n)\<rparr>
      else n)"

definition set_peer_policy :: "string \<Rightarrow> string \<Rightarrow> bft_node \<Rightarrow> bft_node result" where
  "set_peer_policy pid policy n =
     (if pid \<notin> set (map fst (b_peers n)) then Raise KeyError
      else Ok (n\<lparr>b_policies := AList.update pid policy (b_policies n)\<rparr>))"

text \<open>\<open>if uri\<close>: neither \<open>None\<close> nor the empty string.\<close>

fun usable :: "string option \<Rightarrow> bool" where
  "usable (Some uri) = (uri \<noteq> [])"
| "usable None = False"

definition active_peers :: "bft_node \<Rightarrow> string list" where
  "active_peers n = map fst (filter (\<lambda>(pid, uri). usable uri) (b_peers n))"

definition is_faulty :: "bft_node \<Rightarrow> string \<Rightarrow> bool" where
  "is_faulty n pid \<longleftrightarrow> map_of (b_policies n) pid = Some POLICY_FAULTY"

definition faulty_peers :: "bft_node \<Rightarrow> string list" where
  "faulty_peers n = map fst (filter (\<lambda>(pid, policy). policy = POLICY_FAULTY) (b_policies n))"

definition quorum_for :: "bft_node \<Rightarrow> nat" where
  "quorum_for n = (length (b_peers n) + 1) div 2 + 1"

definition commit_local :: "string \<Rightarrow> string \<Rightarrow> bft_node \<Rightarrow> bft_node" where
  "commit_local key val n = n\<lparr>b_ledger := (b_ledger n)(key \<mapsto> val), b_commits := b_commits n + 1\<rparr>"

definition apply_commit :: "string \<Rightarrow> string \<Rightarrow> string \<Rightarrow> bft_node \<Rightarrow> bool \<times> bft_node" where
  "apply_commit key val sender n =
     (if sender \<in> set (map fst (b_peers n)) then (True, commit_local key val n) else (False, n))"

section \<open>Proposals\<close>

record 'w transport =
  tr_request :: "string \<Rightarrow> json \<Rightarrow> 'w \<Rightarrow> json option \<times> 'w"
  tr_send :: "string \<Rightarrow> json \<Rightarrow> 'w \<Rightarrow> 'w"

definition vote_request_payload :: "bft_node \<Rightarrow> string \<Rightarrow> string \<Rightarrow> json" where
  "vote_request_payload n key val =
     JObj [(''op'', JStr OP_VOTE_REQUEST), (''proposer'', JStr (b_id n)), (''key'', JStr key),
           (''value'', JStr val), (''protocol_version'', JInt 1)]"

definition commit_payload :: "bft_node \<Rightarrow> string \<Rightarrow> string \<Rightarrow> json" where
  "commit_payload n key val =
     JObj [(''op'', JStr OP_COMMIT), (''sender'', JStr (b_id n)), (''key'', JStr key),
           (''value'', JStr val), (''protocol_version'', JInt 1)]"

text \<open>\<open>response is not None and response.get("vote") is True\<close>.\<close>

fun vote_yes :: "json option \<Rightarrow> bool" where
  "vote_yes (Some (JObj kvs)) = (obj_get kvs ''vote'' = JBool True)"
| "vote_yes _ = False"

fun collect_loop ::
    "'w transport \<Rightarrow> bft_node \<Rightarrow> json \<Rightarrow> (string \<times> string option) list \<Rightarrow> nat \<Rightarrow> nat \<Rightarrow> 'w \<Rightarrow> nat \<times> nat \<times> 'w" where
  "collect_loop tr n payload [] votes byz w = (votes, byz, w)"
| "collect_loop tr n payload ((pid, uri) # ps) votes byz w =
     (if is_faulty n pid then collect_loop tr n payload ps votes (byz + 1) w
      else if \<not> usable uri then collect_loop tr n payload ps votes byz w
      else case tr_request tr (the uri) payload w of
          (response, w') \<Rightarrow>
            if vote_yes response then collect_loop tr n payload ps (votes + 1) byz w'
            else collect_loop tr n payload ps votes (byz + 1) w')"

definition collect_votes :: "'w transport \<Rightarrow> string \<Rightarrow> string \<Rightarrow> bft_node \<Rightarrow> 'w \<Rightarrow> nat \<times> bft_node \<times> 'w" where
  "collect_votes tr key val n w =
     (case collect_loop tr n (vote_request_payload n key val) (b_peers n) 1 (b_byzantine n) w of
        (votes, byz, w') \<Rightarrow> (votes, n\<lparr>b_byzantine := byz\<rparr>, w'))"

definition broadcast_commit :: "'w transport \<Rightarrow> string \<Rightarrow> string \<Rightarrow> bft_node \<Rightarrow> 'w \<Rightarrow> 'w" where
  "broadcast_commit tr key val n w =
     fold (\<lambda>(pid, uri) w. if usable uri then tr_send tr (the uri) (commit_payload n key val) w else w)
       (b_peers n) w"

definition propose :: "'w transport option \<Rightarrow> string \<Rightarrow> string \<Rightarrow> bft_node \<Rightarrow> 'w \<Rightarrow> bool \<times> bft_node \<times> 'w" where
  "propose transport key val n w =
     (case transport of
        None \<Rightarrow>
          if quorum_for n \<le> 1 + length (b_peers n) then (True, commit_local key val n, w)
          else (False, n\<lparr>b_rejected := b_rejected n + 1\<rparr>, w)
      | Some tr \<Rightarrow>
          (case collect_votes tr key val n w of
             (votes, n1, w1) \<Rightarrow>
               if quorum_for n1 \<le> votes
               then (let n2 = commit_local key val n1 in (True, n2, broadcast_commit tr key val n2 w1))
               else (False, n1\<lparr>b_rejected := b_rejected n1 + 1\<rparr>, w1)))"

section \<open>Inbound messages\<close>

definition vote_response :: "bool \<Rightarrow> json" where
  "vote_response yes =
     (if yes then JObj [(''op'', JStr ''vote_response''), (''vote'', JBool True)]
      else JObj [(''op'', JStr ''vote_response''), (''vote'', JBool False),
                 (''reason'', JStr ''node policy: faulty'')])"

text \<open>The proposer indexes a dictionary: a list or an object is not hashable.\<close>

definition proposer_faulty :: "json \<Rightarrow> bft_node \<Rightarrow> bool result" where
  "proposer_faulty proposer n =
     (case proposer of
        JStr p \<Rightarrow> Ok (is_faulty n p)
      | JList _ \<Rightarrow> Raise TypeError
      | JObj _ \<Rightarrow> Raise TypeError
      | _ \<Rightarrow> Ok False)"

definition handle_message ::
    "(json \<Rightarrow> string) \<Rightarrow> (string \<times> json) list \<Rightarrow> bft_node \<Rightarrow> (json option \<times> bft_node) result" where
  "handle_message render msg n =
     (if obj_get msg ''op'' = JStr OP_VOTE_REQUEST
      then rbind (proposer_faulty (obj_get msg ''proposer'') n) (\<lambda>bad. Ok (Some (vote_response (\<not> bad)), n))
      else if obj_get msg ''op'' = JStr OP_COMMIT
      then Ok (None, snd (apply_commit (py_str render (obj_get_or msg ''key'' (JStr [])))
             (py_str render (obj_get_or msg ''value'' (JStr [])))
             (py_str render (obj_get_or msg ''sender'' (JStr []))) n))
      else Ok (None, n))"

section \<open>Membership lemmas\<close>

definition node_ok :: "bft_node \<Rightarrow> bool" where
  "node_ok n \<longleftrightarrow> distinct (map fst (b_peers n)) \<and> set (map fst (b_policies n)) = set (map fst (b_peers n))"

lemma node_ok_new: "node_ok (new_node i)"
  by (simp add: node_ok_def new_node_def)

lemma node_ok_register: "node_ok n \<Longrightarrow> node_ok (register_peer pid uri n)"
  by (auto simp: node_ok_def register_peer_def keys_update insert_absorb distinct_keys_update)

lemma node_ok_policy:
  assumes "node_ok n" "set_peer_policy pid policy n = Ok n'"
  shows "node_ok n'"
proof -
  have n': "pid \<in> fst ` set (b_peers n)" "n' = n\<lparr>b_policies := AList.update pid policy (b_policies n)\<rparr>"
    using assms(2) by (simp_all add: set_peer_policy_def split: if_splits)
  then show ?thesis using assms(1) keys_update [of pid policy "b_policies n"] insert_absorb [OF n'(1)]
    by (simp add: node_ok_def)
qed

lemma node_ok_commit [simp]: "node_ok (commit_local key val n) = node_ok n"
  by (simp add: node_ok_def commit_local_def)

lemma commit_local_simps [simp]:
  "b_id (commit_local key val n) = b_id n" "b_peers (commit_local key val n) = b_peers n"
  "b_policies (commit_local key val n) = b_policies n"
  "b_ledger (commit_local key val n) = (b_ledger n)(key \<mapsto> val)"
  by (simp_all add: commit_local_def)

lemma quorum_majority: "quorum_for n \<le> votes \<Longrightarrow> length (b_peers n) + 1 < 2 * votes"
  by (simp add: quorum_for_def)

section \<open>Counting votes\<close>

text \<open>Who can vote: registered, not faulty, with an address.\<close>

definition eligible :: "bft_node \<Rightarrow> (string \<times> string option) list \<Rightarrow> string list" where
  "eligible n ps = map fst (filter (\<lambda>(pid, uri). \<not> is_faulty n pid \<and> usable uri) ps)"

text \<open>The address-less honest peers: neither a vote nor counted as Byzantine.\<close>

definition silent_peers :: "bft_node \<Rightarrow> (string \<times> string option) list \<Rightarrow> nat" where
  "silent_peers n ps = length (filter (\<lambda>(pid, uri). \<not> is_faulty n pid \<and> \<not> usable uri) ps)"

lemma collect_loop_votes:
  assumes "collect_loop tr n payload ps votes byz w = (v, b, w')" "distinct (map fst ps)"
  shows "\<exists>yes. distinct yes \<and> set yes \<subseteq> set (eligible n ps) \<and> v = votes + length yes \<and>
    v + b + silent_peers n ps = votes + byz + length ps"
  using assms
proof (induction ps arbitrary: votes byz w)
  case Nil
  then show ?case by (simp add: silent_peers_def)
next
  case (Cons p ps)
  obtain pid uri where p: "p = (pid, uri)" by fastforce
  have d: "distinct (map fst ps)" "pid \<notin> set (map fst ps)" using Cons.prems(2) p by auto
  have sub: "set (eligible n ps) \<subseteq> set (map fst ps)" by (auto simp: eligible_def)
  consider (faulty) "is_faulty n pid" | (silent) "\<not> is_faulty n pid" "\<not> usable uri"
    | (asked) "\<not> is_faulty n pid" "usable uri" by blast
  then show ?case
  proof cases
    case faulty
    then obtain yes where "distinct yes" "set yes \<subseteq> set (eligible n ps)" "v = votes + length yes"
      "v + b + silent_peers n ps = votes + (byz + 1) + length ps"
      using Cons.IH [of votes "byz + 1" w] Cons.prems(1) d(1) p by auto
    then show ?thesis using faulty p by (auto simp: eligible_def silent_peers_def)
  next
    case silent
    then obtain yes where "distinct yes" "set yes \<subseteq> set (eligible n ps)" "v = votes + length yes"
      "v + b + silent_peers n ps = votes + byz + length ps"
      using Cons.IH [of votes byz w] Cons.prems(1) d(1) p by auto
    then show ?thesis using silent p by (auto simp: eligible_def silent_peers_def)
  next
    case asked
    obtain r w1 where r: "tr_request tr (the uri) payload w = (r, w1)" by fastforce
    have e: "set (eligible n (p # ps)) = insert pid (set (eligible n ps))"
      "silent_peers n (p # ps) = silent_peers n ps"
      using asked p by (simp_all add: eligible_def silent_peers_def)
    show ?thesis
    proof (cases "vote_yes r")
      case True
      then obtain yes where y: "distinct yes" "set yes \<subseteq> set (eligible n ps)" "v = votes + 1 + length yes"
        "v + b + silent_peers n ps = votes + 1 + byz + length ps"
        using Cons.IH [of "votes + 1" byz w1] Cons.prems(1) d(1) p asked r by auto
      then have "distinct (pid # yes)" using d(2) sub by auto
      with y e show ?thesis by (intro exI [of _ "pid # yes"]) auto
    next
      case False
      then obtain yes where "distinct yes" "set yes \<subseteq> set (eligible n ps)" "v = votes + length yes"
        "v + b + silent_peers n ps = votes + (byz + 1) + length ps"
        using Cons.IH [of votes "byz + 1" w1] Cons.prems(1) d(1) p asked r by auto
      with e show ?thesis by auto
    qed
  qed
qed

lemma propose_cases:
  assumes "propose (Some tr) key val n w = (ok, n', w')"
  obtains (committed) votes n1 w1 where "collect_votes tr key val n w = (votes, n1, w1)"
      "quorum_for n \<le> votes" "ok" "n' = commit_local key val n1" "w' = broadcast_commit tr key val n' w1"
  | (rejected) votes n1 w1 where "collect_votes tr key val n w = (votes, n1, w1)"
      "\<not> quorum_for n \<le> votes" "\<not> ok" "n' = n1\<lparr>b_rejected := b_rejected n1 + 1\<rparr>" "w' = w1"
proof -
  obtain votes n1 w1 where c: "collect_votes tr key val n w = (votes, n1, w1)" using prod_cases3 by blast
  then have "quorum_for n1 = quorum_for n"
    by (auto simp: collect_votes_def quorum_for_def split: prod.splits)
  then show thesis
    using assms c that by (auto simp: propose_def Let_def split: if_splits)
qed

lemma collect_votes_node:
  "collect_votes tr key val n w = (votes, n1, w1) \<Longrightarrow>
     b_id n1 = b_id n \<and> b_peers n1 = b_peers n \<and> b_policies n1 = b_policies n \<and> b_ledger n1 = b_ledger n \<and>
     b_commits n1 = b_commits n \<and> b_rejected n1 = b_rejected n"
  by (auto simp: collect_votes_def split: prod.splits)

section \<open>The transport interface\<close>

text \<open>
  What the consensus relies on: asking for a vote changes no node, and a commit that is sent
  is handled by the node behind the address, if there is one, and by no other.
\<close>

locale vote_transport =
  fixes tr :: "'w transport"
    and node_at :: "'w \<Rightarrow> string \<Rightarrow> bft_node option"
    and render :: "json \<Rightarrow> string"
  assumes request_frame: "obj_get kvs ''op'' = JStr OP_VOTE_REQUEST \<Longrightarrow>
      node_at (snd (tr_request tr uri (JObj kvs) w)) = node_at w"
    and send_delivers: "handle_message render kvs n = Ok (r, n') \<Longrightarrow> node_at w uri = Some n \<Longrightarrow>
      node_at (tr_send tr uri (JObj kvs) w) = (node_at w)(uri \<mapsto> n')"
    and send_lost: "node_at w uri = None \<Longrightarrow> node_at (tr_send tr uri msg w) = node_at w"
begin

lemma collect_frame:
  "obj_get kvs ''op'' = JStr OP_VOTE_REQUEST \<Longrightarrow>
     collect_loop tr n (JObj kvs) ps votes byz w = (v, b, w') \<Longrightarrow> node_at w' = node_at w"
proof (induction ps arbitrary: votes byz w)
  case (Cons p ps)
  obtain pid uri where p: "p = (pid, uri)" by fastforce
  obtain r w1 where r: "tr_request tr (the uri) (JObj kvs) w = (r, w1)" by fastforce
  have "node_at w1 = node_at w" using request_frame [OF Cons.prems(1), of "the uri" w] r by simp
  then show ?case
    using Cons.IH [OF Cons.prems(1)] Cons.prems(2) p r by (fastforce split: if_splits)
qed simp

lemma votes_frame:
  assumes "collect_votes tr key val n w = (votes, n1, w1)"
  shows "node_at w1 = node_at w"
proof -
  have "obj_get [(''op'', JStr OP_VOTE_REQUEST), (''proposer'', JStr (b_id n)), (''key'', JStr key),
      (''value'', JStr val), (''protocol_version'', JInt 1)] ''op'' = JStr OP_VOTE_REQUEST"
    by (simp add: obj_get_def)
  from collect_frame [OF this] assms show ?thesis
    by (auto simp: collect_votes_def vote_request_payload_def split: prod.splits)
qed

text \<open>What a node that is sent a commit looks like afterwards.\<close>

definition synced :: "string \<Rightarrow> string \<Rightarrow> string \<Rightarrow> bft_node \<Rightarrow> bft_node \<Rightarrow> bool" where
  "synced key val sender m m' \<longleftrightarrow> b_peers m' = b_peers m \<and>
     b_ledger m' = (if sender \<in> set (map fst (b_peers m)) then (b_ledger m)(key \<mapsto> val) else b_ledger m)"

lemma handle_commit:
  "\<exists>kvs m'. commit_payload n key val = JObj kvs \<and> handle_message render kvs m = Ok (None, m') \<and>
     synced key val (b_id n) m m'"
  by (auto simp: commit_payload_def handle_message_def obj_get_def obj_get_or_def py_str_def
      OP_COMMIT_def OP_VOTE_REQUEST_def apply_commit_def synced_def)

lemma send_syncs:
  "node_at w uri = Some m \<Longrightarrow>
     \<exists>m'. node_at (tr_send tr uri (commit_payload n key val) w) = (node_at w)(uri \<mapsto> m') \<and>
       synced key val (b_id n) m m'"
  using handle_commit [of n key val m] send_delivers by metis

lemma broadcast_syncs:
  assumes "node_at w uri = Some m" "synced key val (b_id n) m0 m \<or> m = m0"
    "(\<exists>pid. (pid, Some uri) \<in> set ps) \<and> uri \<noteq> [] \<or> synced key val (b_id n) m0 m"
  shows "\<exists>m'. node_at (fold (\<lambda>(pid, uri) w. if usable uri then tr_send tr (the uri) (commit_payload n key val) w else w)
    ps w) uri = Some m' \<and> synced key val (b_id n) m0 m'"
  using assms
proof (induction ps arbitrary: w m)
  case (Cons p ps)
  obtain pid u where p: "p = (pid, u)" by fastforce
  show ?case
  proof (cases "usable u \<and> the u = uri")
    case True
    then have u: "u = Some uri" by (cases u) auto
    obtain m' where m': "node_at (tr_send tr uri (commit_payload n key val) w) = (node_at w)(uri \<mapsto> m')"
      "synced key val (b_id n) m m'" using send_syncs [OF Cons.prems(1)] by blast
    have s: "synced key val (b_id n) m0 m'"
      using m'(2) Cons.prems(2) by (auto simp: synced_def)
    show ?thesis using Cons.IH [of "tr_send tr uri (commit_payload n key val) w" m'] m'(1) s u True p by simp
  next
    case False
    let ?w = "if usable u then tr_send tr (the u) (commit_payload n key val) w else w"
    have "node_at ?w uri = Some m"
    proof (cases "usable u")
      case True
      then have ne: "the u \<noteq> uri" using False by simp
      show ?thesis
      proof (cases "node_at w (the u)")
        case None
        then show ?thesis using send_lost Cons.prems(1) True by simp
      next
        case (Some x)
        from send_syncs [OF Some, of n key val] show ?thesis using ne Cons.prems(1) True by auto
      qed
    qed (simp add: Cons.prems(1))
    moreover have "(\<exists>pid. (pid, Some uri) \<in> set ps) \<and> uri \<noteq> [] \<or> synced key val (b_id n) m0 m"
      using False Cons.prems(3) p by auto
    ultimately show ?thesis using Cons.IH [of ?w m] Cons.prems(2) p by simp
  qed
qed auto

end

end
