(* ===== verification/Mesh.thy ===== *)
theory Mesh
  imports Consensus
begin

text \<open>
  The mesh: the message dispatch and the requests of \<open>mesh/mesh/peer_transport.py\<close> over a
  cluster of nodes, one behind each address, and the interleaved runs of several proposals. A
  message survives \<open>json.dumps\<close> and \<open>json.loads\<close> unchanged. An unknown address stands for
  an unreachable peer.
\<close>

section \<open>Dispatch and transport\<close>

type_synonym cluster = "string \<rightharpoonup> bft_node"

definition malformed_response :: json where
  "malformed_response =
     JObj [(''op'', JStr ''vote_response''), (''vote'', JBool False), (''reason'', JStr ''malformed'')]"

text \<open>\<open>_dispatch\<close> on one received text; \<open>None\<close> is a text that does not decode.\<close>

definition dispatch :: "(json \<Rightarrow> string) \<Rightarrow> json option \<Rightarrow> bft_node \<Rightarrow> (json option \<times> bft_node) result" where
  "dispatch render raw n =
     (case raw of
        Some (JObj msg) \<Rightarrow> handle_message render msg n
      | _ \<Rightarrow> Ok (Some malformed_response, n))"

text \<open>
  \<open>request_vote\<close>: no peer, a handler that raises, or no answer within the timeout is \<open>None\<close>; so
  is an answer that is not an object.
\<close>

definition request_vote :: "(json \<Rightarrow> string) \<Rightarrow> string \<Rightarrow> json \<Rightarrow> cluster \<Rightarrow> json option \<times> cluster" where
  "request_vote render uri payload w =
     (case w uri of
        None \<Rightarrow> (None, w)
      | Some n \<Rightarrow>
          (case dispatch render (Some payload) n of
             Inl _ \<Rightarrow> (None, w)
           | Inr (r, n') \<Rightarrow> ((case r of Some (JObj kvs) \<Rightarrow> r | _ \<Rightarrow> None), w(uri \<mapsto> n'))))"

definition send_message :: "(json \<Rightarrow> string) \<Rightarrow> string \<Rightarrow> json \<Rightarrow> cluster \<Rightarrow> cluster" where
  "send_message render uri payload w =
     (case w uri of
        None \<Rightarrow> w
      | Some n \<Rightarrow> (case dispatch render (Some payload) n of Inl _ \<Rightarrow> w | Inr (r, n') \<Rightarrow> w(uri \<mapsto> n')))"

definition cluster_transport :: "(json \<Rightarrow> string) \<Rightarrow> cluster transport" where
  "cluster_transport render = \<lparr>tr_request = request_vote render, tr_send = send_message render\<rparr>"

lemma handle_vote_request:
  "obj_get kvs ''op'' = JStr OP_VOTE_REQUEST \<Longrightarrow> handle_message render kvs n = Ok (r, n') \<Longrightarrow> n' = n"
  by (auto simp: handle_message_def rbind_Inr_iff)

interpretation net: vote_transport "cluster_transport render" "\<lambda>w. w" render for render
  by unfold_locales
    (auto simp: cluster_transport_def request_vote_def send_message_def dispatch_def
      split: option.splits sum.splits dest!: handle_vote_request simp: fun_upd_idem)

section \<open>Interleaved proposals\<close>

text \<open>
  A proposal in flight: its votes are in and it is about to decide, or it has committed
  locally and still has addresses to broadcast to. \<open>m_chosen\<close> records, for the statements only,
  what was committed with a quorum.
\<close>

datatype flight =
    Deciding string string string nat
  | Broadcasting string string string "string list"

record mesh =
  m_nodes :: cluster
  m_flights :: "flight list"
  m_chosen :: "(string \<times> string) set"

definition targets :: "bft_node \<Rightarrow> string list" where
  "targets n = map (\<lambda>(pid, uri). the uri) (filter (\<lambda>(pid, uri). usable uri) (b_peers n))"

inductive mesh_step :: "(json \<Rightarrow> string) \<Rightarrow> mesh \<Rightarrow> mesh \<Rightarrow> bool" for render :: "json \<Rightarrow> string" where
  collect: "m_nodes m u = Some n \<Longrightarrow>
     collect_votes (cluster_transport render) key val n (m_nodes m) = (votes, n', w') \<Longrightarrow>
     mesh_step render m
       (m\<lparr>m_nodes := w'(u \<mapsto> n'), m_flights := m_flights m @ [Deciding u key val votes]\<rparr>)"
| decide_commit: "m_flights m = fs @ Deciding u key val votes # gs \<Longrightarrow> m_nodes m u = Some n \<Longrightarrow>
     quorum_for n \<le> votes \<Longrightarrow>
     mesh_step render m
       (m\<lparr>m_nodes := (m_nodes m)(u \<mapsto> commit_local key val n),
          m_flights := fs @ Broadcasting u key val (targets n) # gs,
          m_chosen := insert (key, val) (m_chosen m)\<rparr>)"
| decide_reject: "m_flights m = fs @ Deciding u key val votes # gs \<Longrightarrow> m_nodes m u = Some n \<Longrightarrow>
     \<not> quorum_for n \<le> votes \<Longrightarrow>
     mesh_step render m
       (m\<lparr>m_nodes := (m_nodes m)(u \<mapsto> n\<lparr>b_rejected := b_rejected n + 1\<rparr>), m_flights := fs @ gs\<rparr>)"
| deliver: "m_flights m = fs @ Broadcasting u key val (t # ts) # gs \<Longrightarrow> m_nodes m u = Some n \<Longrightarrow>
     mesh_step render m
       (m\<lparr>m_nodes := send_message render t (commit_payload n key val) (m_nodes m),
          m_flights := fs @ Broadcasting u key val ts # gs\<rparr>)"
| finished: "m_flights m = fs @ Broadcasting u key val [] # gs \<Longrightarrow>
     mesh_step render m (m\<lparr>m_flights := fs @ gs\<rparr>)"

inductive_cases mesh_stepE: "mesh_step render m m'"

inductive mesh_run :: "(json \<Rightarrow> string) \<Rightarrow> mesh \<Rightarrow> mesh \<Rightarrow> bool" for render :: "json \<Rightarrow> string" and m0 :: mesh where
  run_refl: "mesh_run render m0 m0"
| run_step: "mesh_run render m0 m \<Longrightarrow> mesh_step render m m' \<Longrightarrow> mesh_run render m0 m'"

text \<open>Every entry of every ledger, and everything being broadcast, was chosen by a quorum.\<close>

definition ledgers_chosen :: "mesh \<Rightarrow> bool" where
  "ledgers_chosen m \<longleftrightarrow>
     (\<forall>u n k v. m_nodes m u = Some n \<longrightarrow> b_ledger n k = Some v \<longrightarrow> (k, v) \<in> m_chosen m) \<and>
     (\<forall>u k v ts. Broadcasting u k v ts \<in> set (m_flights m) \<longrightarrow> (k, v) \<in> m_chosen m)"

lemma send_commit_ledger:
  assumes "send_message render t (commit_payload p key val) w u = Some n"
  obtains n0 where "w u = Some n0" "b_ledger n = b_ledger n0 \<or> b_ledger n = (b_ledger n0)(key \<mapsto> val)"
proof (cases "w t")
  case None
  then show thesis using assms that by (simp add: send_message_def)
next
  case (Some x)
  from net.send_syncs [where w = w and uri = t and render = render and n = p and key = key and val = val] Some
  obtain x' where
    "send_message render t (commit_payload p key val) w = w(t \<mapsto> x')" "net.synced key val (b_id p) x x'"
    by (auto simp: cluster_transport_def)
  then show thesis using assms that Some by (auto simp: net.synced_def split: if_splits)
qed

lemma mesh_step_chosen:
  assumes "mesh_step render m m'" "ledgers_chosen m"
  shows "ledgers_chosen m'"
  using assms(1)
proof (cases rule: mesh_step.cases)
  case (collect u n key val votes n' w')
  have "w' = m_nodes m" using net.votes_frame [OF collect(3)] .
  moreover have "b_ledger n' = b_ledger n" using collect_votes_node [OF collect(3)] by simp
  ultimately show ?thesis using assms(2) collect by (auto simp: ledgers_chosen_def split: if_splits)
next
  case (deliver fs u key val t ts gs n)
  have "(key, val) \<in> m_chosen m" using assms(2) deliver(2) by (auto simp: ledgers_chosen_def)
  then show ?thesis
    using assms(2) deliver
    by (auto simp: ledgers_chosen_def elim!: send_commit_ledger split: if_splits)
qed (use assms(2) in \<open>auto simp: ledgers_chosen_def split: if_splits\<close>)

lemma mesh_run_chosen: "mesh_run render m0 m \<Longrightarrow> ledgers_chosen m0 \<Longrightarrow> ledgers_chosen m"
  by (induction rule: mesh_run.induct) (auto dest: mesh_step_chosen)

text \<open>
  An executable scheduler for the relation: collect the votes of a new proposal, or advance
  the \<open>i\<close>-th flight.
\<close>

datatype command = Collect string string string | Advance nat

definition replace_flight :: "nat \<Rightarrow> flight list \<Rightarrow> mesh \<Rightarrow> mesh" where
  "replace_flight i new m = m\<lparr>m_flights := take i (m_flights m) @ new @ drop (Suc i) (m_flights m)\<rparr>"

definition set_node :: "string \<Rightarrow> bft_node \<Rightarrow> mesh \<Rightarrow> mesh" where
  "set_node u n m = m\<lparr>m_nodes := (m_nodes m)(u \<mapsto> n)\<rparr>"

fun advance :: "(json \<Rightarrow> string) \<Rightarrow> nat \<Rightarrow> flight \<Rightarrow> mesh \<Rightarrow> mesh option" where
  "advance render i (Deciding u key val votes) m =
     (case m_nodes m u of
        None \<Rightarrow> None
      | Some n \<Rightarrow>
          if quorum_for n \<le> votes
          then Some ((replace_flight i [Broadcasting u key val (targets n)] (set_node u (commit_local key val n) m))
                 \<lparr>m_chosen := insert (key, val) (m_chosen m)\<rparr>)
          else Some (replace_flight i [] (set_node u (n\<lparr>b_rejected := b_rejected n + 1\<rparr>) m)))"
| "advance render i (Broadcasting u key val []) m = Some (replace_flight i [] m)"
| "advance render i (Broadcasting u key val (t # ts)) m =
     (case m_nodes m u of
        None \<Rightarrow> None
      | Some n \<Rightarrow> Some (replace_flight i [Broadcasting u key val ts]
          (m\<lparr>m_nodes := send_message render t (commit_payload n key val) (m_nodes m)\<rparr>)))"

fun exec_command :: "(json \<Rightarrow> string) \<Rightarrow> command \<Rightarrow> mesh \<Rightarrow> mesh option" where
  "exec_command render (Collect u key val) m =
     (case m_nodes m u of
        None \<Rightarrow> None
      | Some n \<Rightarrow> (case collect_votes (cluster_transport render) key val n (m_nodes m) of
          (votes, n', w') \<Rightarrow>
            Some (m\<lparr>m_nodes := w'(u \<mapsto> n'), m_flights := m_flights m @ [Deciding u key val votes]\<rparr>)))"
| "exec_command render (Advance i) m =
     (if i < length (m_flights m) then advance render i (m_flights m ! i) m else None)"

fun exec_all :: "(json \<Rightarrow> string) \<Rightarrow> command list \<Rightarrow> mesh \<Rightarrow> mesh option" where
  "exec_all render [] m = Some m"
| "exec_all render (c # cs) m = Option.bind (exec_command render c m) (exec_all render cs)"

lemma advance_step:
  assumes "i < length (m_flights m)" "advance render i (m_flights m ! i) m = Some m'"
  shows "mesh_step render m m'"
proof -
  have fl: "m_flights m = take i (m_flights m) @ m_flights m ! i # drop (Suc i) (m_flights m)"
    using assms(1) by (rule id_take_nth_drop)
  show ?thesis
  proof (cases "m_flights m ! i")
    case (Deciding u key val votes)
    then obtain n where n: "m_nodes m u = Some n" using assms(2) by (auto split: option.splits)
    show ?thesis
      using assms(2) Deciding n decide_commit [OF fl [unfolded Deciding] n] decide_reject [OF fl [unfolded Deciding] n]
      by (auto simp: replace_flight_def set_node_def split: if_splits)
  next
    case (Broadcasting u key val ts)
    show ?thesis
    proof (cases ts)
      case Nil
      then show ?thesis
        using assms(2) Broadcasting finished [OF fl [unfolded Broadcasting Nil]]
        by (auto simp: replace_flight_def)
    next
      case (Cons t us)
      then obtain n where n: "m_nodes m u = Some n" using assms(2) Broadcasting by (auto split: option.splits)
      show ?thesis
        using assms(2) Broadcasting Cons n deliver [OF fl [unfolded Broadcasting Cons] n]
        by (auto simp: replace_flight_def)
    qed
  qed
qed

lemma exec_command_step: "exec_command render c m = Some m' \<Longrightarrow> mesh_step render m m'"
  by (cases c) (auto split: option.splits prod.splits if_splits intro: collect advance_step)

lemma exec_all_run: "exec_all render cs m = Some m' \<Longrightarrow> mesh_run render m0 m \<Longrightarrow> mesh_run render m0 m'"
  by (induction cs arbitrary: m) (auto simp: bind_eq_Some_conv dest: exec_command_step intro: run_step)

lemma byz_grows: "collect_loop tr n payload ps votes byz w = (v, b, w') \<Longrightarrow> byz \<le> b"
proof (induction ps arbitrary: votes byz w)
  case (Cons p ps)
  obtain pid uri where p: "p = (pid, uri)" by fastforce
  obtain r w1 where r: "tr_request tr (the uri) payload w = (r, w1)" by fastforce
  from Cons.prems p r show ?case by (auto split: if_splits dest!: Cons.IH)
qed simp

lemma majority_voters:
  assumes "node_ok n" "propose (Some tr) key val n w = (True, n', w')"
  obtains yes where "distinct yes" "set yes \<subseteq> set (eligible n (b_peers n))" "quorum_for n \<le> 1 + length yes"
proof -
  from assms(2) obtain votes n1 w1 where c: "collect_votes tr key val n w = (votes, n1, w1)" "quorum_for n \<le> votes"
    by (elim propose_cases) auto
  from c(1) obtain byz where l: "collect_loop tr n (vote_request_payload n key val) (b_peers n) 1 (b_byzantine n) w = (votes, byz, w1)"
    by (auto simp: collect_votes_def split: prod.splits)
  show thesis using collect_loop_votes [OF l] assms(1) c(2) that by (auto simp: node_ok_def)
qed

lemma quorum_sets_meet:
  assumes "node_ok n1" "node_ok n2"
    and M: "insert (b_id n1) (fst ` set (b_peers n1)) = M" "insert (b_id n2) (fst ` set (b_peers n2)) = M"
    and own: "b_id n1 \<notin> fst ` set (b_peers n1)" "b_id n2 \<notin> fst ` set (b_peers n2)"
    and y1: "distinct yes1" "set yes1 \<subseteq> set (eligible n1 (b_peers n1))" "quorum_for n1 \<le> 1 + length yes1"
    and y2: "distinct yes2" "set yes2 \<subseteq> set (eligible n2 (b_peers n2))" "quorum_for n2 \<le> 1 + length yes2"
  shows "insert (b_id n1) (set yes1) \<inter> insert (b_id n2) (set yes2) \<noteq> {}"
proof
  assume disj: "insert (b_id n1) (set yes1) \<inter> insert (b_id n2) (set yes2) = {}"
  have size: "card (insert (b_id n) (set yes)) = 1 + length yes \<and> insert (b_id n) (set yes) \<subseteq> M \<and>
      card M + 1 \<le> 2 * (1 + length yes)"
    if "node_ok n" "insert (b_id n) (fst ` set (b_peers n)) = M" "b_id n \<notin> fst ` set (b_peers n)" "distinct yes"
      "set yes \<subseteq> set (eligible n (b_peers n))" "quorum_for n \<le> 1 + length yes" for n yes
  proof -
    have "set yes \<subseteq> fst ` set (b_peers n)" using that(5) by (auto simp: eligible_def)
    moreover have "card (fst ` set (b_peers n)) = length (b_peers n)"
      using that(1) distinct_card [of "map fst (b_peers n)"] by (simp add: node_ok_def)
    moreover have "card M = 1 + card (fst ` set (b_peers n))" using that(2,3) by auto
    ultimately show ?thesis
      using that quorum_majority [OF that(6)] distinct_card [OF that(4)] by (auto simp: card_insert_if)
  qed
  note s1 = size [OF assms(1) M(1) own(1) y1] and s2 = size [OF assms(2) M(2) own(2) y2]
  have fin: "finite M" using M(1) by auto
  have "card (insert (b_id n1) (set yes1)) + card (insert (b_id n2) (set yes2)) =
      card (insert (b_id n1) (set yes1) \<union> insert (b_id n2) (set yes2))"
    using disj by (intro card_Un_disjoint [symmetric]) auto
  also have "\<dots> \<le> card M" using s1 s2 by (intro card_mono [OF fin]) auto
  finally have le: "card (insert (b_id n1) (set yes1)) + card (insert (b_id n2) (set yes2)) \<le> card M" .
  have "1 + length yes1 + (1 + length yes2) \<le> card M" using le s1 s2 by simp
  moreover have "card M + 1 \<le> 2 * (1 + length yes1)" "card M + 1 \<le> 2 * (1 + length yes2)" using s1 s2 by simp_all
  ultimately show False by simp
qed

section \<open>Properties\<close>

text \<open>A mesh of three nodes that know each other, for the witnesses.\<close>

definition trio_node :: "string \<Rightarrow> string \<Rightarrow> string \<Rightarrow> bft_node" where
  "trio_node i a b = register_peer b (Some b) (register_peer a (Some a) (new_node i))"

definition trio :: cluster where
  "trio = [''b'' \<mapsto> trio_node ''b'' ''a'' ''c'', ''c'' \<mapsto> trio_node ''c'' ''a'' ''b'']"

definition blank :: "json \<Rightarrow> string" where "blank = (\<lambda>_. [])"



text \<open>
  Two commits over the same membership share a voter: whatever the two proposals, some node
  voted for both (a voter is a proposer itself or one of its yes-voters).
\<close>

theorem quorums_intersect:
  assumes "node_ok n1" "propose (Some tr1) k1 v1 n1 w1 = (True, n1', w1')"
    and "node_ok n2" "propose (Some tr2) k2 v2 n2 w2 = (True, n2', w2')"
    and "insert (b_id n1) (fst ` set (b_peers n1)) = M" "insert (b_id n2) (fst ` set (b_peers n2)) = M"
    and "b_id n1 \<notin> fst ` set (b_peers n1)" "b_id n2 \<notin> fst ` set (b_peers n2)"
  shows "\<exists>yes1 yes2. set yes1 \<subseteq> set (eligible n1 (b_peers n1)) \<and> set yes2 \<subseteq> set (eligible n2 (b_peers n2)) \<and>
    quorum_for n1 \<le> 1 + length yes1 \<and> quorum_for n2 \<le> 1 + length yes2 \<and>
    insert (b_id n1) (set yes1) \<inter> insert (b_id n2) (set yes2) \<noteq> {}"
proof -
  obtain yes1 where y1: "distinct yes1" "set yes1 \<subseteq> set (eligible n1 (b_peers n1))" "quorum_for n1 \<le> 1 + length yes1"
    using majority_voters [OF assms(1,2)] by blast
  obtain yes2 where y2: "distinct yes2" "set yes2 \<subseteq> set (eligible n2 (b_peers n2))" "quorum_for n2 \<le> 1 + length yes2"
    using majority_voters [OF assms(3,4)] by blast
  have "insert (b_id n1) (set yes1) \<inter> insert (b_id n2) (set yes2) \<noteq> {}"
    by (rule quorum_sets_meet [OF assms(1,3,5-8)]) (use y1 y2 in auto)
  with y1 y2 show ?thesis by blast
qed

theorem quorums_intersect_witness:
  "\<exists>yes1 yes2. insert ''a'' (set yes1) \<inter> insert ''b'' (set yes2) \<noteq> {} \<and>
     set yes1 \<subseteq> {''b'', ''c''} \<and> set yes2 \<subseteq> {''a'', ''c''}"
proof -
  let ?a = "trio_node ''a'' ''b'' ''c''" and ?b = "trio_node ''b'' ''a'' ''c''"
  let ?w = "trio(''a'' \<mapsto> ?a)" and ?tr = "cluster_transport blank"
  obtain ok n' w' where p: "propose (Some ?tr) ''k'' ''v'' ?a ?w = (ok, n', w')" using prod_cases3 by blast
  obtain ok2 n2' w2' where p2: "propose (Some ?tr) ''k'' ''x'' ?b ?w = (ok2, n2', w2')" using prod_cases3 by blast
  have ok: "fst (propose (Some ?tr) ''k'' ''v'' ?a ?w)" "fst (propose (Some ?tr) ''k'' ''x'' ?b ?w)"
    and ids: "eligible ?a (b_peers ?a) = [''b'', ''c'']" "eligible ?b (b_peers ?b) = [''a'', ''c'']"
      "b_id ?a = ''a''" "b_id ?b = ''b''" "b_peers ?a = [(''b'', Some ''b''), (''c'', Some ''c'')]"
      "b_peers ?b = [(''a'', Some ''a''), (''c'', Some ''c'')]"
    by code_simp+
  have nodes: "node_ok ?a" "node_ok ?b" by (simp_all add: trio_node_def node_ok_register node_ok_new)
  from p p2 ok have "propose (Some ?tr) ''k'' ''v'' ?a ?w = (True, n', w')"
    "propose (Some ?tr) ''k'' ''x'' ?b ?w = (True, n2', w2')" by simp_all
  moreover have "insert (b_id ?a) (fst ` set (b_peers ?a)) = {''a'', ''b'', ''c''}"
    "insert (b_id ?b) (fst ` set (b_peers ?b)) = {''a'', ''b'', ''c''}"
    "b_id ?a \<notin> fst ` set (b_peers ?a)" "b_id ?b \<notin> fst ` set (b_peers ?b)"
    unfolding ids by auto
  ultimately show ?thesis
    using quorums_intersect [OF nodes(1) _ nodes(2)] unfolding ids(1-4) set_simps
    by (metis Int_commute)
qed

definition duo :: mesh where
  "duo = \<lparr>m_nodes = [''a'' \<mapsto> register_peer ''b'' (Some ''b'') (new_node ''a''),
                     ''b'' \<mapsto> register_peer ''a'' (Some ''a'') (new_node ''b'')],
          m_flights = [], m_chosen = {}\<rparr>"

definition race :: "command list" where
  "race = [Collect ''a'' ''k'' ''1'', Collect ''b'' ''k'' ''2'', Advance 0, Advance 1, Advance 0,
           Advance 1, Advance 1, Advance 0]"

definition ledger_at :: "string \<Rightarrow> string \<Rightarrow> mesh \<Rightarrow> string option" where
  "ledger_at u k m = Option.bind (m_nodes m u) (\<lambda>n. b_ledger n k)"

text \<open>
  C17: Agreement can fail. Although every commit needs a majority and majorities intersect, a
  node votes yes to every request whatever it voted or committed before: in a mesh of two
  honest nodes two proposals for one key both commit, both broadcasts arrive, and the ledgers
  end up different.
\<close>

theorem agreement_can_fail:
  "\<exists>m. mesh_run blank duo m \<and> m_flights m = [] \<and>
     ledger_at ''a'' ''k'' m = Some ''2'' \<and> ledger_at ''b'' ''k'' m = Some ''1''"
proof -
  have e: "map_option m_flights (exec_all blank race duo) = Some []"
    "Option.bind (exec_all blank race duo) (ledger_at ''a'' ''k'') = Some ''2''"
    "Option.bind (exec_all blank race duo) (ledger_at ''b'' ''k'') = Some ''1''"
    by code_simp+
  then obtain m where m: "exec_all blank race duo = Some m" by auto
  show ?thesis using e m exec_all_run [OF m run_refl] by auto
qed



text \<open>
  A commit replicates: when a proposal commits, the proposer holds the value, and so does
  every reachable peer that has the proposer registered.
\<close>

theorem commit_replicates:
  assumes "propose (Some (cluster_transport render)) key val n w = (True, n', w')"
    and "(pid, Some uri) \<in> set (b_peers n)" "uri \<noteq> []" "w uri = Some m" "b_id n \<in> set (map fst (b_peers m))"
  shows "b_ledger n' key = Some val \<and> (\<exists>m'. w' uri = Some m' \<and> b_ledger m' key = Some val)"
proof -
  from assms(1) obtain votes n1 w1 where c: "collect_votes (cluster_transport render) key val n w = (votes, n1, w1)"
    and n': "n' = commit_local key val n1" and w': "w' = broadcast_commit (cluster_transport render) key val n' w1"
    by (elim propose_cases) auto
  have w1: "w1 uri = Some m" using net.votes_frame [OF c] assms(4) by simp
  have p: "b_peers n' = b_peers n" "b_id n' = b_id n" using n' collect_votes_node [OF c] by simp_all
  from net.broadcast_syncs [where w = w1 and uri = uri and m = m and m0 = m and ps = "b_peers n" and n = n'
      and key = key and val = val and render = render] w1 assms(2,3)
  obtain m' where "w' uri = Some m'" "net.synced key val (b_id n') m m'"
    unfolding w' broadcast_commit_def p(1) by blast
  then show ?thesis using assms(5) p n' by (simp add: net.synced_def)
qed

theorem commit_replicates_witness:
  "\<exists>w'. map_option (\<lambda>m. b_ledger m ''k'') (w' ''c'') = Some (Some ''v'') \<and>
     w' = snd (snd (propose (Some (cluster_transport blank)) ''k'' ''v'' (trio_node ''a'' ''b'' ''c'') trio))"
proof -
  let ?n = "trio_node ''a'' ''b'' ''c''"
  obtain ok n' w' where p: "propose (Some (cluster_transport blank)) ''k'' ''v'' ?n trio = (ok, n', w')"
    using prod_cases3 by blast
  have f: "fst (propose (Some (cluster_transport blank)) ''k'' ''v'' ?n trio)" "b_id ?n = ''a''"
    "(''c'', Some ''c'') \<in> set (b_peers ?n)" "''a'' \<in> set (map fst (b_peers (trio_node ''c'' ''a'' ''b'')))"
    by code_simp+
  have t: "trio ''c'' = Some (trio_node ''c'' ''a'' ''b'')" by (simp add: trio_def)
  have "propose (Some (cluster_transport blank)) ''k'' ''v'' ?n trio = (True, n', w')" using p f(1) by simp
  from commit_replicates [OF this f(3) _ t] f(2,4) p show ?thesis by auto
qed

text \<open>
  Only registered peers write: an inbound message changes a node only if it is a commit
  whose sender is registered, and then it writes exactly that one entry.
\<close>

theorem only_registered_senders_write:
  assumes "handle_message render msg n = Ok (r, n')"
  shows "n' = n \<or>
    obj_get msg ''op'' = JStr OP_COMMIT \<and>
    py_str render (obj_get_or msg ''sender'' (JStr [])) \<in> set (map fst (b_peers n)) \<and>
    n' = commit_local (py_str render (obj_get_or msg ''key'' (JStr [])))
           (py_str render (obj_get_or msg ''value'' (JStr []))) n"
  using assms
  by (auto simp: handle_message_def apply_commit_def rbind_Inr_iff split: if_splits)

theorem only_registered_senders_write_witness:
  "\<exists>n'. handle_message blank [(''op'', JStr ''commit''), (''sender'', JStr ''evil''), (''key'', JStr ''k'')]
     (trio_node ''a'' ''b'' ''c'') = Ok (None, n') \<and> n' = trio_node ''a'' ''b'' ''c''"
proof -
  let ?msg = "[(''op'', JStr ''commit''), (''sender'', JStr ''evil''), (''key'', JStr ''k'')]"
  have h: "handle_message blank ?msg (trio_node ''a'' ''b'' ''c'') = Ok (None, trio_node ''a'' ''b'' ''c'')"
    by (simp add: handle_message_def obj_get_def obj_get_or_def OP_VOTE_REQUEST_def OP_COMMIT_def py_str_def
        apply_commit_def trio_node_def register_peer_def new_node_def)
  from only_registered_senders_write [OF h] h show ?thesis by blast
qed

end
