(* ===== verification/Telemetry.thy ===== *)
theory Telemetry
  imports PyFloat
begin

text \<open>
  Power telemetry of an edge node (\<open>mesh/mesh/microgrid/telemetry.py\<close>): validated samples in
  a bounded ring, and the health assessment of the latest one. \<open>now\<close> is the wall clock in
  milliseconds.
\<close>

definition GRID_ONGRID :: string where "GRID_ONGRID = ''ON_GRID''"
definition GRID_ISLANDED :: string where "GRID_ISLANDED = ''ISLANDED''"
definition GRID_OFFLINE :: string where "GRID_OFFLINE = ''OFFLINE''"
definition VOLT_NOMINAL_V :: pyfloat where "VOLT_NOMINAL_V = Fin 238"
definition VOLT_TOLERANCE :: pyfloat where "VOLT_TOLERANCE = lit (15 / 100)"
definition CURRENT_MAX_A :: pyfloat where "CURRENT_MAX_A = Fin 200"

record power_sample =
  w_node :: string
  w_voltage :: pyfloat
  w_current :: pyfloat
  w_grid :: string
  w_time :: int

text \<open>The pydantic model: field constraints, then the validator that refuses non-finite values.\<close>

definition sample_valid :: "power_sample \<Rightarrow> bool" where
  "sample_valid s \<longleftrightarrow>
     w_node s \<noteq> [] \<and> 0 < w_voltage s \<and> 0 \<le> w_current s \<and>
     w_grid s \<in> {GRID_ONGRID, GRID_ISLANDED, GRID_OFFLINE} \<and> 0 \<le> w_time s \<and>
     isfinite (w_voltage s) \<and> isfinite (w_current s)"

record grid_health =
  gh_under :: bool
  gh_over :: bool
  gh_current :: bool
  gh_islanded :: bool

definition is_degraded :: "grid_health \<Rightarrow> bool" where
  "is_degraded h \<longleftrightarrow> gh_under h \<or> gh_over h \<or> gh_current h \<or> gh_islanded h"

record telemetry =
  te_samples :: "power_sample list"
  te_max :: nat
  te_nominal :: pyfloat

definition new_telemetry :: "int \<Rightarrow> pyfloat \<Rightarrow> telemetry" where
  "new_telemetry max_samples nominal =
     \<lparr>te_samples = [], te_max = nat (max 1 max_samples), te_nominal = nominal\<rparr>"

definition push_sample :: "power_sample \<Rightarrow> telemetry \<Rightarrow> telemetry" where
  "push_sample s t =
     (let ss = te_samples t @ [s]
      in t\<lparr>te_samples := (if te_max t < length ss then lastn (te_max t) ss else ss)\<rparr>)"

definition record_sample ::
    "int \<Rightarrow> string \<Rightarrow> pyfloat \<Rightarrow> pyfloat \<Rightarrow> string \<Rightarrow> telemetry \<Rightarrow> (power_sample \<times> telemetry) result" where
  "record_sample now node v i grid t =
     (let s = \<lparr>w_node = node, w_voltage = v, w_current = i, w_grid = grid, w_time = now\<rparr>
      in if sample_valid s then Ok (s, push_sample s t) else Raise ValidationError)"

definition assess :: "telemetry \<Rightarrow> power_sample \<Rightarrow> grid_health" where
  "assess t s =
     (let lo = te_nominal t * (1 - VOLT_TOLERANCE); hi = te_nominal t * (1 + VOLT_TOLERANCE)
      in \<lparr>gh_under = (w_voltage s < lo), gh_over = (hi < w_voltage s),
          gh_current = (CURRENT_MAX_A < w_current s), gh_islanded = (w_grid s = GRID_ISLANDED)\<rparr>)"

text \<open>The keys \<open>last_voltage_v\<close> and \<open>last_current_a\<close> are missing from the empty snapshot.\<close>

record telemetry_snapshot =
  ts_samples :: nat
  ts_last :: "(pyfloat \<times> pyfloat) option"
  ts_power :: pyfloat
  ts_grid :: string
  ts_health :: grid_health
  ts_degraded :: bool

definition no_health :: grid_health where
  "no_health = \<lparr>gh_under = False, gh_over = False, gh_current = False, gh_islanded = False\<rparr>"

definition telemetry_snapshot :: "telemetry \<Rightarrow> telemetry_snapshot" where
  "telemetry_snapshot t =
     (if te_samples t = []
      then \<lparr>ts_samples = 0, ts_last = None, ts_power = 0, ts_grid = GRID_OFFLINE,
            ts_health = no_health, ts_degraded = is_degraded no_health\<rparr>
      else let s = last (te_samples t); h = assess t s
           in \<lparr>ts_samples = length (te_samples t), ts_last = Some (w_voltage s, w_current s),
               ts_power = py_round 3 (w_voltage s * w_current s), ts_grid = w_grid s,
               ts_health = h, ts_degraded = is_degraded h\<rparr>)"

text \<open>A feed of readings; a refused one leaves the ring as it was (the caller sees the error).\<close>

type_synonym reading = "int \<times> string \<times> pyfloat \<times> pyfloat \<times> string"

definition reading_sample :: "reading \<Rightarrow> power_sample" where
  "reading_sample r =
     (case r of (now, node, v, i, grid) \<Rightarrow>
        \<lparr>w_node = node, w_voltage = v, w_current = i, w_grid = grid, w_time = now\<rparr>)"

fun record_all :: "reading list \<Rightarrow> telemetry \<Rightarrow> telemetry" where
  "record_all [] t = t"
| "record_all ((now, node, v, i, grid) # rs) t =
     (case record_sample now node v i grid t of
        Inl _ \<Rightarrow> record_all rs t
      | Inr (_, t') \<Rightarrow> record_all rs t')"

interpretation ring: bounded_history push_sample te_samples te_max
  by unfold_locales (simp_all add: push_sample_def Let_def lastn_all)

lemma record_all_fold:
  "record_all rs t = fold push_sample (filter sample_valid (map reading_sample rs)) t"
  by (induction rs t rule: record_all.induct) (simp_all add: record_sample_def reading_sample_def Let_def)

section \<open>Properties\<close>

text \<open>
  Whatever readings arrive, NaN and infinite ones included, the ring holds exactly the
  newest \<open>max_samples\<close> of the valid ones (at least one slot, whatever maximum was asked for),
  so its memory is bounded for ever.
\<close>

theorem ring_holds_newest_valid:
  "te_samples (record_all rs (new_telemetry m nominal)) =
     lastn (nat (max 1 m)) (filter sample_valid (map reading_sample rs)) \<and>
   length (te_samples (record_all rs (new_telemetry m nominal))) \<le> nat (max 1 m) \<and>
   list_all sample_valid (te_samples (record_all rs (new_telemetry m nominal)))"
proof -
  have b: "ring.bounded (new_telemetry m nominal)" by (simp add: ring.bounded_def new_telemetry_def)
  have "te_samples (record_all rs (new_telemetry m nominal)) =
      lastn (nat (max 1 m)) (filter sample_valid (map reading_sample rs))"
    using ring.items_fold [OF b] by (simp add: record_all_fold new_telemetry_def)
  then show ?thesis
    using set_lastn [of "nat (max 1 m)" "filter sample_valid (map reading_sample rs)"]
    by (auto simp: list_all_iff)
qed

text \<open>
  The snapshot reports the sample just recorded: its grid state, its health, and a
  degraded grid exactly when the voltage left the tolerance band, the current exceeded the
  limit or the node is islanded; a refused sample changes nothing.
\<close>

theorem snapshot_reports_latest:
  "case record_sample now node v i grid t of
     Inl e \<Rightarrow> e = ValidationError \<and> \<not> sample_valid (reading_sample (now, node, v, i, grid))
   | Inr (s, t') \<Rightarrow>
       if 0 < te_max t
       then ts_last (telemetry_snapshot t') = Some (v, i) \<and> ts_grid (telemetry_snapshot t') = grid \<and>
         ts_samples (telemetry_snapshot t') = min (te_max t) (length (te_samples t) + 1) \<and>
         (ts_degraded (telemetry_snapshot t') \<longleftrightarrow>
            v < te_nominal t * (1 - VOLT_TOLERANCE) \<or> te_nominal t * (1 + VOLT_TOLERANCE) < v \<or>
            CURRENT_MAX_A < i \<or> grid = GRID_ISLANDED)
       else te_samples t' = []"
proof (cases "sample_valid (reading_sample (now, node, v, i, grid))")
  case True
  let ?s = "reading_sample (now, node, v, i, grid)"
  have r: "record_sample now node v i grid t = Ok (?s, push_sample ?s t)"
    using True by (simp add: record_sample_def reading_sample_def Let_def)
  have p: "te_samples (push_sample ?s t) = lastn (te_max t) (te_samples t @ [?s])"
    "te_nominal (push_sample ?s t) = te_nominal t"
    by (simp add: ring.items_push) (simp add: push_sample_def Let_def)
  show ?thesis
  proof (cases "0 < te_max t")
    case True
    then have "last (te_samples (push_sample ?s t)) = ?s" by (rule ring.newest_kept)
    moreover have "te_samples (push_sample ?s t) \<noteq> []" using p(1) True by simp
    ultimately show ?thesis
      using True p
      by (simp add: r telemetry_snapshot_def Let_def is_degraded_def assess_def reading_sample_def)
  next
    case False
    then show ?thesis using p(1) by (simp add: r)
  qed
next
  case False
  then show ?thesis by (simp add: record_sample_def reading_sample_def Let_def)
qed

end
