(* ===== verification/Pqc.thy ===== *)
theory Pqc
  imports Prelude
begin

text \<open>
  The signature engine of \<open>mesh/mesh/pqc_wrapper.py\<close>. The lattice library \<open>oqs\<close> is a
  parameter (its key pair, its signing and its verification, which may raise), and so are
  the standard library's HMAC and base64 on texts. The named hypotheses of the properties are
  what these document: a signature made with a key verifies under its public key, and base64
  decodes what it encoded and never contains a dot.
\<close>

definition PROVIDER_PLACEHOLDER :: string where "PROVIDER_PLACEHOLDER = ''placeholder-hmac-sha3-512''"
definition PROVIDER_LIBOQS :: string where "PROVIDER_LIBOQS = ''liboqs-crystals-dilithium3''"
definition SIG_PREFIX :: string where "SIG_PREFIX = ''pqc-dilithium3-''"

record crypto_lib =
  cl_available :: bool
  cl_keypair :: "string \<times> string"
  cl_sign :: "string \<Rightarrow> string \<Rightarrow> string"
  cl_verify :: "string \<Rightarrow> string \<Rightarrow> string \<Rightarrow> bool result"
  cl_hmac :: "string \<Rightarrow> string \<Rightarrow> string"
  cl_b64enc :: "string \<Rightarrow> string"
  cl_b64dec :: "string \<Rightarrow> string option"

record pqc_engine =
  pq_master :: string
  pq_provider :: string
  pq_public :: string
  pq_secret :: string
  pq_signer :: bool

text \<open>\<open>provider or (...)\<close>: \<open>None\<close> and the empty name choose the default.\<close>

definition requested_provider :: "crypto_lib \<Rightarrow> string option \<Rightarrow> string" where
  "requested_provider cl provider =
     (case provider of
        Some (c # cs) \<Rightarrow> c # cs
      | _ \<Rightarrow> if cl_available cl then PROVIDER_LIBOQS else PROVIDER_PLACEHOLDER)"

definition new_pqc :: "crypto_lib \<Rightarrow> string \<Rightarrow> string option \<Rightarrow> pqc_engine result" where
  "new_pqc cl seed provider =
     (let req = requested_provider cl provider
      in if req = PROVIDER_LIBOQS \<and> cl_available cl
         then Ok \<lparr>pq_master = seed, pq_provider = PROVIDER_LIBOQS, pq_public = fst (cl_keypair cl),
                 pq_secret = snd (cl_keypair cl), pq_signer = True\<rparr>
         else if req = PROVIDER_LIBOQS then Raise RuntimeError
         else Ok \<lparr>pq_master = seed, pq_provider = PROVIDER_PLACEHOLDER, pq_public = [], pq_secret = [],
                 pq_signer = False\<rparr>)"

definition is_post_quantum :: "pqc_engine \<Rightarrow> bool" where
  "is_post_quantum e \<longleftrightarrow> pq_provider e = PROVIDER_LIBOQS"

definition generate_signature :: "crypto_lib \<Rightarrow> pqc_engine \<Rightarrow> string \<Rightarrow> string" where
  "generate_signature cl e msg =
     (if is_post_quantum e \<and> pq_signer e
      then SIG_PREFIX @ cl_b64enc cl (pq_public e) @ ''.'' @ cl_b64enc cl (cl_sign cl (pq_secret e) msg)
      else SIG_PREFIX @ ''placeholder-'' @ cl_hmac cl (pq_master e) msg)"

text \<open>\<open>body.split(".", 1)\<close>, unpacked into exactly two parts.\<close>

fun split_dot :: "string \<Rightarrow> (string \<times> string) option" where
  "split_dot [] = None"
| "split_dot (c # cs) = (if c = CHR ''.'' then Some ([], cs) else map_option (map_prod ((#) c) id) (split_dot cs))"

definition verify_body :: "crypto_lib \<Rightarrow> string \<Rightarrow> string \<Rightarrow> bool" where
  "verify_body cl msg body =
     (case split_dot body of
        None \<Rightarrow> False
      | Some (pub, sig) \<Rightarrow>
          (case (cl_b64dec cl sig, cl_b64dec cl pub) of
             (Some raw, Some key) \<Rightarrow> (case cl_verify cl msg raw key of Inl _ \<Rightarrow> False | Inr b \<Rightarrow> b)
           | _ \<Rightarrow> False))"

definition verify_signature :: "crypto_lib \<Rightarrow> pqc_engine \<Rightarrow> string \<Rightarrow> string option \<Rightarrow> bool" where
  "verify_signature cl e msg signature =
     (case signature of
        None \<Rightarrow> False
      | Some sig \<Rightarrow>
          if take (length SIG_PREFIX) sig \<noteq> SIG_PREFIX then False
          else if is_post_quantum e \<and> pq_signer e then verify_body cl msg (drop (length SIG_PREFIX) sig)
          else generate_signature cl e msg = sig)"

definition close_engine :: "pqc_engine \<Rightarrow> pqc_engine" where
  "close_engine e = e\<lparr>pq_signer := False, pq_secret := []\<rparr>"

lemma split_dot_append: "CHR ''.'' \<notin> set xs \<Longrightarrow> split_dot (xs @ CHR ''.'' # ys) = Some (xs, ys)"
  by (induction xs) auto

section \<open>Properties\<close>

text \<open>
  Signing and verifying round-trip, on either provider: what an engine signed it verifies,
  provided the lattice library accepts its own signatures and base64 decodes what it encoded
  (without dots).
\<close>

theorem signature_roundtrip:
  assumes "new_pqc cl seed provider = Ok e"
    and "\<And>msg. cl_verify cl msg (cl_sign cl (snd (cl_keypair cl)) msg) (fst (cl_keypair cl)) = Ok True"
    and "\<And>x. cl_b64dec cl (cl_b64enc cl x) = Some x" "\<And>x. CHR ''.'' \<notin> set (cl_b64enc cl x)"
  shows "verify_signature cl e msg (Some (generate_signature cl e msg))"
proof (cases "is_post_quantum e \<and> pq_signer e")
  case True
  then have "pq_public e = fst (cl_keypair cl)" "pq_secret e = snd (cl_keypair cl)"
    using assms(1) by (auto simp: new_pqc_def Let_def split: if_splits)
  then show ?thesis
    using True assms(2,3) split_dot_append [OF assms(4)]
    by (simp add: verify_signature_def generate_signature_def verify_body_def)
qed (auto simp: verify_signature_def generate_signature_def)

fun escape :: "string \<Rightarrow> string" where
  "escape [] = []"
| "escape (c # cs) =
     (if c = CHR ''.'' then CHR ''a'' # CHR ''b'' # escape cs
      else if c = CHR ''a'' then CHR ''a'' # CHR ''a'' # escape cs else c # escape cs)"

fun unescape :: "string \<Rightarrow> string" where
  "unescape (c # d # cs) =
     (if c = CHR ''a'' then (if d = CHR ''b'' then CHR ''.'' else d) # unescape cs else c # unescape (d # cs))"
| "unescape cs = cs"

definition toy_lib :: crypto_lib where
  "toy_lib =
     \<lparr>cl_available = True, cl_keypair = (''pk'', ''sk''), cl_sign = (\<lambda>k m. k @ m),
      cl_verify = (\<lambda>m s k. Ok (k = ''pk'' \<and> s = ''sk'' @ m)), cl_hmac = (\<lambda>k m. k @ m),
      cl_b64enc = escape, cl_b64dec = (\<lambda>s. Some (unescape s))\<rparr>"

lemma escape_inverse: "unescape (escape x) = x" "CHR ''.'' \<notin> set (escape x)"
proof -
  have c: "unescape (c # escape cs) = c # unescape (escape cs)" if "c \<noteq> CHR ''a''" for c cs
    using that by (cases "escape cs") auto
  show "unescape (escape x) = x" by (induction x) (auto simp: c)
  show "CHR ''.'' \<notin> set (escape x)" by (induction x) auto
qed

theorem signature_roundtrip_witness:
  "\<exists>e. new_pqc toy_lib ''seed'' None = Ok e \<and> is_post_quantum e \<and>
     verify_signature toy_lib e ''pay 1.5'' (Some (generate_signature toy_lib e ''pay 1.5''))"
proof -
  obtain e where e: "new_pqc toy_lib ''seed'' None = Ok e" "is_post_quantum e"
    by (auto simp: new_pqc_def requested_provider_def toy_lib_def is_post_quantum_def)
  then show ?thesis
    using signature_roundtrip [OF e(1)] escape_inverse by (simp add: toy_lib_def)
qed

text \<open>
  No silent downgrade at construction: asking for the lattice provider either gives a
  post-quantum engine or raises, and a text without the prefix never verifies; a placeholder
  engine accepts exactly its own signature of the message.
\<close>

theorem no_silent_downgrade:
  "(case new_pqc cl seed (Some PROVIDER_LIBOQS) of
      Inl err \<Rightarrow> \<not> cl_available cl \<and> err = RuntimeError
    | Inr e \<Rightarrow> cl_available cl \<and> is_post_quantum e) \<and>
   (case new_pqc cl seed (Some PROVIDER_PLACEHOLDER) of
      Inl err \<Rightarrow> False
    | Inr e \<Rightarrow> \<not> is_post_quantum e \<and>
        verify_signature cl e msg (Some sig) = (sig = SIG_PREFIX @ ''placeholder-'' @ cl_hmac cl seed msg))"
  by (auto simp: new_pqc_def requested_provider_def is_post_quantum_def PROVIDER_LIBOQS_def
      PROVIDER_PLACEHOLDER_def verify_signature_def generate_signature_def)

text \<open>
  A closed engine does downgrade: after \<open>close\<close> it still reports to be post-quantum, but
  signs with the placeholder, and verifies those signatures only.
\<close>

theorem closed_engine_downgrades:
  assumes "is_post_quantum e"
  shows "is_post_quantum (close_engine e) \<and>
    generate_signature cl (close_engine e) msg = SIG_PREFIX @ ''placeholder-'' @ cl_hmac cl (pq_master e) msg \<and>
    verify_signature cl (close_engine e) msg (Some (generate_signature cl (close_engine e) msg))"
  using assms by (simp add: close_engine_def is_post_quantum_def generate_signature_def verify_signature_def)

theorem closed_engine_downgrades_witness:
  "\<exists>e. new_pqc toy_lib ''seed'' None = Ok e \<and>
     generate_signature toy_lib (close_engine e) ''m'' = SIG_PREFIX @ ''placeholder-seedm''"
proof -
  obtain e where e: "new_pqc toy_lib ''seed'' None = Ok e" "is_post_quantum e" "pq_master e = ''seed''"
    by (auto simp: new_pqc_def requested_provider_def toy_lib_def is_post_quantum_def)
  then show ?thesis using closed_engine_downgrades [OF e(2), of toy_lib "''m''"] by (simp add: toy_lib_def)
qed

end
