(* ===== verification/Pullback.thy ===== *)
theory Pullback
  imports Candles
begin

text \<open>
  The pullback tracker of \<open>cortex/cortex/pullback.py\<close>: the state machine over an impulse leg,
  its bull and bear halves, the survived depths. The lemmas give its invariant, the exact
  symmetry of the two halves under mirroring of prices, and what each reported event means.
\<close>

section \<open>State\<close>

datatype pullback_state = PB_ALIGNED | PB_ARMED | PB_RESUMED | PB_BROKEN
datatype pullback_event = Broken | Resumed | Armed

record tracker =
  pb_min_impulse :: pyfloat
  pb_min_depth :: pyfloat
  pb_max_depth :: pyfloat
  pb_buffer :: pyfloat
  pb_direction :: int
  pb_origin :: pyfloat
  pb_extreme :: pyfloat
  pb_retrace :: "pyfloat option"
  pb_state :: pullback_state
  pb_alive :: "pyfloat list"
  pb_atr :: pyfloat

definition new_tracker :: "pyfloat \<Rightarrow> pyfloat \<Rightarrow> pyfloat \<Rightarrow> pyfloat \<Rightarrow> tracker" where
  "new_tracker min_impulse min_depth max_depth buf =
     \<lparr>pb_min_impulse = min_impulse, pb_min_depth = min_depth, pb_max_depth = max_depth, pb_buffer = buf,
      pb_direction = 0, pb_origin = 0, pb_extreme = 0, pb_retrace = None, pb_state = PB_ALIGNED,
      pb_alive = [], pb_atr = 0\<rparr>"

definition default_tracker :: tracker where
  "default_tracker = new_tracker 1 (lit (25 / 100)) (lit (65 / 100)) (lit (3 / 10))"

section \<open>Operations\<close>

definition depth_of :: "tracker \<Rightarrow> pyfloat \<Rightarrow> pyfloat" where
  "depth_of t price =
     (let leg = \<bar>pb_extreme t - pb_origin t\<bar>
      in if leg \<le> 0 then 0
         else if 0 < pb_direction t then (pb_extreme t - price) / leg else (price - pb_extreme t) / leg)"

text \<open>\<open>cap\<close> is 200 at every call.\<close>

definition push_alive :: "pyfloat \<Rightarrow> tracker \<Rightarrow> tracker" where
  "push_alive x t =
     (let xs = pb_alive t @ [x] in t\<lparr>pb_alive := (if 200 < length xs then lastn 200 xs else xs)\<rparr>)"

definition record_alive :: "pyfloat \<Rightarrow> tracker \<Rightarrow> tracker" where
  "record_alive x t = (if 0 < x \<and> x < 1 then push_alive x t else t)"

text \<open>The three things a step does beyond changing the state: resume, extend, deepen.\<close>

definition resume_leg :: "pyfloat \<Rightarrow> tracker \<Rightarrow> tracker" where
  "resume_leg extreme t =
     (let r = the (pb_retrace t)
      in (record_alive (depth_of t r) t)
           \<lparr>pb_state := PB_ALIGNED, pb_origin := r, pb_extreme := extreme, pb_retrace := None\<rparr>)"

definition extend_leg :: "pyfloat \<Rightarrow> tracker \<Rightarrow> tracker" where
  "extend_leg extreme t = t\<lparr>pb_state := PB_ALIGNED, pb_extreme := extreme, pb_retrace := None\<rparr>"

definition arm :: "pyfloat \<Rightarrow> tracker \<Rightarrow> pullback_event option \<times> tracker" where
  "arm price t =
     (let depth = depth_of t price
      in if pb_min_depth t \<le> depth \<and> depth < pb_max_depth t
         then (Some Armed, t\<lparr>pb_state := PB_ARMED, pb_retrace := Some price\<rparr>)
         else (None, t))"

definition step_bull :: "candle \<Rightarrow> pyfloat \<Rightarrow> tracker \<Rightarrow> pullback_event option \<times> tracker" where
  "step_bull c atr t =
     (let leg = pb_extreme t - pb_origin t
      in if c_close c < pb_origin t then (Some Broken, t\<lparr>pb_state := PB_BROKEN\<rparr>)
         else if pb_extreme t + pb_buffer t * atr < c_high c
         then if pb_state t = PB_ARMED \<and> pb_retrace t \<noteq> None
              then (Some Resumed, resume_leg (py_max (pb_extreme t) (c_high c)) t)
              else (None, extend_leg (py_max (pb_extreme t) (c_high c)) t)
         else if pb_state t = PB_ALIGNED \<and> c_low c < pb_extreme t \<and> pb_min_impulse t * atr \<le> leg
         then arm (c_low c) t
         else if pb_state t = PB_ARMED \<and> (pb_retrace t = None \<or> c_low c < the (pb_retrace t))
         then (None, t\<lparr>pb_retrace := Some (c_low c)\<rparr>)
         else (None, t))"

definition step_bear :: "candle \<Rightarrow> pyfloat \<Rightarrow> tracker \<Rightarrow> pullback_event option \<times> tracker" where
  "step_bear c atr t =
     (let leg = pb_origin t - pb_extreme t
      in if pb_origin t < c_close c then (Some Broken, t\<lparr>pb_state := PB_BROKEN\<rparr>)
         else if c_low c < pb_extreme t - pb_buffer t * atr
         then if pb_state t = PB_ARMED \<and> pb_retrace t \<noteq> None
              then (Some Resumed, resume_leg (py_min (pb_extreme t) (c_low c)) t)
              else (None, extend_leg (py_min (pb_extreme t) (c_low c)) t)
         else if pb_state t = PB_ALIGNED \<and> pb_extreme t < c_high c \<and> pb_min_impulse t * atr \<le> leg
         then arm (c_high c) t
         else if pb_state t = PB_ARMED \<and> (pb_retrace t = None \<or> the (pb_retrace t) < c_high c)
         then (None, t\<lparr>pb_retrace := Some (c_high c)\<rparr>)
         else (None, t))"

definition start_leg :: "candle \<Rightarrow> pyfloat \<Rightarrow> tracker \<Rightarrow> tracker" where
  "start_leg c atr t =
     (let body = c_close c - c_open c
      in if lit (1 / 2) * atr \<le> \<bar>body\<bar>
         then t\<lparr>pb_direction := (if 0 < body then 1 else - 1), pb_origin := c_open c,
                pb_extreme := (if 0 < body then c_high c else c_low c)\<rparr>
         else t)"

definition update :: "candle \<Rightarrow> pyfloat \<Rightarrow> tracker \<Rightarrow> pullback_event option \<times> tracker" where
  "update c atr t0 =
     (let t = t0\<lparr>pb_atr := atr\<rparr>
      in if atr \<le> 0 then (None, t)
         else if pb_direction t = 0 then (None, start_leg c atr t)
         else if 0 < pb_direction t then step_bull c atr t
         else step_bear c atr t)"

fun update_all :: "(candle \<times> pyfloat) list \<Rightarrow> tracker \<Rightarrow> tracker" where
  "update_all [] t = t"
| "update_all ((c, atr) # cs) t = update_all cs (snd (update c atr t))"

text \<open>\<open>sorted\<close> does not change the number of depths below the ratio.\<close>

definition percentile :: "tracker \<Rightarrow> pyfloat \<Rightarrow> pyfloat" where
  "percentile t x =
     (if pb_alive t = [] then lit (1 / 2)
      else py_sum (map (\<lambda>_. 1) (filter (\<lambda>d. d < x) (pb_alive t))) / float_of_nat (length (pb_alive t)))"

definition current_depth :: "tracker \<Rightarrow> pyfloat option" where
  "current_depth t =
     (if pb_state t \<noteq> PB_ARMED then None else map_option (depth_of t) (pb_retrace t))"

text \<open>\<open>impulse_atr\<close> is \<open>n/a\<close> (here \<open>None\<close>) while no range is known.\<close>

record tracker_snapshot =
  ps_state :: pullback_state
  ps_direction :: int
  ps_impulse_atr :: "pyfloat option"
  ps_current_depth :: "pyfloat option"
  ps_alive :: nat

definition tracker_snapshot :: "tracker \<Rightarrow> tracker_snapshot" where
  "tracker_snapshot t =
     \<lparr>ps_state = pb_state t, ps_direction = pb_direction t,
      ps_impulse_atr = (if pb_atr t \<noteq> 0
        then Some (py_round 3 (\<bar>pb_extreme t - pb_origin t\<bar> / pb_atr t)) else None),
      ps_current_depth = map_option (py_round 3) (current_depth t), ps_alive = length (pb_alive t)\<rparr>"

definition reset :: "tracker \<Rightarrow> tracker" where
  "reset t = t\<lparr>pb_direction := 0, pb_origin := 0, pb_extreme := 0, pb_retrace := None,
               pb_state := PB_ALIGNED, pb_alive := []\<rparr>"

section \<open>Invariant\<close>

interpretation alive: bounded_history push_alive pb_alive "\<lambda>_. 200"
  by unfold_locales (simp_all add: push_alive_def Let_def lastn_all)

lemma push_alive_simps [simp]:
  "pb_direction (push_alive x t) = pb_direction t" "pb_state (push_alive x t) = pb_state t"
  "pb_retrace (push_alive x t) = pb_retrace t"
  by (simp_all add: push_alive_def Let_def)

definition depths_ok :: "tracker \<Rightarrow> bool" where
  "depths_ok t \<longleftrightarrow> length (pb_alive t) \<le> 200 \<and> list_all (\<lambda>d. 0 < d \<and> d < 1) (pb_alive t)"

definition tracker_ok :: "tracker \<Rightarrow> bool" where
  "tracker_ok t \<longleftrightarrow>
     pb_direction t \<in> {- 1, 0, 1} \<and> pb_state t \<noteq> PB_RESUMED \<and>
     (pb_state t = PB_ARMED \<longrightarrow> pb_retrace t \<noteq> None) \<and>
     (pb_direction t = 0 \<longrightarrow> pb_state t = PB_ALIGNED \<and> pb_retrace t = None) \<and> depths_ok t"

lemma tracker_ok_new: "tracker_ok (new_tracker a b c d)"
  by (simp add: tracker_ok_def new_tracker_def depths_ok_def)

lemma depths_ok_record: "depths_ok t \<Longrightarrow> depths_ok (record_alive x t)"
  using alive.items_push [of x t] set_lastn [of 200 "pb_alive t @ [x]"]
  by (auto simp: record_alive_def depths_ok_def list_all_iff)

lemma record_alive_simps [simp]:
  "pb_direction (record_alive x t) = pb_direction t"
  by (simp add: record_alive_def)

lemma depths_ok_cong: "pb_alive t' = pb_alive t \<Longrightarrow> depths_ok t' = depths_ok t"
  by (simp add: depths_ok_def)

lemma tracker_ok_parts:
  assumes "tracker_ok t" "pb_direction t \<noteq> 0"
  shows "tracker_ok (t\<lparr>pb_state := PB_BROKEN\<rparr>)" "tracker_ok (resume_leg x t)" "tracker_ok (extend_leg x t)"
    "tracker_ok (snd (arm p t))" "pb_state t = PB_ARMED \<Longrightarrow> tracker_ok (t\<lparr>pb_retrace := Some p\<rparr>)"
proof -
  show "tracker_ok (t\<lparr>pb_state := PB_BROKEN\<rparr>)" using assms by (simp add: tracker_ok_def depths_ok_def)
  show "tracker_ok (resume_leg x t)"
    using assms depths_ok_record [of t "depth_of t (the (pb_retrace t))"]
    by (simp add: tracker_ok_def resume_leg_def Let_def depths_ok_def)
  show "tracker_ok (extend_leg x t)" using assms by (simp add: tracker_ok_def extend_leg_def depths_ok_def)
  show "tracker_ok (snd (arm p t))" using assms by (simp add: tracker_ok_def arm_def Let_def depths_ok_def)
  show "tracker_ok (t\<lparr>pb_retrace := Some p\<rparr>)" if "pb_state t = PB_ARMED"
    using assms that by (simp add: tracker_ok_def depths_ok_def)
qed

lemma tracker_ok_step:
  assumes "tracker_ok t" "pb_direction t \<noteq> 0"
  shows "tracker_ok (snd (step_bull c atr t))" "tracker_ok (snd (step_bear c atr t))"
  using assms by (simp_all add: step_bull_def step_bear_def Let_def tracker_ok_parts)

lemma tracker_ok_update: "tracker_ok t \<Longrightarrow> tracker_ok (snd (update c atr t))"
proof -
  assume ok: "tracker_ok t"
  then have a: "tracker_ok (t\<lparr>pb_atr := atr\<rparr>)" by (simp add: tracker_ok_def depths_ok_def)
  show ?thesis
  proof (cases "pb_direction t = 0")
    case True
    then show ?thesis
      using ok by (simp add: update_def Let_def start_leg_def tracker_ok_def depths_ok_def)
  next
    case False
    with a show ?thesis by (simp add: update_def Let_def tracker_ok_step)
  qed
qed

lemma tracker_ok_update_all: "tracker_ok t \<Longrightarrow> tracker_ok (update_all cs t)"
  by (induction cs t rule: update_all.induct) (simp_all add: tracker_ok_update)

section \<open>Mirroring\<close>

text \<open>The same market seen upside down: prices negated, highs and lows exchanged.\<close>

definition mirror_candle :: "candle \<Rightarrow> candle" where
  "mirror_candle c =
     c\<lparr>c_open := - c_open c, c_high := - c_low c, c_low := - c_high c, c_close := - c_close c\<rparr>"

definition mirror :: "tracker \<Rightarrow> tracker" where
  "mirror t =
     t\<lparr>pb_direction := - pb_direction t, pb_origin := - pb_origin t, pb_extreme := - pb_extreme t,
       pb_retrace := map_option uminus (pb_retrace t)\<rparr>"

lemma mirror_simps [simp]:
  "pb_direction (mirror t) = - pb_direction t" "pb_origin (mirror t) = - pb_origin t"
  "pb_extreme (mirror t) = - pb_extreme t" "pb_retrace (mirror t) = map_option uminus (pb_retrace t)"
  "pb_state (mirror t) = pb_state t" "pb_alive (mirror t) = pb_alive t" "pb_buffer (mirror t) = pb_buffer t"
  "pb_min_depth (mirror t) = pb_min_depth t" "pb_max_depth (mirror t) = pb_max_depth t"
  "pb_min_impulse (mirror t) = pb_min_impulse t"
  "c_open (mirror_candle c) = - c_open c" "c_high (mirror_candle c) = - c_low c"
  "c_low (mirror_candle c) = - c_high c" "c_close (mirror_candle c) = - c_close c"
  by (simp_all add: mirror_def mirror_candle_def)

lemma float_neg_less [simp]: "- a < - b \<longleftrightarrow> b < (a :: pyfloat)"
  by (cases a; cases b) auto

lemma float_neg_le [simp]: "- a \<le> - b \<longleftrightarrow> b \<le> (a :: pyfloat)"
  by (cases a; cases b) auto

lemma float_neg_diff: "- a - - b = - (a - (b :: pyfloat))"
  by (cases a; cases b) (auto simp: minus_pyfloat_def to_f64_minus [symmetric])

lemma float_diff_neg: "- (a - b) = b - (a :: pyfloat)"
  by (cases a; cases b) (auto simp: minus_pyfloat_def to_f64_minus [symmetric])

lemma float_neg_minus: "- a - b = - (a + (b :: pyfloat))"
  by (cases a; cases b) (auto simp: minus_pyfloat_def to_f64_minus [symmetric])

lemma float_abs_neg [simp]: "\<bar>- a\<bar> = \<bar>a :: pyfloat\<bar>"
  by (cases a) auto

lemma float_neg_neg [simp]: "- (- a) = (a :: pyfloat)"
  by (cases a) auto

lemma depth_mirror: "pb_direction t \<noteq> 0 \<Longrightarrow> depth_of (mirror t) (- p) = depth_of t p"
proof -
  have abs: "\<bar>- pb_extreme t - - pb_origin t\<bar> = \<bar>pb_extreme t - pb_origin t\<bar>"
    by (simp only: float_neg_diff float_abs_neg)
  have swap: "- x - - y = y - x" for x y :: pyfloat
    by (simp only: float_neg_diff float_diff_neg)
  show "pb_direction t \<noteq> 0 \<Longrightarrow> ?thesis"
    unfolding depth_of_def mirror_simps abs by (auto simp: Let_def swap)
qed

lemma push_alive_mirror: "push_alive x (mirror t) = mirror (push_alive x t)"
  by (simp add: push_alive_def mirror_def Let_def)

lemma record_alive_mirror: "record_alive x (mirror t) = mirror (record_alive x t)"
  by (simp add: record_alive_def push_alive_mirror)

lemma mirror_updates:
  "mirror (t\<lparr>pb_state := PB_ALIGNED, pb_origin := r, pb_extreme := x, pb_retrace := None\<rparr>) =
     (mirror t)\<lparr>pb_state := PB_ALIGNED, pb_origin := - r, pb_extreme := - x, pb_retrace := None\<rparr>"
  "mirror (t\<lparr>pb_state := PB_ARMED, pb_retrace := Some r\<rparr>) =
     (mirror t)\<lparr>pb_state := PB_ARMED, pb_retrace := Some (- r)\<rparr>"
  by (simp_all add: mirror_def)

lemma resume_mirror:
  assumes "pb_direction t \<noteq> 0" "pb_retrace t = Some r"
  shows "resume_leg (- x) (mirror t) = mirror (resume_leg x t)"
  unfolding resume_leg_def Let_def mirror_updates
  by (simp add: assms depth_mirror record_alive_mirror)

lemma extend_mirror: "extend_leg (- x) (mirror t) = mirror (extend_leg x t)"
  by (simp add: extend_leg_def mirror_def)

lemma arm_mirror: "pb_direction t \<noteq> 0 \<Longrightarrow> arm (- p) (mirror t) = map_prod id mirror (arm p t)"
  unfolding arm_def Let_def by (simp add: depth_mirror mirror_updates)

lemma step_mirror:
  assumes "pb_direction t \<noteq> 0"
  shows "step_bear (mirror_candle c) atr (mirror t) = map_prod id mirror (step_bull c atr t)"
    "step_bull (mirror_candle c) atr (mirror t) = map_prod id mirror (step_bear c atr t)"
proof -
  have swap: "- x - - y = y - x" for x y :: pyfloat
    by (simp only: float_neg_diff float_diff_neg)
  have brk: "(mirror t)\<lparr>pb_state := PB_BROKEN\<rparr> = mirror (t\<lparr>pb_state := PB_BROKEN\<rparr>)"
    and ret: "(mirror t)\<lparr>pb_retrace := Some (- p)\<rparr> = mirror (t\<lparr>pb_retrace := Some p\<rparr>)" for p
    by (simp_all add: mirror_def)
  have ext: "py_min (- a) (- b) = - py_max a b" "py_max (- a) (- b) = - py_min a b" for a b
    by (rule py_min_minus py_max_minus)+
  have hi: "- x < - a - b \<longleftrightarrow> a + b < x" "- a + b < - x \<longleftrightarrow> x < a - b" for a b x :: pyfloat
  proof -
    show "- x < - a - b \<longleftrightarrow> a + b < x" by (simp only: float_neg_minus float_neg_less)
    have "- a + b = - (a - b)"
      by (cases a; cases b) (auto simp: minus_pyfloat_def to_f64_minus [symmetric])
    then show "- a + b < - x \<longleftrightarrow> x < a - b" by (simp only: float_neg_less)
  qed
  show "step_bear (mirror_candle c) atr (mirror t) = map_prod id mirror (step_bull c atr t)"
    using assms
    by (cases "pb_retrace t")
      (auto simp: step_bear_def step_bull_def Let_def swap ext hi brk ret arm_mirror resume_mirror extend_mirror)
  show "step_bull (mirror_candle c) atr (mirror t) = map_prod id mirror (step_bear c atr t)"
    using assms
    by (cases "pb_retrace t")
      (auto simp: step_bear_def step_bull_def Let_def swap ext hi brk ret arm_mirror resume_mirror extend_mirror)
qed

section \<open>Properties\<close>

text \<open>
  The tracker's invariant, after any candles and ranges whatever (NaN included): an armed
  tracker knows its retracement, a tracker without a direction is aligned, the documented state
  \<open>RESUMED\<close> is never entered, at most 200 depths are kept and every one lies strictly between
  0 and 1.
\<close>

theorem tracker_invariant: "tracker_ok (update_all cs (new_tracker a b c d))"
  by (rule tracker_ok_update_all [OF tracker_ok_new])

text \<open>
  C37: The bear half is exactly the bull half seen upside down: on a mirrored candle a mirrored
  tracker reports the same event and moves to the mirrored state, rounding errors included. (A
  tracker that still waits for its first leg is the exception: a zero body counts as bearish.)
\<close>

theorem update_mirrors:
  assumes "pb_direction t \<noteq> 0"
  shows "update (mirror_candle c) atr (mirror t) = map_prod id mirror (update c atr t)"
proof -
  have a: "(mirror t)\<lparr>pb_atr := atr\<rparr> = mirror (t\<lparr>pb_atr := atr\<rparr>)" by (simp add: mirror_def)
  show ?thesis
    using assms by (auto simp: update_def Let_def a step_mirror)
qed

definition bull_tracker :: tracker where
  "bull_tracker = snd (update \<lparr>c_open = Fin 10, c_high = Fin 20, c_low = Fin 10, c_close = Fin 20,
     c_t_open = 0, c_t_close = 1, c_volume = 1\<rparr> (Fin 4) (new_tracker 1 (Fin (1 / 4)) (Fin (3 / 4)) (Fin (1 / 2))))"

definition dip :: candle where
  "dip = \<lparr>c_open = Fin 20, c_high = Fin 20, c_low = Fin 16, c_close = Fin 17, c_t_open = 1,
     c_t_close = Fin 2, c_volume = 1\<rparr>"

theorem update_mirrors_witness:
  "fst (update dip (Fin 4) bull_tracker) = Some Armed \<and>
   fst (update (mirror_candle dip) (Fin 4) (mirror bull_tracker)) = Some Armed"
proof -
  have "fst (update dip (Fin 4) bull_tracker) = Some Armed" "pb_direction bull_tracker \<noteq> 0"
    by code_simp+
  then show ?thesis using update_mirrors [of bull_tracker dip "Fin 4"] by simp
qed

text \<open>
  What the events mean. \<open>Armed\<close>: an aligned leg of at least the minimal impulse whose
  retracement depth lies in the healthy zone; the retracement is recorded. \<open>Resumed\<close>: an armed
  leg whose extreme was exceeded by more than the buffer; the next leg starts at the old
  retracement. \<open>Broken\<close>: the close is beyond the leg's origin, and nothing but the state
  changes.
\<close>

theorem events_mean:
  assumes "update c atr t = (Some e, t')" "0 < pb_direction t"
  shows "case e of
      Armed \<Rightarrow> pb_state t = PB_ALIGNED \<and> pb_state t' = PB_ARMED \<and> pb_retrace t' = Some (c_low c) \<and>
        pb_min_impulse t * atr \<le> pb_extreme t - pb_origin t \<and> c_low c < pb_extreme t \<and>
        pb_min_depth t \<le> depth_of t (c_low c) \<and> depth_of t (c_low c) < pb_max_depth t
    | Resumed \<Rightarrow> pb_state t = PB_ARMED \<and> pb_state t' = PB_ALIGNED \<and> pb_retrace t = Some (pb_origin t') \<and>
        pb_extreme t + pb_buffer t * atr < c_high c \<and> pb_retrace t' = None \<and>
        pb_extreme t' = py_max (pb_extreme t) (c_high c)
    | Broken \<Rightarrow> c_close c < pb_origin t \<and> t' = t\<lparr>pb_atr := atr, pb_state := PB_BROKEN\<rparr>"
proof -
  have d: "depth_of (t\<lparr>pb_atr := atr\<rparr>) p = depth_of t p" for p by (simp add: depth_of_def Let_def)
  have s: "step_bull c atr (t\<lparr>pb_atr := atr\<rparr>) = (Some e, t')"
    using assms by (auto simp: update_def Let_def split: if_splits)
  show ?thesis
    using s d
    by (cases e) (auto simp: step_bull_def Let_def arm_def resume_leg_def split: if_splits)
qed

theorem events_mean_witness:
  "pb_state bull_tracker = PB_ALIGNED \<and> depth_of bull_tracker (c_low dip) < pb_max_depth bull_tracker"
proof -
  have e: "fst (update dip (Fin 4) bull_tracker) = Some Armed" "0 < pb_direction bull_tracker" by code_simp+
  then obtain t' where "update dip (Fin 4) bull_tracker = (Some Armed, t')"
    by (cases "update dip (Fin 4) bull_tracker") auto
  from events_mean [OF this e(2)] show ?thesis by simp
qed

text \<open>
  The depth percentile of any tracker that was fed candles is a fraction between 0 and 1,
  and exactly one half while no pullback survived.
\<close>

theorem percentile_is_fraction:
  "0 \<le> percentile (update_all cs (new_tracker a b c d)) x \<and>
   percentile (update_all cs (new_tracker a b c d)) x \<le> 1 \<and>
   (if pb_alive (update_all cs (new_tracker a b c d)) = []
    then percentile (update_all cs (new_tracker a b c d)) x = Fin (1 / 2) else True)"
proof -
  let ?t = "update_all cs (new_tracker a b c d)"
  let ?m = "length (filter (\<lambda>d. d < x) (pb_alive ?t))" and ?n = "length (pb_alive ?t)"
  have n: "int ?n \<le> 2 ^ 53" "?m \<le> ?n"
    using tracker_ok_update_all [OF tracker_ok_new, of cs a b c d] by (auto simp: tracker_ok_def depths_ok_def)
  have half: "lit (1 / 2) = Fin (1 / 2)" by (rule to_f64_dyadic [of _ 1 2]) code_simp+
  have s: "py_sum (map (\<lambda>_. 1) (filter (\<lambda>d. d < x) (pb_alive ?t))) = float_of_nat ?m"
    using py_sum_ones [of ?m] n order_trans [of ?m ?n "2 ^ 53"] by (simp add: map_replicate_const)
  show ?thesis
  proof (cases "pb_alive ?t = []")
    case False
    then show ?thesis
      using fraction_unit [OF n(2) _ n(1)] by (simp add: percentile_def s)
  qed (simp add: percentile_def half one_pyfloat_def)
qed

end
