(* ===== verification/Patterns.thy ===== *)
theory Patterns
  imports Candles
begin

text \<open>
  Bar anatomy and the pattern interpreter of \<open>cortex/cortex/event_engine.py\<close>
  (\<open>BarFeatures\<close>, \<open>PatternSpec\<close>, \<open>PatternMatcher\<close>, \<open>SEED_PATTERNS\<close>). A condition is a
  record of the four keys the schema documents; an unknown feature, operator or bar index
  raises, as in the source.
\<close>

section \<open>Bar features\<close>

record bar =
  bf_candle :: candle
  bf_body :: pyfloat
  bf_body_abs :: pyfloat
  bf_rng :: pyfloat
  bf_body_ratio :: pyfloat
  bf_upper_wick :: pyfloat
  bf_lower_wick :: pyfloat
  bf_uw_ratio :: pyfloat
  bf_lw_ratio :: pyfloat
  bf_direction :: int
  bf_atr_scale :: pyfloat

definition bar_features :: "candle \<Rightarrow> pyfloat \<Rightarrow> bar" where
  "bar_features c atr =
     (let body = c_close c - c_open c;
          hi = py_max (c_open c) (c_close c);
          lo = py_min (c_open c) (c_close c);
          rng = py_max (c_high c - c_low c) (lit (1 / 10 ^ 12));
          uw = py_max (c_high c - hi) 0;
          lw = py_max (lo - c_low c) 0
      in \<lparr>bf_candle = c, bf_body = body, bf_body_abs = \<bar>body\<bar>, bf_rng = rng,
          bf_body_ratio = py_min (\<bar>body\<bar> / rng) 1, bf_upper_wick = uw, bf_lower_wick = lw,
          bf_uw_ratio = uw / rng, bf_lw_ratio = lw / rng,
          bf_direction = (if 0 < body then 1 else if body < 0 then - 1 else 0),
          bf_atr_scale = (if 0 < atr then rng / atr else 0)\<rparr>)"

definition build_bar_features :: "candle list \<Rightarrow> pyfloat \<Rightarrow> bar list" where
  "build_bar_features candles atr = map (\<lambda>c. bar_features c atr) candles"

text \<open>\<open>as_dict\<close>, as a lookup.\<close>

definition feature :: "bar \<Rightarrow> (string \<times> pyfloat) list" where
  "feature b =
     [(''open'', c_open (bf_candle b)), (''high'', c_high (bf_candle b)), (''low'', c_low (bf_candle b)),
      (''close'', c_close (bf_candle b)), (''body'', bf_body b), (''body_abs'', bf_body_abs b),
      (''rng'', bf_rng b), (''body_ratio'', bf_body_ratio b), (''upper_wick'', bf_upper_wick b),
      (''lower_wick'', bf_lower_wick b), (''uw_ratio'', bf_uw_ratio b), (''lw_ratio'', bf_lw_ratio b),
      (''direction'', float_of_int (bf_direction b)), (''atr_scale'', bf_atr_scale b)]"

definition get_feature :: "bar \<Rightarrow> string \<Rightarrow> pyfloat result" where
  "get_feature b name = (case map_of (feature b) name of None \<Rightarrow> Raise KeyError | Some x \<Rightarrow> Ok x)"

section \<open>Pattern specifications\<close>

record condition =
  cd_bar :: int
  cd_feature :: string
  cd_op :: string
  cd_value :: pyfloat

record pattern_spec =
  sp_id :: string
  sp_direction :: string
  sp_candles :: nat
  sp_conditions :: "condition list"

abbreviation seed_cond :: "int \<Rightarrow> string \<Rightarrow> string \<Rightarrow> pyfloat \<Rightarrow> condition" where
  "seed_cond b f op v \<equiv> \<lparr>cd_bar = b, cd_feature = f, cd_op = op, cd_value = v\<rparr>"

definition seed_patterns :: "pattern_spec list" where
  "seed_patterns = [
      \<lparr>sp_id = ''doji'', sp_direction = ''Neutral'', sp_candles = 1, sp_conditions = [
        seed_cond (-1) ''body_ratio'' ''lt'' (lit (1 / 10))]\<rparr>,
      \<lparr>sp_id = ''spinning_top'', sp_direction = ''Neutral'', sp_candles = 1, sp_conditions = [
        seed_cond (-1) ''body_ratio'' ''lt'' (lit (3 / 10)),
         seed_cond (-1) ''uw_ratio'' ''gt'' (lit (1 / 5)),
         seed_cond (-1) ''lw_ratio'' ''gt'' (lit (1 / 5))]\<rparr>,
      \<lparr>sp_id = ''hammer'', sp_direction = ''Bull'', sp_candles = 1, sp_conditions = [
        seed_cond (-1) ''body_ratio'' ''lt'' (lit (2 / 5)),
         seed_cond (-1) ''lw_ratio'' ''gt'' (lit (1 / 2)),
         seed_cond (-1) ''uw_ratio'' ''lt'' (lit (3 / 20))]\<rparr>,
      \<lparr>sp_id = ''inverted_hammer'', sp_direction = ''Bull'', sp_candles = 1, sp_conditions = [
        seed_cond (-1) ''body_ratio'' ''lt'' (lit (2 / 5)),
         seed_cond (-1) ''uw_ratio'' ''gt'' (lit (1 / 2)),
         seed_cond (-1) ''lw_ratio'' ''lt'' (lit (3 / 20))]\<rparr>,
      \<lparr>sp_id = ''shooting_star'', sp_direction = ''Bear'', sp_candles = 1, sp_conditions = [
        seed_cond (-1) ''body_ratio'' ''lt'' (lit (2 / 5)),
         seed_cond (-1) ''uw_ratio'' ''gt'' (lit (1 / 2)),
         seed_cond (-1) ''lw_ratio'' ''lt'' (lit (3 / 20))]\<rparr>,
      \<lparr>sp_id = ''hanging_man'', sp_direction = ''Bear'', sp_candles = 1, sp_conditions = [
        seed_cond (-1) ''body_ratio'' ''lt'' (lit (2 / 5)),
         seed_cond (-1) ''lw_ratio'' ''gt'' (lit (1 / 2)),
         seed_cond (-1) ''uw_ratio'' ''lt'' (lit (3 / 20))]\<rparr>,
      \<lparr>sp_id = ''marubozu_bull'', sp_direction = ''Bull'', sp_candles = 1, sp_conditions = [
        seed_cond (-1) ''body_ratio'' ''gt'' (lit (9 / 10)),
         seed_cond (-1) ''uw_ratio'' ''lt'' (lit (3 / 100)),
         seed_cond (-1) ''lw_ratio'' ''lt'' (lit (3 / 100)),
         seed_cond (-1) ''direction'' ''eq'' (Fin 1)]\<rparr>,
      \<lparr>sp_id = ''marubozu_bear'', sp_direction = ''Bear'', sp_candles = 1, sp_conditions = [
        seed_cond (-1) ''body_ratio'' ''gt'' (lit (9 / 10)),
         seed_cond (-1) ''uw_ratio'' ''lt'' (lit (3 / 100)),
         seed_cond (-1) ''lw_ratio'' ''lt'' (lit (3 / 100)),
         seed_cond (-1) ''direction'' ''eq'' (Fin (-1))]\<rparr>,
      \<lparr>sp_id = ''bull_engulfing'', sp_direction = ''Bull'', sp_candles = 2, sp_conditions = [
        seed_cond (-2) ''direction'' ''eq'' (Fin (-1)),
         seed_cond (-1) ''direction'' ''eq'' (Fin 1)]\<rparr>,
      \<lparr>sp_id = ''bear_engulfing'', sp_direction = ''Bear'', sp_candles = 2, sp_conditions = [
        seed_cond (-2) ''direction'' ''eq'' (Fin 1),
         seed_cond (-1) ''direction'' ''eq'' (Fin (-1))]\<rparr>]"

definition compare :: "pyfloat \<Rightarrow> pyfloat \<Rightarrow> string \<Rightarrow> bool result" where
  "compare left right op =
     (if op = ''gt'' then Ok (right < left)
      else if op = ''gte'' then Ok (right \<le> left)
      else if op = ''lt'' then Ok (left < right)
      else if op = ''lte'' then Ok (left \<le> right)
      else if op = ''eq'' then Ok (\<bar>left - right\<bar> < lit (1 / 10 ^ 9))
      else if op = ''neq'' then Ok (lit (1 / 10 ^ 9) \<le> \<bar>left - right\<bar>)
      else Raise ValueError)"

section \<open>The matcher\<close>

record hit =
  hit_id :: string
  hit_direction :: string
  hit_candles :: nat

fun conditions_hold :: "bar list \<Rightarrow> condition list \<Rightarrow> bool result" where
  "conditions_hold window [] = Ok True"
| "conditions_hold window (c # cs) =
     rbind (py_index window (cd_bar c)) (\<lambda>b.
     rbind (get_feature b (cd_feature c)) (\<lambda>x.
     rbind (compare x (cd_value c) (cd_op c)) (\<lambda>ok.
       if ok then conditions_hold window cs else Ok False)))"

fun match_patterns :: "pattern_spec list \<Rightarrow> bar list \<Rightarrow> hit list result" where
  "match_patterns [] bars = Ok []"
| "match_patterns (s # ss) bars =
     (if length bars < sp_candles s then match_patterns ss bars
      else rbind (conditions_hold (lastn (sp_candles s) bars) (sp_conditions s)) (\<lambda>ok.
           rbind (match_patterns ss bars) (\<lambda>hits.
             Ok (if ok
                 then \<lparr>hit_id = sp_id s, hit_direction = sp_direction s, hit_candles = sp_candles s\<rparr> # hits
                 else hits))))"

section \<open>Well-formed specifications\<close>

definition condition_ok :: "nat \<Rightarrow> condition \<Rightarrow> bool" where
  "condition_ok n c \<longleftrightarrow>
     cd_bar c < 0 \<and> - cd_bar c \<le> int n \<and>
     cd_feature c \<in> {''open'', ''high'', ''low'', ''close'', ''body'', ''body_abs'', ''rng'', ''body_ratio'',
       ''upper_wick'', ''lower_wick'', ''uw_ratio'', ''lw_ratio'', ''direction'', ''atr_scale''} \<and>
     cd_op c \<in> {''gt'', ''gte'', ''lt'', ''lte'', ''eq'', ''neq''}"

definition spec_ok :: "pattern_spec \<Rightarrow> bool" where
  "spec_ok s \<longleftrightarrow>
     1 \<le> sp_candles s \<and> sp_candles s \<le> 4 \<and> sp_direction s \<in> {''Bull'', ''Bear'', ''Neutral''} \<and>
     list_all (condition_ok (sp_candles s)) (sp_conditions s)"

lemma get_feature_ok: "condition_ok n c \<Longrightarrow> is_ok (get_feature b (cd_feature c))"
  by (auto simp: condition_ok_def get_feature_def feature_def)

lemma compare_ok: "condition_ok n c \<Longrightarrow> is_ok (compare x y (cd_op c))"
  by (auto simp: condition_ok_def compare_def)

lemma py_index_ok: "condition_ok n c \<Longrightarrow> length window = n \<Longrightarrow> is_ok (py_index window (cd_bar c))"
  by (auto simp: condition_ok_def py_index_def)

lemma rbind_ok: "is_ok r \<Longrightarrow> (\<And>x. r = Ok x \<Longrightarrow> is_ok (f x)) \<Longrightarrow> is_ok (rbind r f)"
  by (cases r) auto

lemma conditions_total:
  "list_all (condition_ok n) cs \<Longrightarrow> length window = n \<Longrightarrow> is_ok (conditions_hold window cs)"
proof (induction cs)
  case (Cons c cs)
  then show ?case
    by (auto intro!: rbind_ok py_index_ok get_feature_ok compare_ok)
qed simp

lemma match_total: "list_all spec_ok specs \<Longrightarrow> is_ok (match_patterns specs bars)"
  by (induction specs) (auto simp: spec_ok_def intro!: rbind_ok conditions_total)

lemma seeds_ok: "list_all spec_ok seed_patterns"
  by (simp add: seed_patterns_def spec_ok_def condition_ok_def)

text \<open>What a hit stands for: a specification of the list whose conditions all hold.\<close>

lemma match_hits:
  "match_patterns specs bars = Ok hits \<Longrightarrow>
     hits = map (\<lambda>s. \<lparr>hit_id = sp_id s, hit_direction = sp_direction s, hit_candles = sp_candles s\<rparr>)
       (filter (\<lambda>s. sp_candles s \<le> length bars \<and>
          conditions_hold (lastn (sp_candles s) bars) (sp_conditions s) = Ok True) specs)"
  by (induction specs arbitrary: hits) (auto simp: rbind_Inr_iff not_less split: if_splits)

section \<open>Ratios of well-formed candles\<close>

lemma eps_pos: "0 < lit (1 / 10 ^ 12) \<and> isfinite (lit (1 / 10 ^ 12))"
proof -
  have "case lit (1 / 10 ^ 12) of Fin q \<Rightarrow> 0 < q | _ \<Rightarrow> False" by code_simp
  then show ?thesis by (simp split: pyfloat.splits)
qed

lemma range_facts:
  assumes "candle_ok c" "is_double (c_high c)"
  defines "w \<equiv> c_high c - c_low c" and "r \<equiv> py_max (c_high c - c_low c) (lit (1 / 10 ^ 12))"
  shows "isfinite w" "0 \<le> w" "w \<le> r" "isfinite r" "0 < r"
proof -
  have fin: "isfinite (c_high c)" "isfinite (c_low c)" "0 < c_low c" "c_low c \<le> c_high c"
    using assms(1) float_trans(1) by (auto simp: candle_ok_def)
  show w0: "0 \<le> w" unfolding w_def using fin by (intro diff_nonneg)
  have "w \<le> c_high c" unfolding w_def
    using fin assms(2) float_less_imp_le by (intro diff_le_self) auto
  with w0 fin(1) show fw: "isfinite w"
    by (elim finiteE) (auto simp: zero_pyfloat_def intro: between_finite)
  then show "w \<le> r" "isfinite r" "0 < r"
    using w0 eps_pos unfolding r_def w_def [symmetric]
    by (auto simp: py_max_def float_le_refl float_less_imp_le elim!: finiteE)
qed

lemma ratio_unit:
  "0 \<le> a \<Longrightarrow> a \<le> r \<Longrightarrow> isfinite r \<Longrightarrow> 0 < r \<Longrightarrow> 0 \<le> a / r \<and> a / r \<le> (1 :: pyfloat)"
proof -
  assume a: "0 \<le> a" "a \<le> r" "isfinite r" "0 < r"
  then have "isfinite a" by (elim finiteE) (auto simp: zero_pyfloat_def intro: between_finite)
  then show ?thesis using divide_unit [of a r] a by simp
qed

lemma abs_le_float: "(x :: pyfloat) \<le> w \<Longrightarrow> - x \<le> w \<Longrightarrow> \<bar>x\<bar> \<le> w"
  by (cases x; cases w) auto

lemma abs_float_nonneg: "x \<noteq> NaN \<Longrightarrow> 0 \<le> \<bar>x :: pyfloat\<bar>"
  by (cases x) auto

lemma float_uminus_diff: "- (a - b) = b - (a :: pyfloat)"
  by (cases a; cases b) (auto simp: minus_pyfloat_def to_f64_minus [symmetric])

lemma py_max_zero: "0 \<le> x \<Longrightarrow> x \<le> w \<Longrightarrow> 0 \<le> py_max x 0 \<and> py_max x 0 \<le> w"
  by (cases x) (auto simp: py_max_def)

lemma feature_ratios:
  assumes ok: "candle_ok c" and d: "is_double (c_high c)"
  shows "0 \<le> bf_body_ratio (bar_features c atr) \<and> bf_body_ratio (bar_features c atr) \<le> 1"
    "0 \<le> bf_uw_ratio (bar_features c atr) \<and> bf_uw_ratio (bar_features c atr) \<le> 1"
    "0 \<le> bf_lw_ratio (bar_features c atr) \<and> bf_lw_ratio (bar_features c atr) \<le> 1"
proof -
  let ?w = "c_high c - c_low c" and ?r = "py_max (c_high c - c_low c) (lit (1 / 10 ^ 12))"
  let ?hi = "py_max (c_open c) (c_close c)" and ?lo = "py_min (c_open c) (c_close c)"
  note r = range_facts [OF ok d]
  have fin: "isfinite (c_open c)" "isfinite (c_close c)" "isfinite (c_high c)" "isfinite (c_low c)"
    and le: "c_low c \<le> c_open c" "c_low c \<le> c_close c" "c_open c \<le> c_high c" "c_close c \<le> c_high c"
    using ok by (simp_all add: candle_ok_def)
  have hl: "isfinite ?hi" "?hi \<le> c_high c" "c_low c \<le> ?hi" "isfinite ?lo" "?lo \<le> c_high c" "c_low c \<le> ?lo"
    using fin le by (simp_all add: py_max_def py_min_def)
  have ww: "?w \<le> ?w" using r(1) by (auto elim!: finiteE intro: float_le_refl)
  have body: "\<bar>c_close c - c_open c\<bar> \<le> ?w"
    by (rule abs_le_float) (use fin le in \<open>auto simp: float_uminus_diff intro!: diff_mono\<close>)
  have "c_close c - c_open c \<noteq> NaN" using fin by (auto elim!: finiteE simp: float_simps)
  then have b: "0 \<le> \<bar>c_close c - c_open c\<bar> / ?r \<and> \<bar>c_close c - c_open c\<bar> / ?r \<le> 1"
    using r body by (intro ratio_unit abs_float_nonneg) (auto intro: float_trans(1))
  then show "0 \<le> bf_body_ratio (bar_features c atr) \<and> bf_body_ratio (bar_features c atr) \<le> 1"
    by (auto simp: bar_features_def Let_def py_min_def one_pyfloat_def)
  have "0 \<le> c_high c - ?hi" "c_high c - ?hi \<le> ?w" "0 \<le> ?lo - c_low c" "?lo - c_low c \<le> ?w"
    using fin hl by (auto intro!: diff_nonneg diff_mono elim!: finiteE intro: float_le_refl)
  note wick = py_max_zero [OF this(1,2)] py_max_zero [OF this(3,4)]
  have uw: "0 \<le> py_max (c_high c - ?hi) 0 / ?r \<and> py_max (c_high c - ?hi) 0 / ?r \<le> 1"
    by (rule ratio_unit) (use r wick(1) float_trans(1) in blast)+
  have lw: "0 \<le> py_max (?lo - c_low c) 0 / ?r \<and> py_max (?lo - c_low c) 0 / ?r \<le> 1"
    by (rule ratio_unit) (use r wick(2) float_trans(1) in blast)+
  show "0 \<le> bf_uw_ratio (bar_features c atr) \<and> bf_uw_ratio (bar_features c atr) \<le> 1"
    "0 \<le> bf_lw_ratio (bar_features c atr) \<and> bf_lw_ratio (bar_features c atr) \<le> 1"
    using uw lw by (simp_all add: bar_features_def Let_def)
qed

section \<open>Properties\<close>

text \<open>
  The pattern interpreter never raises on the seed catalogue, whatever the bars are (too few,
  NaN or infinite ones included), and reports exactly the seed patterns whose conditions all
  hold on the last bars, in catalogue order.
\<close>

theorem seed_patterns_never_raise:
  "\<exists>hits. match_patterns seed_patterns bars = Ok hits \<and>
     map hit_id hits = map sp_id (filter (\<lambda>s. sp_candles s \<le> length bars \<and>
       conditions_hold (lastn (sp_candles s) bars) (sp_conditions s) = Ok True) seed_patterns)"
proof -
  obtain hits where h: "match_patterns seed_patterns bars = Ok hits"
    using match_total [OF seeds_ok] by (auto simp: is_ok_iff)
  from match_hits [OF h] have "map hit_id hits = map sp_id (filter (\<lambda>s. sp_candles s \<le> length bars \<and>
       conditions_hold (lastn (sp_candles s) bars) (sp_conditions s) = Ok True) seed_patterns)"
    by (simp add: comp_def)
  with h show ?thesis by blast
qed

text \<open>
  The bar ratios are ratios: on a well-formed candle the body, the upper and the lower wick
  are each between 0 and 1 of the range, rounding included and for a
  candle without any range (a single price) too.
\<close>

theorem bar_ratios_unit:
  assumes "candle_ok c" "is_double (c_high c)"
  shows "list_all (\<lambda>x. 0 \<le> x \<and> x \<le> 1)
    [bf_body_ratio (bar_features c atr), bf_uw_ratio (bar_features c atr), bf_lw_ratio (bar_features c atr)]"
  using feature_ratios [OF assms] by simp

definition flat_candle :: candle where
  "flat_candle = \<lparr>c_open = Fin 7, c_high = Fin 7, c_low = Fin 7, c_close = Fin 7, c_t_open = 0,
     c_t_close = 1, c_volume = 1\<rparr>"

theorem bar_ratios_unit_witness:
  "bf_body_ratio (bar_features flat_candle (Fin 2)) \<le> 1 \<and> bf_uw_ratio (bar_features flat_candle (Fin 2)) \<le> 1"
proof -
  have "candle_ok flat_candle" "is_double (c_high flat_candle)" by code_simp+
  then show ?thesis using bar_ratios_unit [of flat_candle "Fin 2"] by simp
qed

end
