(* ===== verification/Detectors.thy ===== *)
theory Detectors
  imports Candles
begin

text \<open>
  The event detectors of \<open>cortex/cortex/event_engine.py\<close>: liquidity sweep, fakeout, squeeze,
  acceleration rejection, pivots and divergences. The lemmas characterise what each reports.
\<close>

section \<open>Liquidity sweep\<close>

datatype pool = BSL | SSL

record sweep =
  sw_side :: pool
  sw_level :: pyfloat
  sw_extreme :: pyfloat
  sw_pierced :: pyfloat
  sw_reclaimed :: bool
  sw_close :: pyfloat

text \<open>\<open>bars[-n:]\<close> of the source: everything when \<open>n\<close> is 0.\<close>

definition tail_slice :: "nat \<Rightarrow> 'a list \<Rightarrow> 'a list" where
  "tail_slice n xs = (if n = 0 then xs else lastn n xs)"

definition swept_low :: "pyfloat \<Rightarrow> pyfloat \<Rightarrow> candle \<Rightarrow> bool" where
  "swept_low level req b \<longleftrightarrow> c_low b < level \<and> req \<le> level - c_low b \<and> level < c_close b"

definition swept_high :: "pyfloat \<Rightarrow> pyfloat \<Rightarrow> candle \<Rightarrow> bool" where
  "swept_high level req b \<longleftrightarrow> level < c_high b \<and> req \<le> c_high b - level \<and> c_close b < level"

definition detect_sweep :: "pyfloat \<Rightarrow> nat \<Rightarrow> candle list \<Rightarrow> pyfloat \<Rightarrow> pyfloat \<Rightarrow> sweep option" where
  "detect_sweep level_fraction reclaim_window bars level atr =
     (if length bars < 2 \<or> atr \<le> 0 then None
      else let req = level_fraction * atr in
        case find (swept_low level req) (rev (tail_slice reclaim_window bars)) of
          Some b \<Rightarrow> Some \<lparr>sw_side = SSL, sw_level = level, sw_extreme = c_low b,
            sw_pierced = (level - c_low b) / atr, sw_reclaimed = True, sw_close = c_close b\<rparr>
        | None \<Rightarrow>
            let b = last bars in
            if swept_high level req b
            then Some \<lparr>sw_side = BSL, sw_level = level, sw_extreme = c_high b,
              sw_pierced = (c_high b - level) / atr, sw_reclaimed = True, sw_close = c_close b\<rparr>
            else None)"

section \<open>Fakeout\<close>

datatype side = Bull | Bear

record fakeout =
  fk_side :: side
  fk_level :: pyfloat
  fk_extreme :: pyfloat
  fk_reclaimed :: bool

fun fakeout_scan :: "pyfloat \<Rightarrow> candle list \<Rightarrow> fakeout option" where
  "fakeout_scan level (a # b # bars) =
     (if level < c_close a \<and> c_close b < level
      then Some \<lparr>fk_side = Bull, fk_level = level, fk_extreme = c_high a, fk_reclaimed = True\<rparr>
      else if c_close a < level \<and> level < c_close b
      then Some \<lparr>fk_side = Bear, fk_level = level, fk_extreme = c_low a, fk_reclaimed = True\<rparr>
      else fakeout_scan level (b # bars))"
| "fakeout_scan level _ = None"

text \<open>The indices from \<open>max(0, len - check_back)\<close>: the pairs within the last \<open>check_back\<close> bars.\<close>

definition detect_fakeout :: "nat \<Rightarrow> candle list \<Rightarrow> pyfloat \<Rightarrow> fakeout option" where
  "detect_fakeout check_back bars level =
     (if length bars < 2 then None else fakeout_scan level (lastn check_back bars))"

section \<open>Squeeze\<close>

record squeeze =
  sq_ratio :: pyfloat
  sq_compressed :: bool
  sq_duration :: nat

definition bar_range :: "candle \<Rightarrow> pyfloat" where
  "bar_range b = c_high b - c_low b"

definition detect_squeeze :: "nat \<Rightarrow> nat \<Rightarrow> pyfloat \<Rightarrow> candle list \<Rightarrow> squeeze option result" where
  "detect_squeeze short long threshold bars =
     (if length bars < long then Ok None
      else let tail = tail_slice long bars in
        rbind (py_div (py_sum (map bar_range (tail_slice short tail))) (float_of_nat short)) (\<lambda>short_avg.
        rbind (py_div (py_sum (map bar_range tail)) (float_of_nat long)) (\<lambda>long_avg.
          let ratio = (if 0 < long_avg then short_avg / long_avg else 1);
              duration = length (takeWhile (\<lambda>b. \<not> long_avg \<le> bar_range b) (rev (butlast tail)))
          in Ok (Some \<lparr>sq_ratio = ratio, sq_compressed = (ratio < threshold), sq_duration = duration\<rparr>))))"

section \<open>Acceleration rejection\<close>

record accel =
  ac_side :: side
  ac_accel :: pyfloat
  ac_range :: pyfloat
  ac_absorbed :: pyfloat

definition accel_rejection :: "pyfloat \<Rightarrow> pyfloat \<Rightarrow> pyfloat \<Rightarrow> candle list \<Rightarrow> pyfloat \<Rightarrow> accel option result" where
  "accel_rejection accel_min range_min wick_factor bars atr =
     (if length bars < 2 \<or> atr \<le> 0 then Ok None
      else let first = bars ! (length bars - 2); fin = last bars;
               impulse = c_close first - c_open first;
               rng = c_high fin - c_low fin
        in if \<bar>impulse\<bar> < accel_min * atr then Ok None
           else if rng < range_min * atr then Ok None
           else if 0 < impulse
           then let upper_wick = c_high fin - py_max (c_open fin) (c_close fin) in
             if c_close fin \<le> c_close first \<and> c_open first \<le> c_close fin \<and> wick_factor * rng \<le> upper_wick
             then rbind (py_div (c_close first - c_close fin) \<bar>impulse\<bar>) (\<lambda>absorbed.
               Ok (Some \<lparr>ac_side = Bull, ac_accel = \<bar>impulse\<bar> / atr, ac_range = rng / atr, ac_absorbed = absorbed\<rparr>))
             else Ok None
           else let lower_wick = py_min (c_open fin) (c_close fin) - c_low fin in
             if c_close first \<le> c_close fin \<and> c_close fin \<le> c_open first \<and> wick_factor * rng \<le> lower_wick
             then rbind (py_div (c_close fin - c_close first) \<bar>impulse\<bar>) (\<lambda>absorbed.
               Ok (Some \<lparr>ac_side = Bear, ac_accel = \<bar>impulse\<bar> / atr, ac_range = rng / atr, ac_absorbed = absorbed\<rparr>))
             else Ok None)"

section \<open>Pivots and divergences\<close>

datatype div_kind = Regular | Hidden

record divergence =
  dv_kind :: div_kind
  dv_side :: side
  dv_strength :: pyfloat

definition slice :: "nat \<Rightarrow> nat \<Rightarrow> 'a list \<Rightarrow> 'a list" where
  "slice i j xs = take (j - i) (drop i xs)"

text \<open>\<open>max\<close> and \<open>min\<close> of an empty slice raise.\<close>

definition max_of :: "pyfloat list \<Rightarrow> pyfloat result" where
  "max_of xs = (case py_maximum xs of None \<Rightarrow> Raise ValueError | Some m \<Rightarrow> Ok m)"

definition min_of :: "pyfloat list \<Rightarrow> pyfloat result" where
  "min_of xs = (case py_minimum xs of None \<Rightarrow> Raise ValueError | Some m \<Rightarrow> Ok m)"

definition is_pivot :: "pyfloat list \<Rightarrow> nat \<Rightarrow> bool \<Rightarrow> nat \<Rightarrow> bool result" where
  "is_pivot vals window is_high i =
     (let v = vals ! i; before = slice (i - window) i vals; after = slice (i + 1) (i + window + 1) vals in
      rbind (max_of before) (\<lambda>left. rbind (max_of after) (\<lambda>right.
        if is_high \<and> left < v \<and> right < v then Ok True
        else if \<not> is_high
        then rbind (min_of before) (\<lambda>lm. if v < lm then rbind (min_of after) (\<lambda>rm. Ok (v < rm)) else Ok False)
        else Ok False)))"

fun filter_result :: "('a \<Rightarrow> bool result) \<Rightarrow> 'a list \<Rightarrow> 'a list result" where
  "filter_result p [] = Ok []"
| "filter_result p (x # xs) =
     rbind (p x) (\<lambda>b. rbind (filter_result p xs) (\<lambda>ys. Ok (if b then x # ys else ys)))"

definition pivots :: "pyfloat list \<Rightarrow> nat \<Rightarrow> bool \<Rightarrow> nat list result" where
  "pivots vals window is_high = filter_result (is_pivot vals window is_high) [window ..< length vals - window]"

definition strength :: "pyfloat \<Rightarrow> pyfloat \<Rightarrow> pyfloat" where
  "strength a b =
     (let scale = py_max (py_max \<bar>a\<bar> \<bar>b\<bar>) (lit (1 / 10 ^ 9)) in py_min (\<bar>b - a\<bar> / scale) (Fin 2))"

definition oscillator :: "nat \<Rightarrow> pyfloat list \<Rightarrow> pyfloat list" where
  "oscillator roc closes =
     map (\<lambda>i. if i < roc then 0 else closes ! i - closes ! (i - roc)) [0 ..< length closes]"

definition divergence_of :: "side \<Rightarrow> pyfloat list \<Rightarrow> pyfloat list \<Rightarrow> nat list \<Rightarrow> divergence list" where
  "divergence_of sd closes osc ps =
     (if length ps < 2 then []
      else let p1 = ps ! (length ps - 2); p2 = last ps;
               price_dir = closes ! p2 - closes ! p1; osc_dir = osc ! p2 - osc ! p1;
               s = strength (osc ! p1) (osc ! p2)
        in if sd = Bear \<and> 0 < price_dir \<and> osc_dir < 0 then [\<lparr>dv_kind = Regular, dv_side = Bear, dv_strength = s\<rparr>]
           else if sd = Bear \<and> price_dir < 0 \<and> 0 < osc_dir then [\<lparr>dv_kind = Hidden, dv_side = Bull, dv_strength = s\<rparr>]
           else if sd = Bull \<and> price_dir < 0 \<and> 0 < osc_dir then [\<lparr>dv_kind = Regular, dv_side = Bull, dv_strength = s\<rparr>]
           else if sd = Bull \<and> 0 < price_dir \<and> osc_dir < 0 then [\<lparr>dv_kind = Hidden, dv_side = Bear, dv_strength = s\<rparr>]
           else [])"

definition detect_divergence :: "nat \<Rightarrow> nat \<Rightarrow> pyfloat list \<Rightarrow> divergence list result" where
  "detect_divergence pivot_window roc_window closes =
     (if length closes < pivot_window * 2 + roc_window + 2 then Ok []
      else let osc = oscillator roc_window closes in
        rbind (pivots closes pivot_window True) (\<lambda>highs.
        rbind (pivots closes pivot_window False) (\<lambda>lows.
          Ok (divergence_of Bear closes osc highs @ divergence_of Bull closes osc lows))))"

section \<open>Lemmas\<close>

lemma find_rev_last:
  "find p (rev xs) = Some x \<Longrightarrow> \<exists>ys zs. xs = ys @ x # zs \<and> p x \<and> (\<forall>z \<in> set zs. \<not> p z)"
proof -
  assume "find p (rev xs) = Some x"
  then obtain i where i: "i < length (rev xs)" "p (rev xs ! i)" "x = rev xs ! i" "\<forall>j < i. \<not> p (rev xs ! j)"
    by (auto simp: find_Some_iff)
  have "rev xs = take i (rev xs) @ x # drop (Suc i) (rev xs)" using i(1,3) id_take_nth_drop by blast
  then have "xs = rev (drop (Suc i) (rev xs)) @ x # rev (take i (rev xs))"
    by (metis append.assoc append_Cons append_Nil rev.simps(2) rev_append rev_rev_ident)
  moreover have "\<not> p z" if "z \<in> set (rev (take i (rev xs)))" for z
    using that i(1,4) by (auto simp: in_set_conv_nth)
  ultimately show ?thesis using i(2,3) by blast
qed

lemma max_of_less:
  assumes "max_of xs = Ok m" "\<And>x. x \<in> set xs \<Longrightarrow> x \<noteq> NaN" "v \<noteq> NaN"
  shows "m < v \<longleftrightarrow> (\<forall>x \<in> set xs. x < v)"
proof -
  obtain y ys where xs: "xs = y # ys" using assms(1) by (cases xs) (auto simp: max_of_def)
  have m: "m = foldl py_max y ys" using assms(1) by (simp add: max_of_def xs)
  have "\<forall>x \<in> set (y # ys). x \<noteq> NaN" using assms(2) xs by blast
  then show ?thesis unfolding m xs
  proof (induction ys arbitrary: y)
    case (Cons z zs)
    have nan: "y \<noteq> NaN" "z \<noteq> NaN" using Cons.prems by auto
    then have "py_max y z < v \<longleftrightarrow> y < v \<and> z < v"
      using float_trans(4) [of y z v] float_trans(3) [of z y v] float_not_less [of y z] by (auto simp: py_max_def)
    moreover have "py_max y z \<noteq> NaN" using nan by (simp add: py_max_def)
    ultimately show ?case using Cons.IH [of "py_max y z"] Cons.prems by auto
  qed simp
qed

lemma less_min_of:
  assumes "min_of xs = Ok m" "\<And>x. x \<in> set xs \<Longrightarrow> x \<noteq> NaN" "v \<noteq> NaN"
  shows "v < m \<longleftrightarrow> (\<forall>x \<in> set xs. v < x)"
proof -
  obtain y ys where xs: "xs = y # ys" using assms(1) by (cases xs) (auto simp: min_of_def)
  have m: "m = foldl py_min y ys" using assms(1) by (simp add: min_of_def xs)
  have "\<forall>x \<in> set (y # ys). x \<noteq> NaN" using assms(2) xs by blast
  then show ?thesis unfolding m xs
  proof (induction ys arbitrary: y)
    case (Cons z zs)
    have nan: "y \<noteq> NaN" "z \<noteq> NaN" using Cons.prems by auto
    then have "v < py_min y z \<longleftrightarrow> v < y \<and> v < z"
      using float_trans(4) [of v z y] float_trans(2) [of v y z] float_not_less [of z y] by (auto simp: py_min_def)
    moreover have "py_min y z \<noteq> NaN" using nan by (simp add: py_min_def)
    ultimately show ?case using Cons.IH [of "py_min y z"] Cons.prems by auto
  qed simp
qed

lemma set_slice: "j \<le> length xs \<Longrightarrow> set (slice i j xs) = {xs ! k |k. i \<le> k \<and> k < j}"
proof (cases "i \<le> j")
  case True
  assume j: "j \<le> length xs"
  have "set (slice i j xs) = (!) (drop i xs) ` {0 ..< j - i}"
    using j True nth_image [of "j - i" "drop i xs"] by (simp add: slice_def)
  also have "\<dots> = (\<lambda>k. xs ! (i + k)) ` {0 ..< j - i}" using j True by (intro image_cong) auto
  also have "\<dots> = (!) xs ` ((+) i ` {0 ..< j - i})" by (simp only: image_image)
  also have "(+) i ` {0 ..< j - i} = {i ..< j}" using True by (simp add: image_add_atLeastLessThan)
  finally show ?thesis by auto
qed (auto simp: slice_def)

lemma filter_result_Ok:
  "(\<And>x. x \<in> set xs \<Longrightarrow> p x = Ok (q x)) \<Longrightarrow> filter_result p xs = Ok (filter q xs)"
  by (induction xs) auto

definition strict_extremum :: "pyfloat list \<Rightarrow> nat \<Rightarrow> bool \<Rightarrow> nat \<Rightarrow> bool" where
  "strict_extremum vals w is_high i \<longleftrightarrow>
     list_all (\<lambda>k. k = i \<or> (if is_high then vals ! k < vals ! i else vals ! i < vals ! k)) [i - w ..< i + w + 1]"

lemma strict_extremum_iff:
  "strict_extremum vals w is_high i \<longleftrightarrow>
     (\<forall>k. i - w \<le> k \<and> k \<le> i + w \<and> k \<noteq> i \<longrightarrow>
       (if is_high then vals ! k < vals ! i else vals ! i < vals ! k))"
  by (auto simp: strict_extremum_def list_all_iff)

lemma is_pivot_strict:
  assumes "0 < w" "w \<le> i" "i + w < length vals" "\<And>x. x \<in> set vals \<Longrightarrow> x \<noteq> NaN"
  shows "is_pivot vals w is_high i = Ok (strict_extremum vals w is_high i)"
proof -
  define b where "b = slice (i - w) i vals"
  define a where "a = slice (i + 1) (i + w + 1) vals"
  have sets: "set b = {vals ! k |k. i - w \<le> k \<and> k < i}" "set a = {vals ! k |k. i + 1 \<le> k \<and> k < i + w + 1}"
    using assms unfolding a_def b_def by (simp_all add: set_slice)
  have nan: "x \<noteq> NaN" if "x \<in> set b \<union> set a" for x
  proof -
    from that obtain k where "x = vals ! k" "k < length vals" using assms(2,3) unfolding sets by auto
    then show ?thesis using assms(4) by simp
  qed
  have v: "vals ! i \<noteq> NaN" using assms by simp
  have ne: "b \<noteq> []" "a \<noteq> []" using assms by (simp_all add: slice_def a_def b_def)
  obtain lm rm ln rn where m: "max_of b = Ok lm" "max_of a = Ok rm" "min_of b = Ok ln" "min_of a = Ok rn"
    using ne by (cases b; cases a) (auto simp: max_of_def min_of_def)
  have hi: "lm < vals ! i \<and> rm < vals ! i \<longleftrightarrow> (\<forall>k. i - w \<le> k \<and> k \<le> i + w \<and> k \<noteq> i \<longrightarrow> vals ! k < vals ! i)"
    using max_of_less [OF m(1) _ v] max_of_less [OF m(2) _ v] nan unfolding sets
    by (auto, metis Suc_leI less_Suc_eq_le linorder_neqE_nat)
  have lo: "vals ! i < ln \<and> vals ! i < rn \<longleftrightarrow> (\<forall>k. i - w \<le> k \<and> k \<le> i + w \<and> k \<noteq> i \<longrightarrow> vals ! i < vals ! k)"
    using less_min_of [OF m(3) _ v] less_min_of [OF m(4) _ v] nan unfolding sets
    by (auto, metis Suc_leI less_Suc_eq_le linorder_neqE_nat)
  have "is_pivot vals w is_high i =
      Ok (if is_high then lm < vals ! i \<and> rm < vals ! i else vals ! i < ln \<and> vals ! i < rn)"
    unfolding is_pivot_def Let_def a_def [symmetric] b_def [symmetric] m rbind_simps by simp
  then show ?thesis unfolding hi lo by (cases is_high) (simp_all add: strict_extremum_iff)
qed

lemma pivots_filter:
  assumes "0 < w" "\<And>x. x \<in> set vals \<Longrightarrow> x \<noteq> NaN"
  shows "pivots vals w is_high = Ok (filter (strict_extremum vals w is_high) [w ..< length vals - w])"
  unfolding pivots_def
  by (rule filter_result_Ok, rule is_pivot_strict [OF assms(1)]) (use assms(2) in auto)

definition crosses :: "pyfloat \<Rightarrow> candle \<times> candle \<Rightarrow> bool" where
  "crosses level = (\<lambda>(a, b).
     level < c_close a \<and> c_close b < level \<or> c_close a < level \<and> level < c_close b)"

definition failed_break :: "pyfloat \<Rightarrow> candle \<times> candle \<Rightarrow> fakeout" where
  "failed_break level = (\<lambda>(a, b).
     \<lparr>fk_side = (if level < c_close a then Bull else Bear), fk_level = level,
      fk_extreme = (if level < c_close a then c_high a else c_low a), fk_reclaimed = True\<rparr>)"

definition neighbours :: "'a list \<Rightarrow> ('a \<times> 'a) list" where
  "neighbours xs = zip xs (tl xs)"

lemma neighbours_short: "length xs < 2 \<Longrightarrow> neighbours xs = []"
  by (cases xs) (auto simp: neighbours_def)

lemma fakeout_scan_find:
  "fakeout_scan level bars = map_option (failed_break level) (find (crosses level) (neighbours bars))"
  by (induction level bars rule: fakeout_scan.induct)
    (auto simp: neighbours_def crosses_def failed_break_def dest: float_less_asym float_less_imp_le)

lemma detect_sweep_active:
  assumes "2 \<le> length bars" "0 < atr"
  shows "detect_sweep lf w bars level atr =
     (case find (swept_low level (lf * atr)) (rev (tail_slice w bars)) of
        Some b \<Rightarrow> Some \<lparr>sw_side = SSL, sw_level = level, sw_extreme = c_low b,
            sw_pierced = (level - c_low b) / atr, sw_reclaimed = True, sw_close = c_close b\<rparr>
      | None \<Rightarrow> if swept_high level (lf * atr) (last bars)
          then Some \<lparr>sw_side = BSL, sw_level = level, sw_extreme = c_high (last bars),
              sw_pierced = (c_high (last bars) - level) / atr, sw_reclaimed = True, sw_close = c_close (last bars)\<rparr>
          else None)"
proof -
  have "\<not> (length bars < 2 \<or> atr \<le> 0)" using float_less_asym assms by auto
  then show ?thesis unfolding detect_sweep_def Let_def by (simp only: if_False)
qed

lemma strength_eps: "0 < lit (1 / 10 ^ 9)" "isfinite (lit (1 / 10 ^ 9))"
proof -
  have "case lit (1 / 10 ^ 9) of Fin q \<Rightarrow> 0 < q | _ \<Rightarrow> False" by code_simp
  then show "0 < lit (1 / 10 ^ 9)" "isfinite (lit (1 / 10 ^ 9))" by (simp_all split: pyfloat.splits)
qed

lemma strength_scale:
  assumes "isfinite a" "isfinite b" "0 < e" "isfinite e"
  shows "0 < py_max (py_max \<bar>a\<bar> \<bar>b\<bar>) e \<and> isfinite (py_max (py_max \<bar>a\<bar> \<bar>b\<bar>) e)"
  using assms by (auto simp: isfinite_iff py_max_def)

lemma strength_bounded:
  assumes "isfinite a" "isfinite b"
  shows "0 \<le> strength a b \<and> strength a b \<le> Fin 2"
proof -
  define e where "e = lit (1 / 10 ^ 9)"
  define sc where "sc = py_max (py_max \<bar>a\<bar> \<bar>b\<bar>) e"
  have "0 < sc" "isfinite sc"
    using strength_scale [OF assms strength_eps] unfolding sc_def e_def by blast+
  then obtain s where s: "sc = Fin s" "0 < s" by (auto simp: isfinite_iff)
  obtain x y where ab: "a = Fin x" "b = Fin y" using assms by (auto simp: isfinite_iff)
  have "0 \<le> \<bar>b - a\<bar>" unfolding ab float_simps by (cases "to_f64 (y - x)") auto
  then have q: "0 \<le> \<bar>b - a\<bar> / sc"
    unfolding s(1) using s(2) by (cases "\<bar>b - a\<bar>") (auto simp: to_f64_nonneg signed_inf_def)
  show ?thesis
    using q unfolding strength_def Let_def e_def [symmetric] sc_def [symmetric]
    by (cases "\<bar>b - a\<bar> / sc") (auto simp: py_min_def)
qed

section \<open>Properties\<close>

definition plain_bar :: "rat \<Rightarrow> rat \<Rightarrow> rat \<Rightarrow> rat \<Rightarrow> candle" where
  "plain_bar o' h l c =
     \<lparr>c_open = Fin o', c_high = Fin h, c_low = Fin l, c_close = Fin c, c_t_open = 0, c_t_close = Fin 1,
      c_volume = Fin 1\<rparr>"

text \<open>
  A reported sweep is real: on the low side it is the latest bar of the reclaim window
  that pierces the level by the required part of the range and closes back above; on the
  high side no bar of the window swept the low side and the last bar pierces and closes
  back below. No report means that neither holds.
\<close>

theorem sweep_is_latest_reclaim:
  assumes "2 \<le> length bars" "0 < atr"
  shows "case detect_sweep lf w bars level atr of
      None \<Rightarrow> filter (swept_low level (lf * atr)) (tail_slice w bars) = [] \<and>
        \<not> swept_high level (lf * atr) (last bars)
    | Some s \<Rightarrow> sw_level s = level \<and>
        (if sw_side s = SSL
         then \<exists>ys b zs. tail_slice w bars = ys @ b # zs \<and> swept_low level (lf * atr) b \<and>
                filter (swept_low level (lf * atr)) zs = [] \<and>
                sw_extreme s = c_low b \<and> sw_pierced s = (level - c_low b) / atr \<and> sw_close s = c_close b
         else filter (swept_low level (lf * atr)) (tail_slice w bars) = [] \<and>
              swept_high level (lf * atr) (last bars) \<and> sw_extreme s = c_high (last bars) \<and>
              sw_pierced s = (c_high (last bars) - level) / atr \<and> sw_close s = c_close (last bars))"
proof (cases "find (swept_low level (lf * atr)) (rev (tail_slice w bars))")
  case None
  then have "filter (swept_low level (lf * atr)) (tail_slice w bars) = []"
    by (auto simp: find_None_iff filter_empty_conv)
  then show ?thesis unfolding detect_sweep_active [OF assms] None by simp
next
  case (Some b)
  obtain ys zs where "tail_slice w bars = ys @ b # zs" "swept_low level (lf * atr) b"
    "filter (swept_low level (lf * atr)) zs = []"
    using find_rev_last [OF Some] by (auto simp: filter_empty_conv)
  then show ?thesis unfolding detect_sweep_active [OF assms] Some by auto
qed

theorem sweep_is_latest_reclaim_witness:
  "detect_sweep (lit (3 / 10)) 3 [plain_bar 10 11 9 10, plain_bar 10 11 7 10, plain_bar 10 11 9 10] (Fin 8) (Fin 2) =
     Some \<lparr>sw_side = SSL, sw_level = Fin 8, sw_extreme = Fin 7, sw_pierced = Fin (1 / 2), sw_reclaimed = True,
       sw_close = Fin 10\<rparr> \<and>
   swept_low (Fin 8) (lit (3 / 10) * Fin 2) (plain_bar 10 11 7 10)"
proof -
  have e: "detect_sweep (lit (3 / 10)) 3 [plain_bar 10 11 9 10, plain_bar 10 11 7 10, plain_bar 10 11 9 10] (Fin 8) (Fin 2) =
     Some \<lparr>sw_side = SSL, sw_level = Fin 8, sw_extreme = Fin 7, sw_pierced = Fin (1 / 2), sw_reclaimed = True,
       sw_close = Fin 10\<rparr>" by code_simp
  obtain b where "b \<in> set (tail_slice 3 [plain_bar 10 11 9 10, plain_bar 10 11 7 10, plain_bar 10 11 9 10])"
    "swept_low (Fin 8) (lit (3 / 10) * Fin 2) b" "c_low b = Fin 7"
    using sweep_is_latest_reclaim [of "[plain_bar 10 11 9 10, plain_bar 10 11 7 10, plain_bar 10 11 9 10]" "Fin 2" "Fin 8" "lit (3 / 10)" 3]
    unfolding e by force
  then have "b = plain_bar 10 11 7 10" by (auto simp: tail_slice_def lastn_def plain_bar_def)
  then show ?thesis using e \<open>swept_low (Fin 8) (lit (3 / 10) * Fin 2) b\<close> by simp
qed

text \<open>
  The sweep detector is not symmetric. A low-side sweep one bar ago is reported (the
  reclaim window is 3 bars); its mirror image on the high side is not, because only the
  last bar is examined there.
\<close>

theorem sweep_sides_differ:
  "detect_sweep (lit (3 / 10)) 3 [plain_bar 10 11 9 10, plain_bar 10 11 7 10, plain_bar 10 11 9 10] (Fin 8) (Fin 2) \<noteq> None \<and>
   detect_sweep (lit (3 / 10)) 3 [plain_bar 10 11 9 10, plain_bar 10 13 9 10, plain_bar 10 11 9 10] (Fin 12) (Fin 2) = None"
  by code_simp

text \<open>
  The fakeout detector reports the first pair of neighbouring bars, within the last
  \<open>check_back\<close> bars, whose closes lie on opposite sides of the level; the reported side
  and extreme are those of the failed break.
\<close>

theorem fakeout_is_first_failed_break:
  "detect_fakeout check_back bars level =
     map_option (failed_break level) (find (crosses level) (neighbours (lastn check_back bars)))"
  by (simp add: detect_fakeout_def fakeout_scan_find neighbours_short)

text \<open>
  On any series of closes without NaN the divergence detector never raises: it compares
  the last two strict local maxima, and the last two strict local minima, of the closes
  with the momentum oscillator at those bars.
\<close>

theorem divergence_from_extrema:
  assumes "0 < pw" "\<And>x. x \<in> set closes \<Longrightarrow> x \<noteq> NaN"
  shows "detect_divergence pw rw closes = Ok
     (if length closes < pw * 2 + rw + 2 then []
      else divergence_of Bear closes (oscillator rw closes)
             (filter (strict_extremum closes pw True) [pw ..< length closes - pw]) @
           divergence_of Bull closes (oscillator rw closes)
             (filter (strict_extremum closes pw False) [pw ..< length closes - pw]))"
  by (simp add: detect_divergence_def Let_def pivots_filter [OF assms])

theorem divergence_from_extrema_witness:
  "detect_divergence 1 1 [Fin 1, Fin 6, Fin 2, Fin 7, Fin 3] =
     Ok (divergence_of Bear [Fin 1, Fin 6, Fin 2, Fin 7, Fin 3] (oscillator 1 [Fin 1, Fin 6, Fin 2, Fin 7, Fin 3]) [1, 3] @
         divergence_of Bull [Fin 1, Fin 6, Fin 2, Fin 7, Fin 3] (oscillator 1 [Fin 1, Fin 6, Fin 2, Fin 7, Fin 3]) [2])"
proof -
  have f: "filter (strict_extremum [Fin 1, Fin 6, Fin 2, Fin 7, Fin 3] 1 True) [1 ..< 4] = [1, 3]"
    "filter (strict_extremum [Fin 1, Fin 6, Fin 2, Fin 7, Fin 3] 1 False) [1 ..< 4] = [2]"
    by (simp_all add: strict_extremum_def upt_rec)
  have n: "[1 ..< length [Fin 1, Fin 6, Fin 2, Fin 7, Fin 3] - 1] = [1 ..< 4]" by (simp add: upt_rec)
  have "length [Fin 1, Fin 6, Fin 2, Fin 7, Fin 3] < 1 * 2 + 1 + 2 \<longleftrightarrow> False" by simp
  then show ?thesis
    by (subst divergence_from_extrema) (simp, fastforce, simp only: n f if_False)
qed

end
