(* ===== verification/EventEngine.thy ===== *)
theory EventEngine
  imports Patterns Detectors
begin

text \<open>
  \<open>EventEngine\<close> of \<open>cortex/cortex/event_engine.py\<close>: one report per update, composed of the
  pattern matcher and the detectors, with the catalog's theses attached to what fired. The
  catalog (\<open>cortex/schemas/market_events.json\<close>) is data the engine loads: a list of entries
  given to the engine.
\<close>

section \<open>Engine, catalog and report\<close>

record catalog_entry =
  ev_id :: string
  ev_mechanism :: string
  ev_thesis :: string
  ev_invalidation :: string
  ev_conversion :: string
  ev_family :: string

record event_engine =
  ee_asset :: string
  ee_patterns :: "pattern_spec list"
  ee_level_fraction :: pyfloat
  ee_reclaim_window :: nat
  ee_check_back :: nat
  ee_short :: nat
  ee_long :: nat
  ee_threshold :: pyfloat
  ee_pivot_window :: nat
  ee_roc_window :: nat
  ee_catalog :: "catalog_entry list"

definition default_engine :: "string \<Rightarrow> catalog_entry list \<Rightarrow> event_engine" where
  "default_engine asset_id catalog =
     \<lparr>ee_asset = asset_id, ee_patterns = seed_patterns, ee_level_fraction = lit (3 / 10),
      ee_reclaim_window = 3, ee_check_back = 3, ee_short = 10, ee_long = 60,
      ee_threshold = lit (7 / 10), ee_pivot_window = 3, ee_roc_window = 5, ee_catalog = catalog\<rparr>"

text \<open>\<open>_by_id\<close>: of two entries with one id the later wins.\<close>

definition by_id :: "event_engine \<Rightarrow> string \<Rightarrow> catalog_entry option" where
  "by_id e eid = find (\<lambda>x. ev_id x = eid) (rev (ee_catalog e))"

record event_report =
  er_asset :: string
  er_closed :: nat
  er_patterns :: "hit list"
  er_sweep :: "sweep option"
  er_fakeout :: "fakeout option"
  er_squeeze :: "squeeze option"
  er_accel :: "accel option"
  er_divergences :: "divergence list"
  er_theses :: "(string \<times> catalog_entry) list"

section \<open>Analysis\<close>

text \<open>The level loops: the first level at which the detector fires.\<close>

fun first_level :: "(pyfloat \<Rightarrow> 'e option) \<Rightarrow> pyfloat list \<Rightarrow> 'e option" where
  "first_level f [] = None"
| "first_level f (l # ls) = (case f l of None \<Rightarrow> first_level f ls | Some x \<Rightarrow> Some x)"

text \<open>\<open>dict.fromkeys\<close>: each key once, in the order of first occurrence.\<close>

definition fromkeys :: "'a list \<Rightarrow> 'a list" where
  "fromkeys xs = rev (remdups (rev xs))"

fun kind_id :: "div_kind \<Rightarrow> string" where
  "kind_id Regular = ''divergence_regular''"
| "kind_id Hidden = ''divergence_hidden''"

definition theses_of :: "event_engine \<Rightarrow> string list \<Rightarrow> (string \<times> catalog_entry) list" where
  "theses_of e actives =
     concat (map (\<lambda>i. case by_id e i of None \<Rightarrow> [] | Some x \<Rightarrow> [(i, x)]) (fromkeys actives))"

definition active_id :: "bool \<Rightarrow> 'a \<Rightarrow> 'a list" where
  "active_id b x = (if b then [x] else [])"

definition match_bars :: "event_engine \<Rightarrow> bar list \<Rightarrow> hit list result" where
  "match_bars e bars = (if bars = [] then Ok [] else match_patterns (ee_patterns e) bars)"

definition make_report ::
    "event_engine \<Rightarrow> candle list \<Rightarrow> hit list \<Rightarrow> sweep option \<Rightarrow> fakeout option \<Rightarrow> squeeze option \<Rightarrow>
      accel option \<Rightarrow> divergence list \<Rightarrow> string list \<Rightarrow> event_report" where
  "make_report e candles matched sw fk sq ac ds actives =
     \<lparr>er_asset = ee_asset e, er_closed = length candles, er_patterns = matched, er_sweep = sw,
      er_fakeout = fk, er_squeeze = sq, er_accel = ac, er_divergences = ds,
      er_theses = theses_of e actives\<rparr>"

definition squeezed :: "squeeze option \<Rightarrow> bool" where
  "squeezed sq = (case sq of None \<Rightarrow> False | Some s \<Rightarrow> sq_compressed s)"

definition analyze :: "event_engine \<Rightarrow> candle list \<Rightarrow> pyfloat \<Rightarrow> pyfloat list \<Rightarrow> event_report result" where
  "analyze e candles atr levels =
     rbind (match_bars e (if 0 < atr then build_bar_features candles atr else [])) (\<lambda>matched.
       let patterns = map hit_id matched in
       if 2 \<le> length candles \<and> 0 < atr
       then let sw = first_level (\<lambda>l. detect_sweep (ee_level_fraction e) (ee_reclaim_window e) candles l atr) levels;
                fk = first_level (detect_fakeout (ee_check_back e) candles) levels
         in rbind (accel_rejection 1 (lit (6 / 5)) (lit (1 / 2)) candles atr) (\<lambda>ac.
            rbind (detect_squeeze (ee_short e) (ee_long e) (ee_threshold e) candles) (\<lambda>sq.
            rbind (detect_divergence (ee_pivot_window e) (ee_roc_window e) (map c_close candles)) (\<lambda>ds.
              Ok (make_report e candles matched sw fk sq ac ds
                (patterns @ active_id (sw \<noteq> None) ''liquidity_sweep'' @ active_id (fk \<noteq> None) ''fakeout_failed_break'' @
                 active_id (ac \<noteq> None) ''accel_to_wick_rejection'' @ active_id (squeezed sq) ''volatility_compression'' @
                 map (\<lambda>d. kind_id (dv_kind d)) ds)))))
       else Ok (make_report e candles matched None None None None [] patterns))"

section \<open>Lemmas\<close>

lemma fromkeys_props: "set (fromkeys xs) = set xs" "distinct (fromkeys xs)"
  by (simp_all add: fromkeys_def)

lemma theses_ids: "map fst (theses_of e actives) = filter (\<lambda>i. by_id e i \<noteq> None) (fromkeys actives)"
proof -
  have "map fst (concat (map (\<lambda>i. case by_id e i of None \<Rightarrow> [] | Some x \<Rightarrow> [(i, x)]) is)) =
      filter (\<lambda>i. by_id e i \<noteq> None) is" for "is"
    by (induction "is") (auto split: option.splits)
  then show ?thesis by (simp add: theses_of_def)
qed

lemma theses_entries: "list_all (\<lambda>(i, x). by_id e i = Some x) (theses_of e actives)"
  by (auto simp: theses_of_def list_all_iff split: option.splits)

lemma max_of_total: "xs \<noteq> [] \<Longrightarrow> is_ok (max_of xs)"
  by (cases xs) (auto simp: max_of_def)

lemma min_of_total: "xs \<noteq> [] \<Longrightarrow> is_ok (min_of xs)"
  by (cases xs) (auto simp: min_of_def)

lemma filter_result_total: "(\<And>x. x \<in> set xs \<Longrightarrow> is_ok (p x)) \<Longrightarrow> is_ok (filter_result p xs)"
  by (induction xs) (auto intro!: rbind_ok)

lemma is_pivot_total: "0 < w \<Longrightarrow> w \<le> i \<Longrightarrow> i + w < length vals \<Longrightarrow> is_ok (is_pivot vals w is_high i)"
  unfolding is_pivot_def Let_def
  by (intro rbind_ok max_of_total) (auto simp: slice_def intro!: rbind_ok min_of_total)

lemma pivots_total: "0 < w \<Longrightarrow> is_ok (pivots vals w is_high)"
  unfolding pivots_def by (rule filter_result_total, rule is_pivot_total) auto

lemma divergence_total: "0 < pw \<Longrightarrow> is_ok (detect_divergence pw rw closes)"
  by (auto simp: detect_divergence_def Let_def intro!: rbind_ok pivots_total)

lemma if_ok: "(b \<Longrightarrow> is_ok x) \<Longrightarrow> (\<not> b \<Longrightarrow> is_ok y) \<Longrightarrow> is_ok (if b then x else y)"
  by simp

lemma accel_total:
  assumes "is_double atr" "0 < atr"
  shows "is_ok (accel_rejection 1 r w bars atr)"
proof -
  have one: "1 * atr = atr" using assms by (cases atr) (auto simp: one_pyfloat_def to_f64_double signed_inf_def)
  have div: "is_ok (py_div x \<bar>i\<bar>)" if "\<not> \<bar>i\<bar> < atr" for x i :: pyfloat
    using that assms(2) by (cases "\<bar>i\<bar>"; cases atr) (auto simp: py_div_def zero_pyfloat_def)
  show ?thesis
    unfolding accel_rejection_def Let_def one
    by (intro if_ok rbind_ok div) (simp_all only: is_ok.simps not_False_eq_True)
qed

lemma squeeze_total: "0 < s \<Longrightarrow> 0 < l \<Longrightarrow> int s \<le> 2 ^ 53 \<Longrightarrow> int l \<le> 2 ^ 53 \<Longrightarrow> is_ok (detect_squeeze s l thr bars)"
  using float_of_nat_pos [of s] float_of_nat_pos [of l]
  by (auto simp: detect_squeeze_def Let_def py_div_def zero_pyfloat_def intro!: rbind_ok)

lemma match_bars_total: "list_all spec_ok (ee_patterns e) \<Longrightarrow> is_ok (match_bars e bars)"
  by (simp add: match_bars_def match_total)

lemma match_bars_Nil [simp]: "match_bars e [] = Ok []"
  by (simp add: match_bars_def)

lemma first_level_Some: "first_level f ls = Some x \<Longrightarrow> \<exists>l \<in> set ls. f l = Some x"
  by (induction ls) (auto split: option.splits)

definition report_actives :: "event_report \<Rightarrow> string list" where
  "report_actives r =
     map hit_id (er_patterns r) @ active_id (er_sweep r \<noteq> None) ''liquidity_sweep'' @
     active_id (er_fakeout r \<noteq> None) ''fakeout_failed_break'' @
     active_id (er_accel r \<noteq> None) ''accel_to_wick_rejection'' @
     active_id (squeezed (er_squeeze r)) ''volatility_compression'' @
     map (\<lambda>d. kind_id (dv_kind d)) (er_divergences r)"

lemma analyze_theses:
  assumes "analyze e candles atr levels = Ok r"
  shows "er_theses r = theses_of e (report_actives r)"
proof (cases "2 \<le> length candles \<and> 0 < atr")
  case True
  show ?thesis
    using assms unfolding analyze_def Let_def if_P [OF True] rbind_Inr_iff
    by (elim exE conjE, simp only: sum.inject, hypsubst)
      (simp add: make_report_def report_actives_def)
next
  case False
  show ?thesis
    using assms unfolding analyze_def Let_def if_not_P [OF False] rbind_Inr_iff
    by (elim exE conjE, simp only: sum.inject, hypsubst)
      (simp add: make_report_def report_actives_def active_id_def squeezed_def)
qed

section \<open>Properties\<close>

definition sample_engine :: event_engine where
  "sample_engine = (default_engine ''A''
     [\<lparr>ev_id = ''liquidity_sweep'', ev_mechanism = [], ev_thesis = [], ev_invalidation = [], ev_conversion = [],
       ev_family = ''structure''\<rparr>])\<lparr>ee_patterns := []\<rparr>"

definition sweep_bars :: "candle list" where
  "sweep_bars = [plain_bar 10 11 9 10, plain_bar 10 11 7 10, plain_bar 10 11 9 10]"

text \<open>
  With the default detectors and the seed patterns, analysing any candles at any price
  range and any levels never raises: the divisions by the impulse and by the averages are
  guarded, and every slice whose extremum is taken is non-empty.
\<close>

theorem default_engine_total:
  assumes "is_double atr"
  shows "is_ok (analyze (default_engine asset_id catalog) candles atr levels)"
  unfolding analyze_def Let_def
  by (auto simp: default_engine_def seeds_ok assms
      intro!: rbind_ok match_bars_total accel_total squeeze_total divergence_total)

theorem default_engine_total_witness:
  "is_ok (analyze (default_engine ''A'' []) [plain_bar 10 11 9 10, plain_bar 10 11 7 10] (Fin 2) [Fin 8])"
proof -
  have "is_double (Fin 2)" by code_simp
  then show ?thesis by (rule default_engine_total)
qed

text \<open>
  The theses of a report are the catalog's entries for exactly what fired: each active
  pattern or event that the catalog knows, once, in the order in which it fired.
\<close>

theorem theses_match_events:
  assumes "analyze e candles atr levels = Ok r"
  shows "map fst (er_theses r) = filter (\<lambda>i. by_id e i \<noteq> None) (fromkeys (report_actives r)) \<and>
    list_all (\<lambda>(i, x). by_id e i = Some x) (er_theses r) \<and> distinct (map fst (er_theses r))"
  unfolding analyze_theses [OF assms] by (simp add: theses_ids theses_entries fromkeys_props)

theorem theses_match_events_witness:
  "case analyze sample_engine sweep_bars (Fin 2) [Fin 8] of
     Inl _ \<Rightarrow> False | Inr r \<Rightarrow> map fst (er_theses r) = [''liquidity_sweep'']"
proof -
  have e: "case analyze sample_engine sweep_bars (Fin 2) [Fin 8] of
     Inl _ \<Rightarrow> False | Inr r \<Rightarrow> filter (\<lambda>i. by_id sample_engine i \<noteq> None) (fromkeys (report_actives r)) = [''liquidity_sweep'']"
    by code_simp
  then obtain r where "analyze sample_engine sweep_bars (Fin 2) [Fin 8] = Ok r"
    by (auto split: sum.splits)
  with e theses_match_events [OF this] show ?thesis by simp
qed

text \<open>
  Without a positive price range (zero, negative or NaN) the report is silent, whatever
  the candles: no pattern, no event, no thesis.
\<close>

theorem no_range_no_events:
  assumes "\<not> 0 < atr"
  shows "analyze e candles atr levels = Ok
    \<lparr>er_asset = ee_asset e, er_closed = length candles, er_patterns = [], er_sweep = None, er_fakeout = None,
     er_squeeze = None, er_accel = None, er_divergences = [], er_theses = []\<rparr>"
  using assms by (simp add: analyze_def make_report_def theses_of_def fromkeys_def)

theorem no_range_no_events_witness:
  "case analyze sample_engine sweep_bars 0 [Fin 8] of Inl _ \<Rightarrow> False | Inr r \<Rightarrow> er_theses r = []"
  by (subst no_range_no_events) simp_all

end
