(* ===== verification/SequenceStats.thy ===== *)
theory SequenceStats
  imports Candles
begin

text \<open>
  \<open>cortex/cortex/sequence_stats.py\<close>: conditional base rates of the next bar's direction and
  of reversals after streaks. The two observation loops are proved to be histograms of
  their data, indexed by a context read off the prefix seen so far.
\<close>

section \<open>Conditional statistics\<close>

record cond_stats =
  cs_up :: nat
  cs_down :: nat

definition no_stats :: cond_stats where
  "no_stats = \<lparr>cs_up = 0, cs_down = 0\<rparr>"

definition p_up :: "pyfloat \<Rightarrow> cond_stats \<Rightarrow> pyfloat" where
  "p_up alpha s = (float_of_nat (cs_up s) + alpha) / (float_of_nat (cs_up s + cs_down s) + Fin 2 * alpha)"

definition p_down :: "pyfloat \<Rightarrow> cond_stats \<Rightarrow> pyfloat" where
  "p_down alpha s = (float_of_nat (cs_down s) + alpha) / (float_of_nat (cs_up s + cs_down s) + Fin 2 * alpha)"

definition sign_of :: "pyfloat \<Rightarrow> int" where
  "sign_of v = (if 0 < v then 1 else 0) - (if v < 0 then 1 else 0)"

text \<open>\<open>setdefault\<close> followed by the increment.\<close>

definition tally :: "'k \<Rightarrow> bool \<Rightarrow> ('k \<Rightarrow> cond_stats option) \<Rightarrow> ('k \<Rightarrow> cond_stats option)" where
  "tally k up tab =
     (let s = (case tab k of None \<Rightarrow> no_stats | Some s \<Rightarrow> s)
      in tab(k := Some (if up then s\<lparr>cs_up := cs_up s + 1\<rparr> else s\<lparr>cs_down := cs_down s + 1\<rparr>)))"

section \<open>Contexts\<close>

type_synonym ctx = "nat \<times> int \<times> nat"

definition body_bucket :: "pyfloat \<Rightarrow> pyfloat \<Rightarrow> nat" where
  "body_bucket body_abs atr =
     (if atr \<le> 0 then 0
      else if body_abs / atr < lit (1 / 2) then 0
      else if body_abs / atr < Fin 2 then 1 else 2)"

definition streak_bucket :: "nat \<Rightarrow> nat" where
  "streak_bucket streak = (if streak \<le> 1 then 0 else if streak = 2 then 1 else 2)"

definition bar_sign :: "candle \<Rightarrow> int" where
  "bar_sign c = sign_of (c_close c - c_open c)"

definition bar_context :: "pyfloat \<Rightarrow> nat \<Rightarrow> candle \<Rightarrow> ctx" where
  "bar_context atr streak c = (body_bucket \<bar>c_close c - c_open c\<bar> atr, bar_sign c, streak_bucket streak)"

section \<open>Observing candles\<close>

record seq_stats =
  st_table :: "ctx \<Rightarrow> cond_stats option"
  st_streak_rev :: "bool \<times> nat \<Rightarrow> cond_stats option"
  st_depths :: "pyfloat list"

definition new_seq_stats :: seq_stats where
  "new_seq_stats = \<lparr>st_table = Map.empty, st_streak_rev = Map.empty, st_depths = []\<rparr>"

text \<open>The loop over \<open>candles[1:]\<close>; the next bar is the head of what remains.\<close>

fun observe_loop ::
    "pyfloat \<Rightarrow> nat \<Rightarrow> int option \<Rightarrow> (ctx \<Rightarrow> cond_stats option) \<Rightarrow> candle list \<Rightarrow> (ctx \<Rightarrow> cond_stats option)" where
  "observe_loop atr streak prev tab [] = tab"
| "observe_loop atr streak prev tab (c # rest) =
     (if bar_sign c = 0 then observe_loop atr streak prev tab rest
      else let run = (if prev = Some (bar_sign c) then streak + 1 else 1);
               tab' = (case rest of
                   [] \<Rightarrow> tab
                 | n # _ \<Rightarrow> if bar_sign n = 0 then tab else tally (bar_context atr run c) (0 < bar_sign n) tab)
        in observe_loop atr run (Some (bar_sign c)) tab' rest)"

definition observe :: "candle list \<Rightarrow> pyfloat \<Rightarrow> seq_stats \<Rightarrow> seq_stats" where
  "observe candles atr s =
     (if length candles < 3 \<or> atr \<le> 0 then s
      else s\<lparr>st_table := observe_loop atr 0 None (st_table s) (tl candles)\<rparr>)"

definition expectation :: "pyfloat \<Rightarrow> pyfloat \<Rightarrow> int \<Rightarrow> nat \<Rightarrow> seq_stats \<Rightarrow> cond_stats" where
  "expectation body_abs atr direction streak s =
     (case st_table s (body_bucket body_abs atr, direction, streak_bucket streak) of
        None \<Rightarrow> no_stats | Some x \<Rightarrow> x)"

section \<open>Streak extremes\<close>

text \<open>The loop over the moves \<open>hist[i] - hist[i - 1]\<close>, as signs.\<close>

fun streak_loop ::
    "nat \<Rightarrow> nat \<Rightarrow> int option \<Rightarrow> (bool \<times> nat \<Rightarrow> cond_stats option) \<Rightarrow> int list \<Rightarrow> (bool \<times> nat \<Rightarrow> cond_stats option)" where
  "streak_loop n run prev tab [] = tab"
| "streak_loop n run prev tab (d # rest) =
     (if d = 0 then streak_loop n 0 None tab rest
      else let r = (if prev = Some d then run + 1 else 1);
               tab' = (case rest of
                   [] \<Rightarrow> tab
                 | nd # _ \<Rightarrow> if n \<le> r \<and> nd \<noteq> 0 then tally (0 < d, r) (0 < nd) tab else tab)
        in streak_loop n r (Some d) tab' rest)"

fun moves :: "pyfloat list \<Rightarrow> int list" where
  "moves (a # b # xs) = sign_of (b - a) # moves (b # xs)"
| "moves _ = []"

definition observe_streaks :: "pyfloat list \<Rightarrow> nat \<Rightarrow> seq_stats \<Rightarrow> seq_stats" where
  "observe_streaks hist n s = s\<lparr>st_streak_rev := streak_loop n 0 None Map.empty (moves hist)\<rparr>"

text \<open>
  The returned dictionary: for a side and a run, \<open>p_reverse_<side>_<run>\<close> and
  \<open>n_<side>_<run>\<close>.
\<close>

definition streak_report :: "seq_stats \<Rightarrow> bool \<Rightarrow> nat \<Rightarrow> (pyfloat \<times> pyfloat) option" where
  "streak_report s bullish run =
     map_option (\<lambda>c. (if bullish then p_down 1 c else p_up 1 c, float_of_nat (cs_up c + cs_down c)))
       (st_streak_rev s (bullish, run))"

section \<open>Survived depths\<close>

definition push_depth :: "pyfloat \<Rightarrow> seq_stats \<Rightarrow> seq_stats" where
  "push_depth x s =
     (let xs = st_depths s @ [x]
      in s\<lparr>st_depths := (if 200 < length xs then lastn 200 xs else xs)\<rparr>)"

definition record_alive_depth :: "pyfloat \<Rightarrow> seq_stats \<Rightarrow> seq_stats" where
  "record_alive_depth d s = (if 0 < d \<and> d < 1 then push_depth d s else s)"

definition depth_percentile :: "pyfloat \<Rightarrow> seq_stats \<Rightarrow> pyfloat" where
  "depth_percentile x s =
     (if st_depths s = [] then lit (1 / 2)
      else py_sum (map (\<lambda>_. 1) (filter (\<lambda>d. d < x) (st_depths s))) / float_of_nat (length (st_depths s)))"

definition reset_stats :: "seq_stats \<Rightarrow> seq_stats" where
  "reset_stats s = s\<lparr>st_table := Map.empty, st_streak_rev := Map.empty, st_depths := []\<rparr>"

interpretation depths: bounded_history push_depth st_depths "\<lambda>_. 200"
  by unfold_locales (simp_all add: push_depth_def Let_def lastn_all)

section \<open>Histograms\<close>

text \<open>A table is the histogram of a list of (context, went up) observations.\<close>

definition histogram :: "('k \<times> bool) list \<Rightarrow> ('k \<Rightarrow> cond_stats option)" where
  "histogram obs k =
     (if k \<in> fst ` set obs
      then Some \<lparr>cs_up = count_list obs (k, True), cs_down = count_list obs (k, False)\<rparr> else None)"

lemma histogram_Nil [simp]: "histogram [] = Map.empty"
  by (auto simp: histogram_def)

lemma tally_histogram: "tally k up (histogram obs) = histogram (obs @ [(k, up)])"
proof
  fix k'
  have "count_list obs (k', b) = 0" if "k' \<notin> fst ` set obs" for b
    using that by (force simp: count_list_0_iff)
  then show "tally k up (histogram obs) k' = histogram (obs @ [(k, up)]) k'"
    by (auto simp: tally_def histogram_def no_stats_def Let_def)
qed

text \<open>The length of the run of equal values at the end of a list.\<close>

definition trailing_run :: "int list \<Rightarrow> nat" where
  "trailing_run ds = (if ds = [] then 0 else length (takeWhile (\<lambda>d. d = last ds) (rev ds)))"

lemma trailing_run_snoc:
  "trailing_run (ds @ [d]) = (if ds \<noteq> [] \<and> last ds = d then trailing_run ds + 1 else 1)"
  by (cases ds rule: rev_cases) (auto simp: trailing_run_def)

definition last_of :: "'a list \<Rightarrow> 'a option" where
  "last_of xs = (if xs = [] then None else Some (last xs))"

text \<open>
  The observations in a list of bars: every bar with a direction whose successor has one,
  with the run of directions (dojis skipped) that ends at it.
\<close>

definition signs :: "candle list \<Rightarrow> int list" where
  "signs cs = filter (\<lambda>d. d \<noteq> 0) (map bar_sign cs)"

fun observations :: "pyfloat \<Rightarrow> candle list \<Rightarrow> candle list \<Rightarrow> (ctx \<times> bool) list" where
  "observations atr seen (c # n # rest) =
     (if bar_sign c \<noteq> 0 \<and> bar_sign n \<noteq> 0
      then [(bar_context atr (trailing_run (signs (seen @ [c]))) c, 0 < bar_sign n)] else [])
     @ observations atr (seen @ [c]) (n # rest)"
| "observations atr seen _ = []"

lemma observe_loop_histogram:
  "observe_loop atr (trailing_run (signs seen)) (last_of (signs seen)) (histogram obs) cs =
     histogram (obs @ observations atr seen cs)"
proof (induction cs arbitrary: seen obs)
  case (Cons c rest)
  show ?case
  proof (cases "bar_sign c = 0")
    case True
    then have s: "signs (seen @ [c]) = signs seen" by (simp add: signs_def)
    show ?thesis using Cons.IH [of "seen @ [c]" obs] True unfolding s by (cases rest) simp_all
  next
    case False
    then have s: "signs (seen @ [c]) = signs seen @ [bar_sign c]" by (simp add: signs_def)
    have l: "last_of (signs (seen @ [c])) = Some (bar_sign c)" by (simp add: s last_of_def)
    have r: "(if last_of (signs seen) = Some (bar_sign c) then trailing_run (signs seen) + 1 else 1) =
        trailing_run (signs (seen @ [c]))"
      unfolding s trailing_run_snoc by (auto simp: last_of_def)
    show ?thesis
    proof (cases rest)
      case Nil
      then show ?thesis by simp
    next
      case (Cons n rest')
      have "observe_loop atr (trailing_run (signs seen)) (last_of (signs seen)) (histogram obs) (c # rest) =
          observe_loop atr (trailing_run (signs (seen @ [c]))) (last_of (signs (seen @ [c])))
            (if bar_sign n = 0 then histogram obs
             else tally (bar_context atr (trailing_run (signs (seen @ [c]))) c) (0 < bar_sign n) (histogram obs)) rest"
        using False unfolding l by (simp add: Cons r Let_def del: observe_loop.simps(1))
      then show ?thesis
        using Cons.IH [of "seen @ [c]"] False by (simp add: Cons tally_histogram del: observe_loop.simps)
    qed
  qed
qed simp

text \<open>The reversal observations in a list of moves: the runs of at least \<open>n\<close> equal moves.\<close>

fun reversals :: "nat \<Rightarrow> int list \<Rightarrow> int list \<Rightarrow> ((bool \<times> nat) \<times> bool) list" where
  "reversals n seen (d # nd # rest) =
     (if d \<noteq> 0 \<and> nd \<noteq> 0 \<and> n \<le> trailing_run (seen @ [d])
      then [((0 < d, trailing_run (seen @ [d])), 0 < nd)] else [])
     @ reversals n (seen @ [d]) (nd # rest)"
| "reversals n seen _ = []"

definition last_move :: "int list \<Rightarrow> int option" where
  "last_move ds = (if ds = [] \<or> last ds = 0 then None else Some (last ds))"

definition last_run :: "int list \<Rightarrow> nat" where
  "last_run ds = (if last_move ds = None then 0 else trailing_run ds)"

lemma streak_loop_histogram:
  "streak_loop n (last_run seen) (last_move seen) (histogram obs) ds = histogram (obs @ reversals n seen ds)"
proof (induction ds arbitrary: seen obs)
  case (Cons d rest)
  show ?case
  proof (cases "d = 0")
    case True
    then have "last_run (seen @ [d]) = 0" "last_move (seen @ [d]) = None" by (simp_all add: last_run_def last_move_def)
    then show ?thesis using Cons.IH [of "seen @ [d]" obs] True by (cases rest) simp_all
  next
    case False
    then have l: "last_move (seen @ [d]) = Some d" "last_run (seen @ [d]) = trailing_run (seen @ [d])"
      by (simp_all add: last_run_def last_move_def)
    have r: "(if last_move seen = Some d then last_run seen + 1 else 1) = trailing_run (seen @ [d])"
      using False unfolding trailing_run_snoc by (auto simp: last_move_def last_run_def split: if_splits)
    show ?thesis
    proof (cases rest)
      case (Cons nd rest')
      have "streak_loop n (last_run seen) (last_move seen) (histogram obs) (d # rest) =
          streak_loop n (last_run (seen @ [d])) (last_move (seen @ [d]))
            (if n \<le> trailing_run (seen @ [d]) \<and> nd \<noteq> 0
             then tally (0 < d, trailing_run (seen @ [d])) (0 < nd) (histogram obs) else histogram obs) rest"
        using False unfolding l by (simp add: Cons r Let_def del: streak_loop.simps(1))
      then show ?thesis
        using Cons.IH [of "seen @ [d]"] False by (simp add: Cons tally_histogram del: streak_loop.simps)
    qed simp
  qed
qed simp

section \<open>Rates\<close>

lemma rate_unit:
  assumes "m \<le> k" "int k + 2 \<le> 2 ^ 53"
  shows "0 \<le> (float_of_nat m + 1) / (float_of_nat k + Fin 2 * 1) \<and>
    (float_of_nat m + 1) / (float_of_nat k + Fin 2 * 1) \<le> (1 :: pyfloat)"
proof -
  have fl: "float_of_nat j + Fin (of_nat i) = float_of_nat (j + i)" if "int j + int i \<le> 2 ^ 53" for i j
    using that to_f64_int [of "int j"] to_f64_int [of "int j + int i"] by (simp add: float_of_int_def)
  have two: "Fin 2 * 1 = (Fin 2 :: pyfloat)" using to_f64_int [of 2] by (simp add: one_pyfloat_def)
  have "float_of_nat m + 1 = float_of_nat (m + 1)" "float_of_nat k + Fin 2 * 1 = float_of_nat (k + 2)"
    using fl [of m 1] fl [of k 2] assms by (simp_all only: two) (simp_all add: one_pyfloat_def)
  then show ?thesis using fraction_unit [of "m + 1" "k + 2"] assms by simp
qed

lemma rates_bounded:
  assumes "int (cs_up s + cs_down s) + 2 \<le> 2 ^ 53"
  shows "0 \<le> p_up 1 s \<and> p_up 1 s \<le> 1" "0 \<le> p_down 1 s \<and> p_down 1 s \<le> 1"
  using rate_unit [of "cs_up s" "cs_up s + cs_down s"] rate_unit [of "cs_down s" "cs_up s + cs_down s"] assms
  by (simp_all add: p_up_def p_down_def)

lemma count_list_pair: "count_list xs (k, True) + count_list xs (k, False) \<le> length xs"
  by (induction xs) auto

lemma length_reversals: "length (reversals n seen ds) \<le> length ds"
  by (induction n seen ds rule: reversals.induct) auto

lemma length_moves: "length (moves hist) \<le> length hist"
  by (induction hist rule: moves.induct) auto

definition observed_in :: "candle list \<times> pyfloat \<Rightarrow> (ctx \<times> bool) list" where
  "observed_in = (\<lambda>(cs, atr). if length cs < 3 \<or> atr \<le> 0 then [] else observations atr [] (tl cs))"

lemma observe_histogram:
  "st_table s = histogram obs \<Longrightarrow> st_table (observe cs atr s) = histogram (obs @ observed_in (cs, atr))"
  using observe_loop_histogram [of atr "[]" obs "tl cs"]
  by (auto simp: observe_def observed_in_def trailing_run_def signs_def last_of_def)

section \<open>Properties\<close>


text \<open>
  The streak report counts, for each side and length of run (at least \<open>n\<close>), the moves
  after such a run; the reversal rate it reports is the Laplace-smoothed share of opposite
  moves and lies between 0 and 1.
\<close>

theorem streak_report_rates:
  assumes "int (length hist) + 2 \<le> 2 ^ 53"
  shows "case streak_report (observe_streaks hist n s) bullish run of
      None \<Rightarrow> filter (\<lambda>(k, up). k = (bullish, run)) (reversals n [] (moves hist)) = []
    | Some (p, k) \<Rightarrow>
        (let same = count_list (reversals n [] (moves hist)) ((bullish, run), bullish);
             opposite = count_list (reversals n [] (moves hist)) ((bullish, run), \<not> bullish)
         in k = float_of_nat (same + opposite) \<and> 0 \<le> p \<and> p \<le> 1 \<and>
            p = (float_of_nat opposite + 1) / (float_of_nat (same + opposite) + Fin 2 * 1))"
proof -
  let ?r = "reversals n [] (moves hist)"
  have h: "st_streak_rev (observe_streaks hist n s) = histogram ?r"
    using streak_loop_histogram [of n "[]" "[]" "moves hist"]
    by (simp add: observe_streaks_def last_run_def last_move_def)
  have len: "count_list ?r (k, True) + count_list ?r (k, False) \<le> length hist" for k
    using count_list_pair [of ?r k] length_reversals [of n "[]" "moves hist"] length_moves [of hist] by linarith
  show ?thesis
  proof (cases "(bullish, run) \<in> fst ` set ?r")
    case False
    then show ?thesis by (force simp: streak_report_def h histogram_def filter_empty_conv)
  next
    case True
    then show ?thesis
      using rates_bounded [of "\<lparr>cs_up = count_list ?r ((bullish, run), True), cs_down = count_list ?r ((bullish, run), False)\<rparr>"]
        len [of "(bullish, run)"] assms
      by (auto simp: streak_report_def h histogram_def Let_def p_up_def p_down_def add.commute)
  qed
qed

theorem streak_report_rates_witness:
  "case streak_report (observe_streaks [Fin 1, Fin 2, Fin 3, Fin 4, Fin 3] 3 new_seq_stats) True 3 of
     None \<Rightarrow> False | Some (p, k) \<Rightarrow> k = Fin 1 \<and> p \<le> 1"
proof -
  have e: "case streak_report (observe_streaks [Fin 1, Fin 2, Fin 3, Fin 4, Fin 3] 3 new_seq_stats) True 3 of
     None \<Rightarrow> False | Some (p, k) \<Rightarrow> k = Fin 1"
    by code_simp
  then obtain p k where s: "streak_report (observe_streaks [Fin 1, Fin 2, Fin 3, Fin 4, Fin 3] 3 new_seq_stats) True 3 = Some (p, k)"
    by (auto split: option.splits)
  have "int (length [Fin 1, Fin 2, Fin 3, Fin 4, Fin 3]) + 2 \<le> 2 ^ 53" by simp
  from streak_report_rates [OF this, of True 3 3 new_seq_stats] have "p \<le> 1"
    unfolding s option.case prod.case Let_def by blast
  with e show ?thesis unfolding s by simp
qed

end
