(* ===== verification/Learning.thy ===== *)
theory Learning
  imports SequenceStats
begin

text \<open>
  The two next-candle learners: the base-rate drill of \<open>cortex/cortex/next_candle.py\<close> and the
  walk-forward classifier of \<open>cortex/cortex/ml.py\<close>. The candles they walk over are given
  (\<open>LiveDrills\<close> fetches them); the classifier library is an interface.
\<close>

section \<open>Colours, streaks and ranges\<close>

definition colour :: "candle \<Rightarrow> int" where
  "colour c = (if c_open c < c_close c then 1 else 0) - (if c_close c < c_open c then 1 else 0)"

text \<open>The \<open>while\<close> loop: bars of one colour directly before the index, going back.\<close>

fun run_back :: "candle list \<Rightarrow> int \<Rightarrow> nat \<Rightarrow> nat" where
  "run_back hist col 0 = 0"
| "run_back hist col (Suc j) = (if colour (hist ! j) = col then Suc (run_back hist col j) else 0)"

definition streak_at :: "candle list \<Rightarrow> nat \<Rightarrow> nat" where
  "streak_at hist i = (if colour (hist ! i) = 0 then 0 else Suc (run_back hist (colour (hist ! i)) i))"

fun bar_ranges :: "candle list \<Rightarrow> pyfloat list" where
  "bar_ranges (p # c # cs) =
     py_max (py_max (c_high c - c_low c) \<bar>c_high c - c_close p\<bar>) \<bar>c_low c - c_close p\<bar> # bar_ranges (c # cs)"
| "bar_ranges _ = []"

definition simple_atr :: "candle list \<Rightarrow> pyfloat" where
  "simple_atr cs =
     (if length cs < 2 then 0
      else let window = lastn 14 (bar_ranges cs) in py_sum window / float_of_nat (length window))"

section \<open>The base-rate drill\<close>

type_synonym drill_key = "int \<times> nat \<times> nat"

record drill =
  dr_confidence :: pyfloat
  dr_table :: "drill_key \<Rightarrow> cond_stats option"
  dr_decisions :: "(bool \<times> bool) list"
  dr_calls :: nat

definition new_drill :: "pyfloat \<Rightarrow> drill" where
  "new_drill conf = \<lparr>dr_confidence = conf, dr_table = Map.empty, dr_decisions = [], dr_calls = 0\<rparr>"

definition size_bucket :: "candle \<Rightarrow> pyfloat \<Rightarrow> nat" where
  "size_bucket c atr =
     (if Fin 2 * atr \<le> \<bar>c_close c - c_open c\<bar> then 2 else if atr \<le> \<bar>c_close c - c_open c\<bar> then 1 else 0)"

definition drill_key_at :: "candle list \<Rightarrow> nat \<Rightarrow> drill_key" where
  "drill_key_at hist i =
     (colour (hist ! i), streak_at hist i, size_bucket (hist ! i) (simple_atr (take (i + 1) hist)))"

definition fit_accumulate :: "candle list \<Rightarrow> nat \<Rightarrow> drill \<Rightarrow> drill" where
  "fit_accumulate hist i d =
     (if length hist \<le> i + 1 \<or> colour (hist ! i) = 0 then d
      else let k = drill_key_at hist i; nxt = colour (hist ! (i + 1))
        in d\<lparr>dr_table :=
             (if nxt \<noteq> 0 then tally k (0 < nxt) (dr_table d)
              else (dr_table d)(k := Some (case dr_table d k of None \<Rightarrow> no_stats | Some s \<Rightarrow> s)))\<rparr>)"

definition predict :: "candle list \<Rightarrow> drill \<Rightarrow> int option" where
  "predict hist d =
     (if hist = [] \<or> colour (last hist) = 0 then None
      else case dr_table d (drill_key_at hist (length hist - 1)) of
          None \<Rightarrow> None
        | Some s \<Rightarrow>
            if cs_up s + cs_down s = 0 then None
            else if dr_confidence d \<le> p_up 1 s then Some 1
            else if p_up 1 s \<le> 1 - dr_confidence d then Some (- 1)
            else None)"

definition on_realised :: "int option \<Rightarrow> int \<Rightarrow> drill \<Rightarrow> drill" where
  "on_realised call actual d =
     (let d1 = d\<lparr>dr_calls := dr_calls d + 1\<rparr>
      in case call of
          None \<Rightarrow> d1
        | Some c \<Rightarrow> if actual = 0 then d1 else d1\<lparr>dr_decisions := dr_decisions d1 @ [(c = actual, 0 < c)]\<rparr>)"

record drill_score =
  ds_decisions :: nat
  ds_accuracy :: pyfloat
  ds_coverage :: pyfloat
  ds_green :: nat
  ds_red :: nat
  ds_base :: pyfloat

definition ratio_or_zero :: "nat \<Rightarrow> nat \<Rightarrow> pyfloat" where
  "ratio_or_zero m n = (if n = 0 then 0 else float_of_nat m / float_of_nat n)"

text \<open>\<open>_base_rate\<close> sums over the values of the table.\<close>

definition table_sum :: "(cond_stats \<Rightarrow> nat) \<Rightarrow> drill \<Rightarrow> nat" where
  "table_sum f d = (\<Sum>k\<in>dom (dr_table d). f (the (dr_table d k)))"

definition base_rate :: "drill \<Rightarrow> pyfloat" where
  "base_rate d = ratio_or_zero (table_sum cs_up d) (table_sum cs_up d + table_sum cs_down d)"

definition score :: "drill \<Rightarrow> drill_score" where
  "score d =
     \<lparr>ds_decisions = length (dr_decisions d),
      ds_accuracy = ratio_or_zero (length (filter fst (dr_decisions d))) (length (dr_decisions d)),
      ds_coverage = ratio_or_zero (length (dr_decisions d)) (dr_calls d),
      ds_green = length (filter snd (dr_decisions d)),
      ds_red = length (filter (\<lambda>x. \<not> snd x) (dr_decisions d)),
      ds_base = base_rate d\<rparr>"

text \<open>\<open>run_live_drill\<close> on the fetched candles: fitting, then scoring.\<close>

definition fit_phase :: "candle list \<Rightarrow> nat \<Rightarrow> drill \<Rightarrow> drill" where
  "fit_phase cs history d = fold (fit_accumulate cs) [30 ..< history - 1] d"

definition score_step :: "candle list \<Rightarrow> nat \<Rightarrow> drill \<Rightarrow> drill" where
  "score_step cs i d =
     (let hist = take (i + 1) cs; d1 = fit_accumulate hist i d
      in on_realised (predict hist d1) (colour (cs ! (i + 1))) d1)"

definition run_drill :: "candle list \<Rightarrow> nat \<Rightarrow> drill option" where
  "run_drill cs history =
     (if length cs < history + 30 then None
      else Some (fold (score_step cs) [history - 1 ..< length cs - 1]
                  (fit_phase cs history (new_drill (lit (54 / 100))))))"

section \<open>Features\<close>

definition clamp_from :: "nat \<Rightarrow> nat \<Rightarrow> 'a list \<Rightarrow> 'a list" where
  "clamp_from back i xs = take (i + 1 - (i - back)) (drop (i - back) xs)"

definition features_for :: "candle list \<Rightarrow> nat \<Rightarrow> pyfloat list" where
  "features_for cs i =
     (let c = cs ! i;
          atr = simple_atr (clamp_from 16 i cs);
          closes = map c_close (clamp_from 9 i cs);
          body = c_close c - c_open c;
          rng = c_high c - c_low c;
          up = (if 0 < colour c then streak_at cs i else 0);
          dn = (if colour c < 0 then streak_at cs i else 0)
      in [float_of_int (colour c),
          (if 0 < atr then body / atr else 0),
          (if 0 < atr then rng / atr else 0),
          py_min (float_of_nat up) (Fin 6),
          py_min (float_of_nat dn) (Fin 6),
          (if 0 < atr \<and> closes \<noteq> [] then (c_close c - hd closes) / atr else 0),
          (if 0 < rng then body / rng else 0)])"

section \<open>The walk-forward classifier\<close>

text \<open>
  The classifier library: fitting may fail; querying answers the probabilities and the classes,
  or fails.
\<close>

record 'm library =
  lb_fit :: "pyfloat list list \<Rightarrow> int list \<Rightarrow> 'm option"
  lb_proba :: "'m \<Rightarrow> pyfloat list \<Rightarrow> (pyfloat list \<times> int list) option"

text \<open>\<open>_proba_green\<close>: \<open>None\<close> is an abstention; \<open>classes.index(1)\<close> raises when 1 is no class.\<close>

fun index_of :: "int \<Rightarrow> int list \<Rightarrow> nat result" where
  "index_of k [] = Raise ValueError"
| "index_of k (x # xs) = (if x = k then Ok 0 else rbind (index_of k xs) (\<lambda>n. Ok (Suc n)))"

definition proba_green :: "'m library \<Rightarrow> 'm \<Rightarrow> pyfloat list \<Rightarrow> pyfloat option result" where
  "proba_green lib m feats =
     (case lb_proba lib m feats of
        None \<Rightarrow> Ok None
      | Some (ps, ks) \<Rightarrow>
          if length ks = 1 then Ok (Some (if hd ks = 1 then 1 else 0))
          else if length ps = 2 then rbind (index_of 1 ks) (\<lambda>n. Ok (Some (ps ! n)))
          else Ok None)"

record 'm learner =
  ml_min_train :: nat
  ml_warmup :: nat
  ml_retrain :: nat
  ml_window :: "nat option"
  ml_history :: "candle list"
  ml_pending :: "int option"
  ml_clf :: "'m option"
  ml_since :: nat
  ml_decisions :: "(int \<times> int) list"

definition new_learner :: "nat \<Rightarrow> nat \<Rightarrow> nat \<Rightarrow> nat option \<Rightarrow> 'm learner" where
  "new_learner min_train warmup retrain window =
     \<lparr>ml_min_train = min_train, ml_warmup = warmup, ml_retrain = retrain, ml_window = window,
      ml_history = [], ml_pending = None, ml_clf = None, ml_since = 0, ml_decisions = []\<rparr>"

definition training_set :: "'m learner \<Rightarrow> (pyfloat list list \<times> int list)" where
  "training_set l =
     (let n = length (ml_history l);
          start = (case ml_window l of None \<Rightarrow> 0 | Some w \<Rightarrow> n - w);
          is = [max (ml_warmup l) start ..< n - 1]
      in (map (features_for (ml_history l)) is, map (\<lambda>i. colour (ml_history l ! (i + 1))) is))"

text \<open>The first half of \<open>step\<close>: the new candle scores the pending call.\<close>

definition settle :: "candle \<Rightarrow> 'm learner \<Rightarrow> 'm learner" where
  "settle c l =
     (let l1 = l\<lparr>ml_history := ml_history l @ [c]\<rparr>
      in case ml_pending l1 of
          None \<Rightarrow> l1
        | Some call \<Rightarrow>
            (if colour c \<noteq> 0 then l1\<lparr>ml_decisions := ml_decisions l1 @ [(call, colour c)]\<rparr> else l1)
              \<lparr>ml_pending := None\<rparr>)"

text \<open>The second half: refit when due, then call.\<close>

definition refit :: "'m library \<Rightarrow> 'm learner \<Rightarrow> 'm learner \<times> bool" where
  "refit lib l =
     (if ml_retrain l \<le> ml_since l \<or> ml_clf l = None
      then let (X, y) = training_set l in
        if length X < ml_min_train l then (l, False)
        else case lb_fit lib X y of
            None \<Rightarrow> (l, False)
          | Some m \<Rightarrow> (l\<lparr>ml_clf := Some m, ml_since := 0\<rparr>, True)
      else (l, True))"

definition issue_call :: "'m library \<Rightarrow> 'm learner \<Rightarrow> 'm learner \<times> int option result" where
  "issue_call lib l =
     (case ml_clf l of
        None \<Rightarrow> (l, Ok None)
      | Some m \<Rightarrow>
          (case proba_green lib m (features_for (ml_history l) (length (ml_history l) - 1)) of
             Inl e \<Rightarrow> (l, Raise e)
           | Inr None \<Rightarrow> (l, Ok None)
           | Inr (Some p) \<Rightarrow>
               (let call = (if lit (1 / 2) \<le> p then 1 else - 1)
                in (l\<lparr>ml_pending := Some call\<rparr>, Ok (Some call)))))"

definition step :: "'m library \<Rightarrow> candle \<Rightarrow> 'm learner \<Rightarrow> 'm learner \<times> int option result" where
  "step lib c l =
     (let l1 = settle c l in
      if length (ml_history l1) < ml_warmup l1 + 2 then (l1, Ok None)
      else case refit lib (l1\<lparr>ml_since := ml_since l1 + 1\<rparr>) of
          (l2, False) \<Rightarrow> (l2, Ok None)
        | (l2, True) \<Rightarrow> issue_call lib l2)"

record ml_report =
  mr_seen :: nat
  mr_scored :: nat
  mr_accuracy :: pyfloat
  mr_green_accuracy :: pyfloat
  mr_red_accuracy :: pyfloat
  mr_green :: nat
  mr_red :: nat

definition report :: "'m learner \<Rightarrow> ml_report" where
  "report l =
     (let ds = ml_decisions l;
          hits = length (filter (\<lambda>(c, a). c = a) ds);
          greens = length (filter (\<lambda>(c, a). c = 1) ds);
          greens_right = length (filter (\<lambda>(c, a). c = 1 \<and> c = a) ds);
          reds = length ds - greens;
          reds_right = length (filter (\<lambda>(c, a). c = - 1 \<and> c = a) ds)
      in \<lparr>mr_seen = length (ml_history l), mr_scored = length ds,
          mr_accuracy = ratio_or_zero hits (length ds),
          mr_green_accuracy = ratio_or_zero greens_right greens,
          mr_red_accuracy = ratio_or_zero reds_right reds, mr_green = greens, mr_red = reds\<rparr>)"

text \<open>\<open>run_live_ml\<close> and \<open>run_scale_ml\<close> step over the candles; an escaping exception ends the walk.\<close>

fun walk :: "'m library \<Rightarrow> candle list \<Rightarrow> 'm learner \<Rightarrow> 'm learner \<times> int option list result" where
  "walk lib [] l = (l, Ok [])"
| "walk lib (c # cs) l =
     (case step lib c l of
        (l1, Inl e) \<Rightarrow> (l1, Raise e)
      | (l1, Inr call) \<Rightarrow>
          (case walk lib cs l1 of
             (l2, Inl e) \<Rightarrow> (l2, Raise e)
           | (l2, Inr calls) \<Rightarrow> (l2, Ok (call # calls))))"

definition run_live_ml :: "'m library \<Rightarrow> candle list \<Rightarrow> nat \<Rightarrow> ('m learner \<times> int option list result) option" where
  "run_live_ml lib cs history =
     (if length cs < history + 30 then None
      else Some (walk lib (drop 300 (butlast cs)) (new_learner 250 300 1 None)))"

text \<open>The learner after the walk, and the base rate of green candles.\<close>

definition run_scale_ml ::
    "'m library \<Rightarrow> candle list \<Rightarrow> nat \<Rightarrow> nat \<Rightarrow> nat \<Rightarrow> (('m learner \<times> int option list result) \<times> pyfloat) option" where
  "run_scale_ml lib cs warmup window retrain =
     (if length cs < warmup + 200 then None
      else let up = length (filter (\<lambda>c. c_open c < c_close c) cs);
               dn = length (filter (\<lambda>c. c_close c < c_open c) cs)
        in Some (walk lib (drop warmup (butlast cs)) (new_learner 200 warmup retrain (Some window)),
                 ratio_or_zero up (up + dn)))"

section \<open>Lemmas\<close>

subsection \<open>Point in time\<close>

definition same_past :: "nat \<Rightarrow> 'a list \<Rightarrow> 'a list \<Rightarrow> bool" where
  "same_past i xs ys \<longleftrightarrow> i < length xs \<and> i < length ys \<and> take (Suc i) xs = take (Suc i) ys"

lemma same_past_nth: "same_past i xs ys \<Longrightarrow> j \<le> i \<Longrightarrow> xs ! j = ys ! j"
  unfolding same_past_def by (metis less_Suc_eq_le nth_take)

lemma run_back_cong: "(\<And>j. j < n \<Longrightarrow> xs ! j = ys ! j) \<Longrightarrow> run_back xs col n = run_back ys col n"
  by (induction n) auto

lemma streak_cong: "same_past i xs ys \<Longrightarrow> streak_at xs i = streak_at ys i"
  using run_back_cong [of i xs ys "colour (ys ! i)"] same_past_nth [of i xs ys] by (simp add: streak_at_def)

lemma clamp_cong: "same_past i xs ys \<Longrightarrow> clamp_from k i xs = clamp_from k i ys"
proof -
  assume s: "same_past i xs ys"
  have "clamp_from k i zs = drop (i - k) (take (Suc i) zs)" for zs :: "'a list"
    by (simp add: clamp_from_def drop_take)
  then show ?thesis using s by (simp add: same_past_def)
qed

subsection \<open>The drill\<close>

lemma fit_at_end [simp]:
  "fit_accumulate (take (i + 1) cs) i d = d" "fit_accumulate (take (Suc i) cs) i d = d"
  by (simp_all add: fit_accumulate_def)

lemma predict_cong:
  "dr_table d = dr_table d' \<Longrightarrow> dr_confidence d = dr_confidence d' \<Longrightarrow> predict hist d = predict hist d'"
  unfolding predict_def by presburger

lemma on_realised_frame [simp]:
  "dr_table (on_realised call a d) = dr_table d" "dr_confidence (on_realised call a d) = dr_confidence d"
  "dr_calls (on_realised call a d) = dr_calls d + 1"
  by (auto simp: on_realised_def Let_def split: option.splits)

lemma fit_frame [simp]:
  "dr_decisions (fit_accumulate cs i d) = dr_decisions d" "dr_calls (fit_accumulate cs i d) = dr_calls d"
  "dr_confidence (fit_accumulate cs i d) = dr_confidence d"
  by (simp_all add: fit_accumulate_def Let_def)

lemma fit_fold_frame [simp]:
  "dr_decisions (fold (fit_accumulate cs) is d) = dr_decisions d"
  "dr_calls (fold (fit_accumulate cs) is d) = dr_calls d"
  by (induction "is" arbitrary: d) simp_all

definition verdicts :: "drill \<Rightarrow> candle list \<Rightarrow> nat \<Rightarrow> (bool \<times> bool) list" where
  "verdicts d cs i =
     (case predict (take (i + 1) cs) d of
        None \<Rightarrow> []
      | Some c \<Rightarrow> if colour (cs ! (i + 1)) = 0 then [] else [(c = colour (cs ! (i + 1)), 0 < c)])"

lemma score_step_result:
  "dr_table (score_step cs i d) = dr_table d" "dr_confidence (score_step cs i d) = dr_confidence d"
  "dr_calls (score_step cs i d) = dr_calls d + 1"
  "dr_decisions (score_step cs i d) = dr_decisions d @ verdicts d cs i"
  by (auto simp: score_step_def on_realised_def verdicts_def Let_def split: option.splits)

lemma verdicts_cong:
  "dr_table d = dr_table d' \<Longrightarrow> dr_confidence d = dr_confidence d' \<Longrightarrow> verdicts d cs i = verdicts d' cs i"
  using predict_cong [of d d' "take (i + 1) cs"] by (simp add: verdicts_def)

lemma score_fold:
  "dr_table (fold (score_step cs) is d) = dr_table d \<and>
   dr_calls (fold (score_step cs) is d) = dr_calls d + length is \<and>
   dr_decisions (fold (score_step cs) is d) = dr_decisions d @ concat (map (verdicts d cs) is)"
proof (induction "is" arbitrary: d)
  case (Cons i "is")
  have "verdicts (score_step cs i d) cs = verdicts d cs"
    by (rule ext, rule verdicts_cong) (simp_all add: score_step_result)
  then show ?case using Cons.IH [of "score_step cs i d"] by (simp add: score_step_result)
qed simp

lemma verdicts_short: "length (concat (map (verdicts d cs) is)) \<le> length is"
  by (induction "is") (auto simp: verdicts_def le_SucI split: option.splits)

lemma share_unit: "m \<le> n \<Longrightarrow> int n \<le> 2 ^ 53 \<Longrightarrow> 0 \<le> ratio_or_zero m n \<and> ratio_or_zero m n \<le> 1"
  using fraction_unit [of m n] by (auto simp: ratio_or_zero_def zero_pyfloat_def one_pyfloat_def)

lemma sum_update:
  fixes g :: "cond_stats \<Rightarrow> nat"
  assumes "finite (dom m)"
  shows "(\<Sum>x\<in>dom (m(k \<mapsto> s)). g (the ((m(k \<mapsto> s)) x))) + (case m k of None \<Rightarrow> 0 | Some s0 \<Rightarrow> g s0) =
    (\<Sum>x\<in>dom m. g (the (m x))) + g s"
proof -
  have "(\<Sum>x\<in>dom (m(k \<mapsto> s)). g (the ((m(k \<mapsto> s)) x))) = g s + (\<Sum>x\<in>dom m - {k}. g (the (m x)))"
    using assms by (simp add: sum.insert_remove)
  moreover have "(\<Sum>x\<in>dom m. g (the (m x))) = (case m k of None \<Rightarrow> 0 | Some s0 \<Rightarrow> g s0) + (\<Sum>x\<in>dom m - {k}. g (the (m x)))"
    using assms sum.remove [of "dom m" k "\<lambda>x. g (the (m x))"] by (cases "m k") (auto simp: domIff)
  ultimately show ?thesis by simp
qed

text \<open>The successors that the fitting phase counts: those of the bars that have a colour.\<close>

definition successors :: "candle list \<Rightarrow> nat list \<Rightarrow> int list" where
  "successors cs is = map (\<lambda>i. colour (cs ! (i + 1))) (filter (\<lambda>i. i + 1 < length cs \<and> colour (cs ! i) \<noteq> 0) is)"

lemma fit_table:
  assumes "finite (dom (dr_table d))"
  shows "finite (dom (dr_table (fit_accumulate cs i d))) \<and>
    table_sum cs_up (fit_accumulate cs i d) = table_sum cs_up d + length (filter (\<lambda>c. 0 < c) (successors cs [i])) \<and>
    table_sum cs_down (fit_accumulate cs i d) = table_sum cs_down d + length (filter (\<lambda>c. c < 0) (successors cs [i]))"
proof (cases "length cs \<le> i + 1 \<or> colour (cs ! i) = 0")
  case True
  then show ?thesis using assms by (auto simp: fit_accumulate_def successors_def)
next
  case False
  let ?k = "drill_key_at cs i" let ?n = "colour (cs ! (i + 1))"
  obtain s where t: "dr_table (fit_accumulate cs i d) = (dr_table d)(?k \<mapsto> s)"
    and u: "cs_up s = (case dr_table d ?k of None \<Rightarrow> 0 | Some s0 \<Rightarrow> cs_up s0) + (if 0 < ?n then 1 else 0)"
    and n: "cs_down s = (case dr_table d ?k of None \<Rightarrow> 0 | Some s0 \<Rightarrow> cs_down s0) + (if ?n < 0 then 1 else 0)"
    using False by (cases "?n = 0"; cases "0 < ?n"; cases "dr_table d ?k")
      (auto simp: fit_accumulate_def Let_def tally_def no_stats_def)
  show ?thesis
    using sum_update [OF assms, of cs_up ?k s] sum_update [OF assms, of cs_down ?k s] assms False
    by (simp add: table_sum_def t u n successors_def)
qed

lemma successors_Cons: "successors cs (i # is) = successors cs [i] @ successors cs is"
  by (simp add: successors_def)

lemma fit_fold_table:
  "finite (dom (dr_table d)) \<Longrightarrow>
     table_sum cs_up (fold (fit_accumulate cs) is d) = table_sum cs_up d + length (filter (\<lambda>c. 0 < c) (successors cs is)) \<and>
     table_sum cs_down (fold (fit_accumulate cs) is d) = table_sum cs_down d + length (filter (\<lambda>c. c < 0) (successors cs is))"
proof (induction "is" arbitrary: d)
  case (Cons i "is")
  note f = fit_table [OF Cons.prems, of cs i]
  from f Cons.IH [of "fit_accumulate cs i d"] show ?case by (simp add: successors_Cons [of cs i "is"])
qed (simp add: successors_def)

subsection \<open>The classifier\<close>

text \<open>
  The library's documented contract: one probability for each class, and the classes are the
  distinct labels it was fitted on.
\<close>

definition honours_labels :: "'m library \<Rightarrow> bool" where
  "honours_labels lib \<longleftrightarrow>
     (\<forall>X y m x ps ks. lb_fit lib X y = Some m \<longrightarrow> lb_proba lib m x = Some (ps, ks) \<longrightarrow>
        length ps = length ks \<and> distinct ks \<and> set ks = set y)"

lemma three_labels_abstain:
  assumes "honours_labels lib" "lb_fit lib X y = Some m" "{- 1, 0, 1} \<subseteq> set y"
  shows "proba_green lib m x = Ok None"
proof (cases "lb_proba lib m x")
  case (Some pk)
  obtain ps ks where pk: "lb_proba lib m x = Some (ps, ks)" using Some by (cases pk) simp
  then have s: "length ps = length ks" "distinct ks" "set ks = set y"
    using assms(1,2) unfolding honours_labels_def by blast+
  have "card {- 1, 0, 1 :: int} \<le> card (set ks)" using assms(3) s(3) by (intro card_mono) auto
  then have "3 \<le> length ks" using s(2) distinct_card by fastforce
  then show ?thesis using s(1) by (simp add: proba_green_def pk)
qed (simp add: proba_green_def)

lemma training_set_frame:
  "training_set (l\<lparr>ml_since := n\<rparr>) = training_set l" "training_set (l\<lparr>ml_clf := c\<rparr>) = training_set l"
  by (simp_all add: training_set_def)

lemma settle_frame [simp]:
  "ml_pending (settle c l) = None" "ml_history (settle c l) = ml_history l @ [c]"
  "ml_warmup (settle c l) = ml_warmup l" "ml_retrain (settle c l) = ml_retrain l"
  by (auto simp: settle_def Let_def split: option.splits)

lemma settle_decisions:
  "ml_decisions (settle c l) = ml_decisions l @
     (case ml_pending l of None \<Rightarrow> [] | Some call \<Rightarrow> if colour c = 0 then [] else [(call, colour c)])"
  by (auto simp: settle_def Let_def split: option.splits)

lemma refit_frame:
  "refit lib l = (l', b) \<Longrightarrow> ml_pending l' = ml_pending l \<and> ml_decisions l' = ml_decisions l \<and> ml_history l' = ml_history l"
  by (auto simp: refit_def split: if_splits option.splits prod.splits)

lemma issue_frame:
  "issue_call lib l = (l', r) \<Longrightarrow> ml_pending l = None \<Longrightarrow>
     ml_decisions l' = ml_decisions l \<and> ml_history l' = ml_history l \<and> (case r of Inl e \<Rightarrow> True | Inr call \<Rightarrow> ml_pending l' = call)"
  by (auto simp: issue_call_def Let_def split: option.splits sum.splits)

lemma step_frame:
  assumes "step lib c l = (l', Ok call)"
  shows "ml_decisions l' = ml_decisions (settle c l) \<and> ml_pending l' = call"
proof (cases "length (ml_history (settle c l)) < ml_warmup (settle c l) + 2")
  case True
  then show ?thesis using assms by (simp add: step_def Let_def) (metis settle_frame(1))
next
  case False
  obtain l2 b where r: "refit lib ((settle c l)\<lparr>ml_since := ml_since (settle c l) + 1\<rparr>) = (l2, b)" by fastforce
  note f = refit_frame [OF r, simplified]
  have s: "step lib c l = (if b then issue_call lib l2 else (l2, Ok None))"
    using False r by (cases b) (simp_all add: step_def Let_def)
  show ?thesis
  proof (cases b)
    case True
    then have "issue_call lib l2 = (l', Ok call)" using s assms by simp
    from issue_frame [OF this] f show ?thesis by simp
  qed (use s assms f in auto)
qed

definition scored :: "int option list \<Rightarrow> candle list \<Rightarrow> (int \<times> int) list" where
  "scored calls cs =
     concat (map (\<lambda>(call, c). case call of None \<Rightarrow> [] | Some k \<Rightarrow> if colour c = 0 then [] else [(k, colour c)])
       (zip calls cs))"

lemma walk_scored:
  "walk lib cs l = (l', Ok calls) \<Longrightarrow> ml_decisions l' = ml_decisions l @ scored (ml_pending l # calls) cs"
proof (induction cs arbitrary: l calls)
  case (Cons c cs)
  obtain l1 r where s: "step lib c l = (l1, r)" by fastforce
  with Cons.prems obtain call where r: "r = Ok call" by (cases r) auto
  obtain l2 r2 where w: "walk lib cs l1 = (l2, r2)" by fastforce
  with Cons.prems s r obtain cl where c: "r2 = Ok cl" "l' = l2" "calls = call # cl" by (cases r2) auto
  have "ml_decisions l' = ml_decisions l1 @ scored (ml_pending l1 # cl) cs" using Cons.IH w c by simp
  then show ?case using step_frame [of lib c l l1 call] s r settle_decisions [of c l]
    by (auto simp: scored_def c(3) split: option.splits)
qed (simp add: scored_def)

section \<open>Properties\<close>

definition bar_of :: "rat \<Rightarrow> rat \<Rightarrow> candle" where
  "bar_of op cl =
     \<lparr>c_open = Fin op, c_high = Fin (max op cl), c_low = Fin (min op cl), c_close = Fin cl, c_t_open = 0,
      c_t_close = Fin 1, c_volume = Fin 1\<rparr>"

text \<open>A library that answers one probability for each label it has seen.\<close>

definition sample_library :: "int list library" where
  "sample_library = \<lparr>lb_fit = (\<lambda>X y. Some (remdups y)), lb_proba = (\<lambda>m x. Some (map (\<lambda>_. Fin (1 / 4)) m, m))\<rparr>"

text \<open>
  C30: The features of a bar are point in time: two histories that agree up to that bar give
  the same features, whatever follows.
\<close>

theorem features_point_in_time:
  assumes "same_past i cs cs'"
  shows "features_for cs i = features_for cs' i"
  using clamp_cong [OF assms, of 16] clamp_cong [OF assms, of 9] streak_cong [OF assms] same_past_nth [OF assms, of i]
  unfolding features_for_def by (simp only: order_refl)

theorem features_point_in_time_witness:
  "features_for [bar_of 1 2, bar_of 2 3] 0 = features_for [bar_of 1 2, bar_of 2 1] 0"
  by (rule features_point_in_time) (simp add: same_past_def)

text \<open>
  The drill never learns while it is scored: every fit of the scoring phase is a no-op, so
  the table stays what the fitting phase left, and the decisions are the predictions of that
  frozen table compared with the colour of the next candle.
\<close>

theorem drill_frozen_while_scored:
  assumes "run_drill cs history = Some d"
  shows "dr_table d = dr_table (fit_phase cs history (new_drill (lit (54 / 100)))) \<and>
    dr_decisions d = concat (map (verdicts (fit_phase cs history (new_drill (lit (54 / 100)))) cs)
      [history - 1 ..< length cs - 1])"
  using assms score_fold [of cs "[history - 1 ..< length cs - 1]" "fit_phase cs history (new_drill (lit (54 / 100)))"]
  by (auto simp: run_drill_def fit_phase_def new_drill_def split: if_splits)

theorem drill_frozen_while_scored_witness:
  "case run_drill (replicate 31 (bar_of 1 1)) 1 of
     None \<Rightarrow> False
   | Some d \<Rightarrow> dr_table d = dr_table (fit_phase (replicate 31 (bar_of 1 1)) 1 (new_drill (lit (54 / 100))))"
proof -
  obtain d where d: "run_drill (replicate 31 (bar_of 1 1)) 1 = Some d" by (simp add: run_drill_def)
  show ?thesis using drill_frozen_while_scored [OF d] unfolding d by simp
qed

text \<open>
  C36: The base rate that the drill reports is a plain count: among the bars of the fitting phase, the 30th to
  the one before the history's last, that have a colour, the share of green ones among the successors with
  a colour. The table it is summed from loses no pair and counts none twice.
\<close>

theorem base_rate_counts_pairs:
  assumes "run_drill cs history = Some d"
  shows "ds_base (score d) =
    (let nx = successors cs [30 ..< history - 1]; up = length (filter (\<lambda>c. 0 < c) nx)
     in ratio_or_zero up (up + length (filter (\<lambda>c. c < 0) nx)))"
proof -
  let ?d0 = "new_drill (lit (54 / 100))"
  have "dr_table d = dr_table (fit_phase cs history ?d0)"
    using assms score_fold [of cs "[history - 1 ..< length cs - 1]" "fit_phase cs history ?d0"]
    by (auto simp: run_drill_def split: if_splits)
  then have "table_sum f d = table_sum f (fit_phase cs history ?d0)" for f by (simp add: table_sum_def)
  moreover have "finite (dom (dr_table ?d0))" "table_sum f ?d0 = 0" for f by (simp_all add: new_drill_def table_sum_def)
  ultimately show ?thesis
    using fit_fold_table [of ?d0 cs "[30 ..< history - 1]"]
    by (simp add: score_def base_rate_def Let_def fit_phase_def)
qed

theorem base_rate_counts_pairs_witness:
  "case run_drill (replicate 70 (bar_of 1 2)) 34 of None \<Rightarrow> False | Some d \<Rightarrow> ds_base (score d) = 1"
proof -
  obtain d where d: "run_drill (replicate 70 (bar_of 1 2)) 34 = Some d" by (simp add: run_drill_def)
  have "(let nx = successors (replicate 70 (bar_of 1 2)) [30 ..< 33]; up = length (filter (\<lambda>c. 0 < c) nx)
     in ratio_or_zero up (up + length (filter (\<lambda>c. c < 0) nx))) = 1" by code_simp
  with base_rate_counts_pairs [OF d] show ?thesis unfolding d by simp
qed

text \<open>
  The scores of the drill are fractions: it decides at most once per scored candle, its
  accuracy and its coverage lie between 0 and 1, and green and red calls add up to its decisions.
\<close>

theorem drill_scores_bounded:
  assumes "run_drill cs history = Some d" "int (length cs) \<le> 2 ^ 53"
  shows "0 \<le> ds_accuracy (score d) \<and> ds_accuracy (score d) \<le> 1 \<and>
    0 \<le> ds_coverage (score d) \<and> ds_coverage (score d) \<le> 1 \<and>
    ds_green (score d) + ds_red (score d) = ds_decisions (score d)"
proof -
  let ?d0 = "fit_phase cs history (new_drill (lit (54 / 100)))" and ?is = "[history - 1 ..< length cs - 1]"
  have z: "dr_calls ?d0 = 0" "dr_decisions ?d0 = []" by (simp_all add: fit_phase_def new_drill_def)
  have c: "dr_calls d = length ?is" "dr_decisions d = concat (map (verdicts ?d0 cs) ?is)"
    using assms(1) score_fold [of cs ?is ?d0] z by (auto simp: run_drill_def split: if_splits)
  have n: "length (dr_decisions d) \<le> dr_calls d" "int (dr_calls d) \<le> 2 ^ 53"
    unfolding c using verdicts_short [of ?d0 cs ?is] assms(2) by simp_all
  then have m: "int (length (dr_decisions d)) \<le> 2 ^ 53" by linarith
  show ?thesis
    using share_unit [OF length_filter_le [of fst "dr_decisions d"] m] share_unit [OF n]
      sum_length_filter_compl [of snd "dr_decisions d"]
    by (simp add: score_def)
qed

theorem drill_scores_bounded_witness:
  "case run_drill (replicate 31 (bar_of 1 2)) 1 of None \<Rightarrow> False | Some d \<Rightarrow> ds_coverage (score d) \<le> 1"
proof -
  obtain d where d: "run_drill (replicate 31 (bar_of 1 2)) 1 = Some d" by (simp add: run_drill_def)
  show ?thesis using drill_scores_bounded [OF d] unfolding d by simp
qed

text \<open>
  C34: Every scored call of the walk-forward classifier was issued one candle before it was
  scored, and is scored exactly once, on the colour of the next candle unless that is a doji.
\<close>

theorem calls_scored_on_next_candle:
  assumes "walk lib cs (new_learner min_train warmup retrain window) = (l, Ok calls)"
  shows "ml_decisions l = scored (None # calls) cs"
  using walk_scored [OF assms] by (simp add: new_learner_def)

theorem calls_scored_on_next_candle_witness:
  "ml_decisions (fst (walk sample_library [bar_of 1 2] (new_learner 1 0 1 None))) = scored (None # [None]) [bar_of 1 2]"
proof -
  obtain l where w: "walk sample_library [bar_of 1 2] (new_learner 1 0 1 None) = (l, Ok [None])"
    by (simp add: step_def Let_def settle_def new_learner_def)
  from calls_scored_on_next_candle [OF w] show ?thesis unfolding w by simp
qed

text \<open>
  A doji silences the classifier: dojis are a label of their own, so once the training
  set has all three labels, a classifier that answers one probability per label is never
  understood, and every step that refits abstains.
\<close>

theorem doji_silences_classifier:
  assumes "honours_labels lib" "ml_retrain l \<le> 1" "{- 1, 0, 1} \<subseteq> set (snd (training_set (settle c l)))"
  shows "snd (step lib c l) = Ok None"
proof -
  define l1 where "l1 = (settle c l)\<lparr>ml_since := Suc (ml_since (settle c l))\<rparr>"
  have s: "step lib c l = (if length (ml_history l1) < ml_warmup l1 + 2 then (settle c l, Ok None)
      else case refit lib l1 of (l2, False) \<Rightarrow> (l2, Ok None) | (l2, True) \<Rightarrow> issue_call lib l2)"
    by (simp add: step_def Let_def l1_def)
  obtain X y where t: "training_set l1 = (X, y)" by fastforce
  then have y: "{- 1, 0, 1} \<subseteq> set y" using assms(3) by (simp add: l1_def training_set_frame)
  have due: "ml_retrain l1 \<le> ml_since l1" using assms(2) by (simp add: l1_def)
  consider (no) l2 where "refit lib l1 = (l2, False)"
    | (yes) m where "refit lib l1 = (l1\<lparr>ml_clf := Some m, ml_since := 0\<rparr>, True)" "lb_fit lib X y = Some m"
  proof (cases "length X < ml_min_train l1")
    case True
    then show thesis using due t by (intro no [of l1]) (simp add: refit_def)
  next
    case False
    then show thesis using due t no yes by (cases "lb_fit lib X y") (simp_all add: refit_def)
  qed
  then show ?thesis
  proof cases
    case no
    then show ?thesis by (simp add: s)
  next
    case (yes m)
    then show ?thesis
      using three_labels_abstain [OF assms(1) yes(2) y]
      by (simp add: s issue_call_def)
  qed
qed

theorem doji_silences_classifier_witness:
  "snd (step sample_library (bar_of 1 1)
     ((new_learner 0 0 1 None)\<lparr>ml_history := [bar_of 1 1, bar_of 1 2, bar_of 2 1]\<rparr>)) = Ok None"
proof (rule doji_silences_classifier)
  show "honours_labels sample_library" by (auto simp: honours_labels_def sample_library_def)
  show "{- 1, 0, 1} \<subseteq> set (snd (training_set (settle (bar_of 1 1)
      ((new_learner 0 0 1 None)\<lparr>ml_history := [bar_of 1 1, bar_of 1 2, bar_of 2 1]\<rparr>))))"
    by (simp add: training_set_def settle_def new_learner_def upt_rec colour_def bar_of_def)
qed (simp add: new_learner_def)

end
