(* ===== verification/CortexEngine.thy ===== *)
theory CortexEngine
  imports Json "HOL-Library.Sublist"
begin

text \<open>
  The proposal pipeline before the trading daemon: \<open>cortex/cortex/proposal_api.py\<close>, the
  bootstrap engine of \<open>cortex/cortex/engine.py\<close>, the adapter vocabulary of
  \<open>adapters/adapters/base.py\<close>, the mock venue, and \<open>adapters/adapters/proposal_bridge.py\<close>.
  Market data is a decoded JSON object; the text of a float, the rendering of non-strings
  and the fresh identifier are parameters.
\<close>

section \<open>Proposals\<close>

datatype order_direction = Buy | Sell

record trade_proposal =
  tp_id :: string
  tp_asset :: string
  tp_direction :: order_direction
  tp_notional :: pyfloat
  tp_slippage :: pyfloat

text \<open>The field constraints of the pydantic model.\<close>

definition validate_proposal :: "trade_proposal \<Rightarrow> trade_proposal result" where
  "validate_proposal p =
     (if 0 < tp_notional p \<and> 0 \<le> tp_slippage p then Ok p else Raise ValidationError)"

section \<open>Conversions of decoded values\<close>

definition falsy :: "json \<Rightarrow> bool" where
  "falsy v = (case v of
      JNull \<Rightarrow> True | JBool b \<Rightarrow> \<not> b | JInt i \<Rightarrow> i = 0 | JFloat x \<Rightarrow> x = 0
    | JStr s \<Rightarrow> s = [] | JList vs \<Rightarrow> vs = [] | JObj kvs \<Rightarrow> kvs = [])"

definition py_or :: "json \<Rightarrow> json \<Rightarrow> json" where
  "py_or v d = (if falsy v then d else v)"

definition int_to_float :: "int \<Rightarrow> pyfloat result" where
  "int_to_float i = (if isfinite (float_of_int i) then Ok (float_of_int i) else Raise OverflowError)"

text \<open>\<open>float(v)\<close>; \<open>parse\<close> reads the text of a float.\<close>

definition py_float :: "(string \<Rightarrow> pyfloat option) \<Rightarrow> json \<Rightarrow> pyfloat result" where
  "py_float parse v = (case v of
      JBool b \<Rightarrow> Ok (if b then 1 else 0)
    | JInt i \<Rightarrow> int_to_float i
    | JFloat x \<Rightarrow> Ok x
    | JStr s \<Rightarrow> (case parse s of None \<Rightarrow> Raise ValueError | Some x \<Rightarrow> Ok x)
    | _ \<Rightarrow> Raise TypeError)"

text \<open>Arithmetic on a decoded value: numbers only.\<close>

definition as_number :: "json \<Rightarrow> pyfloat result" where
  "as_number v = (case v of
      JBool b \<Rightarrow> Ok (if b then 1 else 0) | JInt i \<Rightarrow> int_to_float i | JFloat x \<Rightarrow> Ok x | _ \<Rightarrow> Raise TypeError)"

definition lower_char :: "char \<Rightarrow> char" where
  "lower_char c = (if 65 \<le> (of_char c :: nat) \<and> (of_char c :: nat) \<le> 90 then char_of ((of_char c :: nat) + 32) else c)"

definition lower :: "string \<Rightarrow> string" where
  "lower s = map lower_char s"

section \<open>The bootstrap engine\<close>

type_synonym obj = "(string \<times> json) list"

text \<open>\<open>SIZING_MULTIPLIER\<close>, halved in an elevated volatility regime.\<close>

definition SIZING :: pyfloat where "SIZING = lit (1 / 20)"

definition danger_zone :: "(string \<Rightarrow> pyfloat option) \<Rightarrow> obj \<Rightarrow> pyfloat result" where
  "danger_zone parse data =
     (case py_float parse (obj_get_or data ''volatility'' (JFloat 0)) of
        Inl e \<Rightarrow> if e = TypeError \<or> e = ValueError then Ok 0 else Raise e
      | Inr x \<Rightarrow> Ok x)"

definition sizing_of :: "pyfloat \<Rightarrow> pyfloat" where
  "sizing_of dz = (if lit (1 / 50) < dz then SIZING * lit (1 / 2) else SIZING)"

definition target_of :: "pyfloat \<Rightarrow> pyfloat \<Rightarrow> pyfloat" where
  "target_of equity sizing = py_round 2 (py_max (equity * sizing) 1)"

text \<open>\<open>None\<close> is the status \<open>NoAction\<close>.\<close>

definition evaluate_market_tick ::
    "(string \<Rightarrow> pyfloat option) \<Rightarrow> (json \<Rightarrow> string) \<Rightarrow> string \<Rightarrow> string \<Rightarrow> obj \<Rightarrow> trade_proposal option result" where
  "evaluate_market_tick parse render uuid asset data =
     rbind (py_float parse (py_or (obj_get_or data ''price'' (JFloat 0)) (JFloat 0))) (\<lambda>price.
     rbind (py_float parse (py_or (obj_get_or data ''account_equity'' (JFloat (Fin 10000))) (JFloat (Fin 10000)))) (\<lambda>equity.
       if falsy (obj_get_or data ''momentum_signal'' (JBool False)) \<or> price \<le> 0 then Ok None
       else let trend = lower (py_str render (obj_get_or data ''trend'' (JStr ''neutral'')))
         in if trend \<noteq> ''bullish'' \<and> trend \<noteq> ''bearish'' then Ok None
            else rbind (danger_zone parse data) (\<lambda>dz.
              rbind (validate_proposal \<lparr>tp_id = uuid, tp_asset = asset,
                  tp_direction = (if trend = ''bullish'' then Buy else Sell),
                  tp_notional = target_of equity (sizing_of dz), tp_slippage = lit (15 / 10000)\<rparr>)
                (\<lambda>p. Ok (Some p)))))"

section \<open>Intents, receipts and venues\<close>

datatype execution_status = FILLED | PARTIAL_FILL | REJECTED | PENDING | DRY_RUN

record order_intent =
  oi_id :: string
  oi_asset :: string
  oi_side :: order_direction
  oi_quantity :: pyfloat
  oi_slippage :: pyfloat

record execution_receipt =
  rc_intent :: string
  rc_execution :: string
  rc_price :: pyfloat
  rc_quantity :: pyfloat
  rc_status :: execution_status

record 'a venue =
  v_healthy :: "'a \<Rightarrow> bool"
  v_execute :: "order_intent \<Rightarrow> 'a \<Rightarrow> 'a \<times> execution_receipt result"

text \<open>
  What a client may rely on of a venue: a receipt names the intent it answers. A venue that never
  fills in part promises more: an order reported filled is filled completely.
\<close>

locale receipt_adapter =
  fixes execute :: "order_intent \<Rightarrow> 'a \<Rightarrow> 'a \<times> execution_receipt result"
  assumes receipt_id: "execute i a = (a', Ok r) \<Longrightarrow> rc_intent r = oi_id i"

locale exchange_adapter = receipt_adapter execute
  for execute :: "order_intent \<Rightarrow> 'a \<Rightarrow> 'a \<times> execution_receipt result" +
  assumes filled_whole: "execute i a = (a', Ok r) \<Longrightarrow> rc_status r = FILLED \<Longrightarrow> rc_quantity r = oi_quantity i"
begin

lemma filled_receipt:
  "execute i a = (a', Ok r) \<Longrightarrow> rc_status r = FILLED \<Longrightarrow>
     rc_intent r = oi_id i \<and> rc_quantity r = oi_quantity i"
  by (simp add: receipt_id filled_whole)

end

text \<open>The mock venue fills everything at one price; its state is the log of what it executed.\<close>

definition mock_execute :: "order_intent \<Rightarrow> order_intent list \<Rightarrow> order_intent list \<times> execution_receipt result" where
  "mock_execute i done_so_far =
     (done_so_far @ [i], Ok \<lparr>rc_intent = oi_id i, rc_execution = ''exec-mock-9988'', rc_price = Fin 50000,
       rc_quantity = oi_quantity i, rc_status = FILLED\<rparr>)"

definition mock_venue :: "order_intent list venue" where
  "mock_venue = \<lparr>v_healthy = (\<lambda>_. True), v_execute = mock_execute\<rparr>"

interpretation mock: exchange_adapter mock_execute
  by unfold_locales (auto simp: mock_execute_def)

section \<open>The bridge from verdicts to intents\<close>

definition proposal_to_intent :: "trade_proposal \<Rightarrow> json \<Rightarrow> pyfloat \<Rightarrow> order_intent result" where
  "proposal_to_intent p notional price =
     (if price \<le> 0 then Raise ValueError
      else rbind (as_number notional) (\<lambda>x. rbind (py_div x price) (\<lambda>q.
        Ok \<lparr>oi_id = tp_id p, oi_asset = tp_asset p, oi_side = tp_direction p, oi_quantity = q,
          oi_slippage = tp_slippage p\<rparr>)))"

text \<open>\<open>approved.get(...)\<close> of something that is not a dictionary raises.\<close>

definition adjusted_notional :: "json \<Rightarrow> json \<Rightarrow> json result" where
  "adjusted_notional approved default_value =
     (case approved of JObj kvs \<Rightarrow> Ok (obj_get_or kvs ''adjusted_notional'' default_value)
      | _ \<Rightarrow> Raise AttributeError)"

definition verdict_to_order_action :: "json \<Rightarrow> trade_proposal \<Rightarrow> pyfloat \<Rightarrow> order_intent option result" where
  "verdict_to_order_action verdict p price =
     (case verdict of
        JObj kvs \<Rightarrow>
          (case map_of kvs ''Approved'' of
             None \<Rightarrow> Ok None
           | Some approved \<Rightarrow>
               rbind (adjusted_notional approved (JFloat (tp_notional p))) (\<lambda>n.
               rbind (proposal_to_intent p n price) (\<lambda>i. Ok (Some i))))
      | _ \<Rightarrow> Ok None)"

section \<open>Lemmas\<close>

lemma target_at_least_1: "0 < target_of equity sizing \<Longrightarrow> 1 \<le> target_of equity sizing"
proof (cases "equity * sizing")
  case (Fin x)
  define y where "y = (if x < 1 then 1 else x)"
  have t: "target_of equity sizing = to_f64 (of_int (rne (y * 10 ^ 2)) / 10 ^ 2)"
    by (simp add: target_of_def Fin py_max_def one_pyfloat_def y_def)
  have "rne (of_int 100) \<le> rne (y * 10 ^ 2)" by (rule rne_mono) (simp add: y_def)
  then have "100 \<le> rne (y * 10 ^ 2)" by (simp only: rne_of_int)
  then have "(1::rat) \<le> of_int (rne (y * 10 ^ 2)) / 10 ^ 2" by simp
  then show ?thesis unfolding t one_pyfloat_def by (rule to_f64_ge_double [OF _ is_double_01(2)])
next
  case NInf
  have "rne 100 = 100" using rne_of_int [of 100] by simp
  then have "target_of equity sizing = to_f64 1" by (simp add: target_of_def NInf py_max_def one_pyfloat_def)
  then show ?thesis unfolding one_pyfloat_def using to_f64_ge_double [OF order_refl is_double_01(2)] by simp
qed (auto simp: target_of_def py_max_def one_pyfloat_def)

section \<open>Properties\<close>

text \<open>
  Whatever the market data, a proposal the engine emits is for the engine's asset, is
  worth at least one unit, follows a positive price, a momentum signal and a bullish or
  bearish trend (buying on the former, selling on the latter), and passes the validation.
\<close>

theorem engine_proposals_valid:
  assumes "evaluate_market_tick parse render uuid asset data = Ok (Some p)"
  shows "1 \<le> tp_notional p \<and> validate_proposal p = Ok p \<and> tp_asset p = asset \<and> tp_id p = uuid \<and>
    \<not> falsy (obj_get_or data ''momentum_signal'' (JBool False)) \<and>
    lower (py_str render (obj_get_or data ''trend'' (JStr ''neutral''))) =
      (case tp_direction p of Buy \<Rightarrow> ''bullish'' | Sell \<Rightarrow> ''bearish'')"
  using assms target_at_least_1
  by (auto simp: evaluate_market_tick_def Let_def rbind_Inr_iff validate_proposal_def split: if_splits)

theorem engine_proposals_valid_witness:
  "case evaluate_market_tick (\<lambda>_. None) (\<lambda>_. []) ''u-1'' ''EURUSD''
     [(''price'', JInt 100), (''momentum_signal'', JBool True), (''trend'', JStr ''Bullish'')] of
     Inr (Some p) \<Rightarrow> 1 \<le> tp_notional p \<and> tp_direction p = Buy | _ \<Rightarrow> False"
proof -
  let ?d = "[(''price'', JInt 100), (''momentum_signal'', JBool True), (''trend'', JStr ''Bullish'')]"
  have e: "case evaluate_market_tick (\<lambda>_. None) (\<lambda>_. []) ''u-1'' ''EURUSD'' ?d of
     Inr (Some p) \<Rightarrow> tp_direction p = Buy | _ \<Rightarrow> False"
    by code_simp
  then obtain p where p: "evaluate_market_tick (\<lambda>_. None) (\<lambda>_. []) ''u-1'' ''EURUSD'' ?d = Ok (Some p)"
    by (auto split: sum.splits option.splits)
  show ?thesis using e engine_proposals_valid [OF p] unfolding p by simp
qed

end
