(* ===== verification/Trading.thy ===== *)
theory Trading
  imports CortexEngine DeadMan
begin

text \<open>
  The trading daemon of \<open>cortex/cortex/trading_daemon.py\<close>: a tick goes through the engine, the
  Constitution and the venue, and then beats the in-process dead-man switch. The
  Constitution behind the IPC client is a parameter: a function of the portfolio and the
  proposal that returns a decoded response or raises. An operation returns the state at the
  point where it returned or raised.
\<close>

section \<open>State\<close>

record position =
  po_asset :: string
  po_notional :: json
  po_entry :: pyfloat
  po_quantity :: "pyfloat option"

record portfolio =
  pf_equity :: pyfloat
  pf_cash :: pyfloat
  pf_high_water :: pyfloat
  pf_positions :: "position list"

text \<open>
  \<open>model_dump\<close> of a proposal, with the extra key \<open>_reference_price\<close> the handler looks up: the
  engine's dictionaries never have it.
\<close>

record proposal_dict =
  pd_proposal :: trade_proposal
  pd_reference_price :: "pyfloat option"

definition dump :: "trade_proposal \<Rightarrow> proposal_dict" where
  "dump p = \<lparr>pd_proposal = p, pd_reference_price = None\<rparr>"

record ('a, 'o) trading =
  td_asset :: string
  td_portfolio :: portfolio
  td_adapter :: "'a option"
  td_switch :: "'o daemon"
  td_running :: bool
  td_ticking :: bool

definition new_trading ::
    "string \<Rightarrow> pyfloat \<Rightarrow> pyfloat \<Rightarrow> 'a option \<Rightarrow> (nat \<Rightarrow> pyfloat) \<Rightarrow> ('a, sim_oracle) trading result" where
  "new_trading asset equity interval adapter clk =
     (if \<not> config_ok (default_config interval) then Raise ValidationError
      else rbind (new_daemon (default_config interval) None clk) (\<lambda>sw.
       Ok \<lparr>td_asset = asset,
          td_portfolio = \<lparr>pf_equity = equity, pf_cash = py_round 2 (equity * lit (9 / 10)),
            pf_high_water = equity, pf_positions = []\<rparr>,
          td_adapter = adapter, td_switch = sw, td_running = False, td_ticking = False\<rparr>))"

text \<open>\<open>start\<close> also opens the session; \<open>td_ticking\<close> is the switch's thread.\<close>

definition start_trading :: "('a, 'o) trading \<Rightarrow> ('a, 'o) trading" where
  "start_trading s = s\<lparr>td_running := True, td_ticking := True\<rparr>"

definition stop_trading :: "('a, 'o) trading \<Rightarrow> ('a, 'o) trading" where
  "stop_trading s = s\<lparr>td_running := False\<rparr>"

section \<open>Acting on a verdict\<close>

definition add_position :: "position \<Rightarrow> ('a, 'o) trading \<Rightarrow> ('a, 'o) trading" where
  "add_position p s = s\<lparr>td_portfolio := (td_portfolio s)\<lparr>pf_positions := pf_positions (td_portfolio s) @ [p]\<rparr>\<rparr>"

definition apply_approved_proposal ::
    "string \<Rightarrow> json \<Rightarrow> json \<Rightarrow> ('a, 'o) trading \<Rightarrow> ('a, 'o) trading \<times> unit result" where
  "apply_approved_proposal asset target notional s =
     (case rbind (as_number notional) (\<lambda>n. rbind (as_number target) (\<lambda>x. py_div x (py_max n 1))) of
        Inl e \<Rightarrow> (s, Raise e)
      | Inr entry \<Rightarrow>
          (add_position \<lparr>po_asset = asset, po_notional = notional, po_entry = entry, po_quantity = None\<rparr> s, Ok ()))"

definition apply_execution ::
    "execution_receipt \<Rightarrow> order_intent \<Rightarrow> json \<Rightarrow> ('a, 'o) trading \<Rightarrow> ('a, 'o) trading \<times> unit result" where
  "apply_execution r i notional s =
     (if rc_status r = FILLED
      then (add_position \<lparr>po_asset = oi_asset i, po_notional = notional, po_entry = rc_price r,
              po_quantity = Some (rc_quantity r)\<rparr> s, Ok ())
      else if rc_status r = DRY_RUN then apply_approved_proposal (oi_asset i) notional notional s
      else (s, Ok ()))"

text \<open>\<open>key in verdict\<close> and \<open>verdict[key]\<close> of whatever was decoded: a key, a substring or a member.\<close>

definition has_key :: "string \<Rightarrow> json \<Rightarrow> bool result" where
  "has_key k v = (case v of
      JObj kvs \<Rightarrow> Ok (map_of kvs k \<noteq> None)
    | JStr s \<Rightarrow> Ok (sublist k s)
    | JList vs \<Rightarrow> Ok (JStr k \<in> set vs)
    | _ \<Rightarrow> Raise TypeError)"

definition item_of :: "string \<Rightarrow> json \<Rightarrow> json result" where
  "item_of k v = (case v of
      JObj kvs \<Rightarrow> (case map_of kvs k of None \<Rightarrow> Raise KeyError | Some x \<Rightarrow> Ok x)
    | _ \<Rightarrow> Raise TypeError)"

definition route_order ::
    "'a venue \<Rightarrow> json \<Rightarrow> json \<Rightarrow> proposal_dict \<Rightarrow> 'a \<Rightarrow> ('a, 'o) trading \<Rightarrow> ('a, 'o) trading \<times> unit result" where
  "route_order ven verdict notional pd a s =
     (case verdict_to_order_action verdict (pd_proposal pd)
             (case pd_reference_price pd of None \<Rightarrow> 0 | Some x \<Rightarrow> x) of
        Inl e \<Rightarrow> (s, Raise e)
      | Inr None \<Rightarrow> (s, Ok ())
      | Inr (Some i) \<Rightarrow>
          (case v_execute ven i a of
             (a', Inl e) \<Rightarrow> (s\<lparr>td_adapter := Some a'\<rparr>, Raise e)
           | (a', Inr r) \<Rightarrow> apply_execution r i notional (s\<lparr>td_adapter := Some a'\<rparr>)))"

definition handle_approved ::
    "'a venue \<Rightarrow> json \<Rightarrow> proposal_dict \<Rightarrow> ('a, 'o) trading \<Rightarrow> ('a, 'o) trading \<times> unit result" where
  "handle_approved ven verdict pd s =
     (case rbind (item_of ''Approved'' verdict) (\<lambda>ap. adjusted_notional ap (JFloat 0)) of
        Inl e \<Rightarrow> (s, Raise e)
      | Inr notional \<Rightarrow>
          (case td_adapter s of
             Some a \<Rightarrow>
               if v_healthy ven a then route_order ven verdict notional pd a s
               else apply_approved_proposal (tp_asset (pd_proposal pd)) (JFloat (tp_notional (pd_proposal pd))) notional s
           | None \<Rightarrow>
               apply_approved_proposal (tp_asset (pd_proposal pd)) (JFloat (tp_notional (pd_proposal pd))) notional s))"

definition on_switch :: "('o daemon \<times> unit result) \<Rightarrow> ('a, 'o) trading \<Rightarrow> ('a, 'o) trading \<times> unit result" where
  "on_switch dr s = (s\<lparr>td_switch := fst dr\<rparr>, snd dr)"

definition handle_verdict ::
    "'a venue \<Rightarrow> json \<Rightarrow> proposal_dict \<Rightarrow> ('a, 'o) trading \<Rightarrow> ('a, 'o) trading \<times> unit result" where
  "handle_verdict ven verdict pd s =
     (case has_key ''Approved'' verdict of
        Inl e \<Rightarrow> (s, Raise e)
      | Inr True \<Rightarrow> handle_approved ven verdict pd s
      | Inr False \<Rightarrow>
          (case has_key ''EmergencyLiquidationAll'' verdict of
             Inr True \<Rightarrow> on_switch (disarm [] (td_switch s)) s
           | _ \<Rightarrow> (s, Ok ())))"

section \<open>One tick\<close>

type_synonym constitution = "portfolio \<Rightarrow> trade_proposal \<Rightarrow> json result"

text \<open>\<open>setdefault\<close> on the copy of the tick.\<close>

definition set_default :: "string \<Rightarrow> json \<Rightarrow> obj \<Rightarrow> obj" where
  "set_default k v kvs = (if map_of kvs k = None then kvs @ [(k, v)] else kvs)"

definition prepare_tick :: "('a, 'o) trading \<Rightarrow> obj \<Rightarrow> obj" where
  "prepare_tick s kvs =
     set_default ''asset_id'' (JStr (td_asset s))
       (set_default ''account_equity'' (JFloat (pf_equity (td_portfolio s))) kvs)"

definition adjudicate ::
    "'a venue \<Rightarrow> constitution \<Rightarrow> trade_proposal \<Rightarrow> ('a, 'o) trading \<Rightarrow> ('a, 'o) trading \<times> unit result" where
  "adjudicate ven judge p s =
     (case judge (td_portfolio s) p of
        Inl e \<Rightarrow> (s, Raise e)
      | Inr verdict \<Rightarrow> handle_verdict ven verdict (dump p) s)"

definition process_tick ::
    "'a venue \<Rightarrow> constitution \<Rightarrow> (string \<Rightarrow> pyfloat option) \<Rightarrow> (json \<Rightarrow> string) \<Rightarrow> string \<Rightarrow> obj \<Rightarrow>
      ('a, 'o) trading \<Rightarrow> ('a, 'o) trading \<times> unit result" where
  "process_tick ven judge parse render uuid kvs s =
     (case evaluate_market_tick parse render uuid (td_asset s) (prepare_tick s kvs) of
        Inl e \<Rightarrow> (s, Raise e)
      | Inr action \<Rightarrow>
          (case (case action of None \<Rightarrow> (s, Ok ()) | Some p \<Rightarrow> adjudicate ven judge p s) of
             (s', Inl e) \<Rightarrow> (s', Raise e)
           | (s', Inr _) \<Rightarrow> on_switch (beat False (td_switch s')) s'))"

text \<open>
  The loop reads market ticks while the switch's thread ticks on its own: a run is a sequence
  of events. An exception of a market tick ends the loop; however it ends, the \<open>finally\<close>
  block stops the switch's thread. Sleeping and the health check, which only prints, have no
  effect on the state.
\<close>

datatype trading_event = Market string obj | SwitchTick

definition switch_tick :: "'o oracle_ops \<Rightarrow> 'o hooks \<Rightarrow> ('a, 'o) trading \<Rightarrow> ('a, 'o) trading" where
  "switch_tick ops hooks s =
     (if td_ticking s then s\<lparr>td_switch := fst (tick ops hooks (td_switch s))\<rparr> else s)"

fun run_events ::
    "'o oracle_ops \<Rightarrow> 'o hooks \<Rightarrow> 'a venue \<Rightarrow> constitution \<Rightarrow> (string \<Rightarrow> pyfloat option) \<Rightarrow> (json \<Rightarrow> string) \<Rightarrow>
      trading_event list \<Rightarrow> ('a, 'o) trading \<Rightarrow> ('a, 'o) trading \<times> unit result" where
  "run_events ops hooks ven judge parse render [] s = (s, Ok ())"
| "run_events ops hooks ven judge parse render (SwitchTick # es) s =
     run_events ops hooks ven judge parse render es (switch_tick ops hooks s)"
| "run_events ops hooks ven judge parse render (Market uuid kvs # es) s =
     (if \<not> td_running s then (s, Ok ())
      else case process_tick ven judge parse render uuid kvs s of
          (s', Inl e) \<Rightarrow> (s', Raise e)
        | (s', Inr _) \<Rightarrow> run_events ops hooks ven judge parse render es s')"

definition run_loop ::
    "'o oracle_ops \<Rightarrow> 'o hooks \<Rightarrow> 'a venue \<Rightarrow> constitution \<Rightarrow> (string \<Rightarrow> pyfloat option) \<Rightarrow> (json \<Rightarrow> string) \<Rightarrow>
      trading_event list \<Rightarrow> ('a, 'o) trading \<Rightarrow> ('a, 'o) trading \<times> unit result" where
  "run_loop ops hooks ven judge parse render es s =
     (let (s', r) = run_events ops hooks ven judge parse render es s in (s'\<lparr>td_ticking := False\<rparr>, r))"

section \<open>Lemmas\<close>

lemma add_position_frame [simp]:
  "td_adapter (add_position p s) = td_adapter s" "td_switch (add_position p s) = td_switch s"
  "td_asset (add_position p s) = td_asset s" "td_running (add_position p s) = td_running s"
  "td_ticking (add_position p s) = td_ticking s"
  "pf_positions (td_portfolio (add_position p s)) = pf_positions (td_portfolio s) @ [p]"
  by (simp_all add: add_position_def)

lemma apply_approved_frame [simp]:
  "td_adapter (fst (apply_approved_proposal asset x n s)) = td_adapter s"
  "td_switch (fst (apply_approved_proposal asset x n s)) = td_switch s"
  "td_asset (fst (apply_approved_proposal asset x n s)) = td_asset s"
  "td_running (fst (apply_approved_proposal asset x n s)) = td_running s"
  by (auto simp: apply_approved_proposal_def split: sum.splits)

lemma on_switch_frame [simp]:
  "td_adapter (fst (on_switch dr s)) = td_adapter s" "td_portfolio (fst (on_switch dr s)) = td_portfolio s"
  "snd (on_switch dr s) = snd dr" "td_switch (fst (on_switch dr s)) = fst dr"
  "td_asset (fst (on_switch dr s)) = td_asset s" "td_running (fst (on_switch dr s)) = td_running s"
  by (simp_all add: on_switch_def)

text \<open>Without a reference price no order is ever built.\<close>

lemma no_price_no_order: "verdict_to_order_action verdict p 0 \<noteq> Ok (Some i)"
  by (auto simp: verdict_to_order_action_def proposal_to_intent_def rbind_Inr_iff zero_pyfloat_def
      split: json.splits option.splits)

lemma route_dump: "fst (route_order ven verdict n (dump p) a s) = s"
  using no_price_no_order [of verdict p] by (auto simp: route_order_def dump_def split: sum.splits option.splits)

lemma handle_dump_adapter: "td_adapter (fst (handle_verdict ven verdict (dump p) s)) = td_adapter s"
  by (auto simp: handle_verdict_def handle_approved_def route_dump split: sum.splits bool.splits option.splits)

lemma process_tick_adapter:
  "td_adapter (fst (process_tick ven judge parse render uuid kvs s)) = td_adapter s"
proof -
  have "td_adapter (fst (adjudicate ven judge p s)) = td_adapter s" for p
    by (auto simp: adjudicate_def handle_dump_adapter split: sum.splits)
  then show ?thesis
    by (auto simp: process_tick_def split: sum.splits option.splits prod.splits) (metis fst_conv)+
qed

text \<open>What every market tick and every switch tick keeps, a run keeps.\<close>

lemma run_events_keep:
  assumes "\<And>uuid kvs s. f (fst (process_tick ven judge parse render uuid kvs s)) = f s"
    and "\<And>s. f (switch_tick ops hooks s) = f s"
  shows "f (fst (run_events ops hooks ven judge parse render es s)) = f s"
proof (induction es arbitrary: s)
  case (Cons e es)
  show ?case
  proof (cases e)
    case (Market uuid kvs)
    obtain s' r where p: "process_tick ven judge parse render uuid kvs s = (s', r)" by fastforce
    with assms(1) [of uuid kvs s] have "f s' = f s" by simp
    then show ?thesis using Cons.IH by (cases r) (simp_all add: Market p)
  qed (simp add: Cons.IH assms(2))
qed simp

lemma run_loop_frame:
  "td_adapter (fst (run_loop ops hooks ven judge parse render es s)) = td_adapter (fst (run_events ops hooks ven judge parse render es s))"
  "td_portfolio (fst (run_loop ops hooks ven judge parse render es s)) = td_portfolio (fst (run_events ops hooks ven judge parse render es s))"
  "td_switch (fst (run_loop ops hooks ven judge parse render es s)) = td_switch (fst (run_events ops hooks ven judge parse render es s))"
  "\<not> td_ticking (fst (run_loop ops hooks ven judge parse render es s))"
  by (simp_all add: run_loop_def split: prod.splits)

lemma wrapped_verdict:
  "handle_verdict ven (JObj [(''verdict'', v), (''system_state'', st)]) pd s = (s, Ok ())"
  by (simp add: handle_verdict_def has_key_def)

lemma process_tick_wrapped:
  "td_portfolio (fst (process_tick ven
      (\<lambda>pf p. Ok (JObj [(''verdict'', v pf p), (''system_state'', JStr (st pf p))])) parse render uuid kvs s)) =
   td_portfolio s"
  by (auto simp: process_tick_def adjudicate_def wrapped_verdict split: sum.splits option.splits)

text \<open>What a trading run does to the switch are operations of the switch.\<close>

lemma route_order_switch [simp]: "td_switch (fst (route_order ven verdict n pd a s)) = td_switch s"
  by (auto simp: route_order_def apply_execution_def split: sum.splits option.splits prod.splits)

lemma handle_verdict_switch:
  "td_switch (fst (handle_verdict ven verdict pd s)) = td_switch s \<or>
   td_switch (fst (handle_verdict ven verdict pd s)) = fst (disarm [] (td_switch s))"
  by (auto simp: handle_verdict_def handle_approved_def split: sum.splits bool.splits option.splits)

lemma reach_beat: "reachable ops hooks d0 d \<Longrightarrow> reachable ops hooks d0 (fst (beat b d))"
  by (rule reach_step, assumption) (rule op_beat [where r = "snd (beat b d)"], simp)

lemma reach_disarm: "reachable ops hooks d0 d \<Longrightarrow> reachable ops hooks d0 (fst (disarm k d))"
  by (rule reach_step, assumption) (rule op_disarm [where r = "snd (disarm k d)"], simp)

lemma reach_tick: "reachable ops hooks d0 d \<Longrightarrow> reachable ops hooks d0 (fst (tick ops hooks d))"
  by (rule reach_step, assumption) (rule op_tick [where r = "snd (tick ops hooks d)"], simp)

lemma process_tick_reachable:
  assumes "reachable ops hooks d0 (td_switch s)"
  shows "reachable ops hooks d0 (td_switch (fst (process_tick ven judge parse render uuid kvs s)))"
proof -
  have "reachable ops hooks d0 (td_switch (fst (handle_verdict ven v pd s)))" for v pd
    using handle_verdict_switch [of ven v pd s] reach_disarm [OF assms, of "[]"] assms by auto
  then have a: "reachable ops hooks d0 (td_switch (fst (adjudicate ven judge p s)))" for p
    using assms by (auto simp: adjudicate_def split: sum.splits)
  show ?thesis
  proof (cases "evaluate_market_tick parse render uuid (td_asset s) (prepare_tick s kvs)")
    case (Inr action)
    define s1r where "s1r = (case action of None \<Rightarrow> (s, Ok ()) | Some p \<Rightarrow> adjudicate ven judge p s)"
    have "reachable ops hooks d0 (td_switch (fst s1r))"
      using a assms by (auto simp: s1r_def split: option.splits)
    then show ?thesis
      using reach_beat by (auto simp: process_tick_def Inr s1r_def [symmetric] split: prod.splits sum.splits)
  qed (simp add: process_tick_def assms)
qed

lemma run_events_reachable:
  assumes "reachable ops hooks d0 (td_switch s)"
  shows "reachable ops hooks d0 (td_switch (fst (run_events ops hooks ven judge parse render es s)))"
  using assms
proof (induction es arbitrary: s)
  case (Cons e es)
  show ?case
  proof (cases e)
    case (Market uuid kvs)
    obtain s' r where p: "process_tick ven judge parse render uuid kvs s = (s', r)" by fastforce
    with process_tick_reachable [OF Cons.prems, of ven judge parse render uuid kvs]
    have "reachable ops hooks d0 (td_switch s')" by simp
    then show ?thesis using Cons by (cases r) (simp_all add: Market p)
  next
    case SwitchTick
    have "reachable ops hooks d0 (td_switch (switch_tick ops hooks s))"
      using reach_tick [OF Cons.prems] Cons.prems by (simp add: switch_tick_def)
    from Cons.IH [OF this] show ?thesis by (simp add: SwitchTick)
  qed
qed simp

section \<open>Properties\<close>

definition sample_proposal :: trade_proposal where
  "sample_proposal = \<lparr>tp_id = ''p-1'', tp_asset = ''EURUSD'', tp_direction = Buy, tp_notional = Fin 100, tp_slippage = 0\<rparr>"

definition sample_trading :: "(order_intent list, unit) trading" where
  "sample_trading = \<lparr>td_asset = ''EURUSD'',
     td_portfolio = \<lparr>pf_equity = Fin 1000, pf_cash = Fin 900, pf_high_water = Fin 1000, pf_positions = []\<rparr>,
     td_adapter = Some [], td_switch = init_daemon (default_config (Fin 5)) () None (\<lambda>_. 0),
     td_running = True, td_ticking = True\<rparr>"

text \<open>
  C13: Only a verdict with an \<open>Approved\<close> entry trades. On any other response, whatever its
  shape, the venue is not touched and the portfolio does not change.
\<close>

theorem only_approval_trades:
  "case has_key ''Approved'' verdict of
     Inr True \<Rightarrow> True
   | _ \<Rightarrow> td_adapter (fst (handle_verdict ven verdict pd s)) = td_adapter s \<and>
        td_portfolio (fst (handle_verdict ven verdict pd s)) = td_portfolio s"
  by (auto simp: handle_verdict_def split: sum.splits bool.splits)

text \<open>
  C15: No order of the pipeline ever reaches a venue: the engine's proposals carry no
  reference price, so an approved one cannot be converted into an intent. Over any run,
  with any venue, any Constitution and any ticks, the venue's state stays what it was.
\<close>

theorem venue_never_reached:
  "td_adapter (fst (run_loop ops hooks ven judge parse render es s)) = td_adapter s"
  by (simp add: run_loop_frame run_events_keep [where f = td_adapter] process_tick_adapter switch_tick_def)

text \<open>
  An approved proposal of the engine, with a healthy venue attached, makes the tick raise
  a \<open>ValueError\<close>; the state is unchanged and the switch is not beaten.
\<close>

theorem approved_with_venue_raises:
  assumes "td_adapter s = Some a" "v_healthy ven a"
  shows "handle_verdict ven (JObj [(''Approved'', JObj kvs)]) (dump p) s = (s, Raise ValueError)"
  using assms
  by (simp add: handle_verdict_def has_key_def handle_approved_def item_of_def adjusted_notional_def route_order_def
      verdict_to_order_action_def proposal_to_intent_def dump_def zero_pyfloat_def)

theorem approved_with_venue_raises_witness:
  "handle_verdict mock_venue (JObj [(''Approved'', JObj [(''adjusted_notional'', JFloat 1)])]) (dump sample_proposal)
     sample_trading = (sample_trading, Raise ValueError)"
  by (rule approved_with_venue_raises) (simp_all add: sample_trading_def mock_venue_def)

text \<open>
  The responses of the real kernel wrap the verdict (\<open>{verdict, system_state}\<close>). The
  daemon looks for the verdict's own keys, so whatever the kernel decides, approval or
  emergency, no run changes the portfolio.
\<close>

theorem wrapped_verdicts_ignored:
  "td_portfolio (fst (run_loop ops hooks ven
      (\<lambda>pf p. Ok (JObj [(''verdict'', v pf p), (''system_state'', JStr (st pf p))])) parse render es s)) =
   td_portfolio s"
  by (simp add: run_loop_frame run_events_keep [where f = td_portfolio] process_tick_wrapped switch_tick_def)

text \<open>
  A proposal with a positive reference price that the Constitution approves is executed
  exactly once on the mock venue, for the adjusted notional at that price, and recorded as
  exactly one position.
\<close>

theorem approved_order_filled_once:
  assumes "td_adapter s = Some orders" "0 < x"
  shows "handle_verdict mock_venue (JObj [(''Approved'', JObj [(''adjusted_notional'', JFloat n)])])
      \<lparr>pd_proposal = p, pd_reference_price = Some x\<rparr> s =
    (add_position \<lparr>po_asset = tp_asset p, po_notional = JFloat n, po_entry = Fin 50000,
        po_quantity = Some (n / x)\<rparr>
      (s\<lparr>td_adapter := Some (orders @ [\<lparr>oi_id = tp_id p, oi_asset = tp_asset p, oi_side = tp_direction p,
        oi_quantity = n / x, oi_slippage = tp_slippage p\<rparr>])\<rparr>), Ok ())"
proof -
  have "\<not> x \<le> 0" "x \<noteq> 0" using assms(2) by (cases x; auto simp: zero_pyfloat_def)+
  then show ?thesis
    using assms(1)
    by (simp add: handle_verdict_def has_key_def handle_approved_def item_of_def adjusted_notional_def obj_get_or_def
        route_order_def verdict_to_order_action_def proposal_to_intent_def as_number_def py_div_def mock_venue_def
        mock_execute_def apply_execution_def)
qed

theorem approved_order_filled_once_witness:
  "pf_positions (td_portfolio (fst (handle_verdict mock_venue
       (JObj [(''Approved'', JObj [(''adjusted_notional'', JFloat (Fin 80))])])
       \<lparr>pd_proposal = sample_proposal, pd_reference_price = Some (Fin 2)\<rparr> sample_trading))) =
     [\<lparr>po_asset = ''EURUSD'', po_notional = JFloat (Fin 80), po_entry = Fin 50000, po_quantity = Some (Fin 80 / Fin 2)\<rparr>]"
proof -
  have "td_adapter sample_trading = Some []" "0 < Fin 2" by (simp_all add: sample_trading_def)
  then show ?thesis
    by (subst approved_order_filled_once) (simp_all add: sample_proposal_def, simp add: sample_trading_def)
qed

text \<open>
  An emergency verdict makes the daemon raise instead of halting: its switch has no
  governance key, so disarming it is refused, and the switch is left as it was.
\<close>

theorem emergency_raises:
  assumes "d_key (td_switch s) = None"
  shows "handle_verdict ven (JObj [(''EmergencyLiquidationAll'', v)]) pd s = (s, Raise PermissionError)"
  using assms by (simp add: handle_verdict_def has_key_def on_switch_def disarm_def)

text \<open>
  A tick that returns has beaten the switch: its last heartbeat is the reading of the
  clock taken at the end of the tick.
\<close>

theorem returned_tick_beats:
  assumes "process_tick ven judge parse render uuid kvs s = (s', Ok ())"
  shows "\<exists>i. d_last_beat (td_switch s') = Some (d_clock (td_switch s') i)"
  using assms
  by (auto simp: process_tick_def on_switch_def beat_def read_clock_def journal_note_def journal_append_def Let_def
      split: sum.splits option.splits prod.splits if_splits)

text \<open>
  Whatever the ticks, the verdicts and the interleaving of the switch's own thread, a
  trading run keeps the switch sound: its journal is a legal chain of transitions, its
  counters fit its state, and its configuration is the daemon's.
\<close>

theorem trading_keeps_switch_sound:
  assumes "new_trading asset equity interval adapter clk = Ok s" "quiet_hooks hooks"
  shows "daemon_inv (td_switch (fst (run_loop ops hooks ven judge parse render es (start_trading s)))) \<and>
    d_config (td_switch (fst (run_loop ops hooks ven judge parse render es (start_trading s)))) =
      default_config interval"
proof -
  obtain ora where sw: "td_switch s = init_daemon (default_config interval) ora None clk"
    using assms(1) by (auto simp: new_trading_def new_daemon_def rbind_Inr_iff split: if_splits)
  have "reachable ops hooks (td_switch s) (td_switch (start_trading s))"
    by (simp add: start_trading_def reach_refl)
  from run_events_reachable [OF this]
  have r: "reachable ops hooks (td_switch s)
      (td_switch (fst (run_loop ops hooks ven judge parse render es (start_trading s))))"
    by (simp add: run_loop_frame)
  have "daemon_inv (td_switch s)"
    unfolding sw using assms(1) by (intro daemon_inv_init) (simp_all add: default_config_def new_trading_def split: if_splits)
  from reachable_inv [OF r this assms(2)] show ?thesis by (simp add: sw init_daemon_def)
qed

theorem trading_keeps_switch_sound_witness:
  "case new_trading ''EURUSD'' (Fin 1000) (Fin 5) (Some ([] :: order_intent list)) (\<lambda>_. 0) of
     Inl _ \<Rightarrow> False
   | Inr s \<Rightarrow> daemon_inv (td_switch (fst (run_loop sample_ops no_hooks mock_venue (\<lambda>_ _. Raise ConnectionError)
       (\<lambda>_. None) (\<lambda>_. []) [SwitchTick] (start_trading s))))"
proof -
  obtain s where s: "new_trading ''EURUSD'' (Fin 1000) (Fin 5) (Some ([] :: order_intent list)) (\<lambda>_. 0) = Ok s"
    by (simp add: new_trading_def default_config_ok new_daemon_def oracle_factory_def) (simp add: default_config_def)
  from trading_keeps_switch_sound [OF s quiet_no_hooks] show ?thesis unfolding s by simp
qed


end
