(* ===== verification/Orchestrator.thy ===== *)
theory Orchestrator
  imports Prelude "HOL-Library.AList"
begin

text \<open>
  The service orchestrator of \<open>centaur_start.py\<close>: the service table, starting and adopting,
  the restart check of every monitoring cycle, the self-healing pass and the retry pass. What
  the processes and the kernel's health probe answer is the world, given anew for each pass;
  launching may fail. The log the code writes is part of the state, newest entry first.
\<close>

section \<open>Services and processes\<close>

record service =
  sv_name :: string
  sv_restart :: bool
  sv_deps :: "string list"

abbreviation kernel_name :: string where "kernel_name \<equiv> ''constitution''"

definition SERVICES :: "service list" where
  "SERVICES =
     [\<lparr>sv_name = ''constitution'', sv_restart = True, sv_deps = []\<rparr>,
      \<lparr>sv_name = ''doomsday'', sv_restart = True, sv_deps = [''constitution'']\<rparr>,
      \<lparr>sv_name = ''trading-daemon'', sv_restart = True, sv_deps = [''constitution'', ''doomsday'']\<rparr>,
      \<lparr>sv_name = ''mesh-0'', sv_restart = True, sv_deps = [''constitution'']\<rparr>,
      \<lparr>sv_name = ''mesh-1'', sv_restart = True, sv_deps = [''constitution'', ''mesh-0'']\<rparr>,
      \<lparr>sv_name = ''mesh-2'', sv_restart = True, sv_deps = [''constitution'', ''mesh-0'', ''mesh-1'']\<rparr>,
      \<lparr>sv_name = ''evolution'', sv_restart = True, sv_deps = [''constitution'']\<rparr>,
      \<lparr>sv_name = ''compliance'', sv_restart = True, sv_deps = [''constitution'']\<rparr>]"

text \<open>A process the orchestrator spawned, or the pseudo-handle of a kernel it adopted.\<close>

datatype proc = Spawned nat | Adopted nat

record world =
  w_alive :: "nat \<Rightarrow> bool"
  w_healthy :: bool
  w_owner :: nat
  w_spawn :: "string \<Rightarrow> nat option"

definition down :: "world \<Rightarrow> proc \<Rightarrow> bool" where
  "down w p = (case p of Spawned i \<Rightarrow> \<not> w_alive w i | Adopted _ \<Rightarrow> \<not> w_healthy w)"

datatype log_event =
    LAdopted string | LStarted string | LFailed string | LDead string | LCrashed string
  | LRestarted string | LRetry string | LSkip string

record orch =
  oc_procs :: "(string \<times> proc) list"
  oc_counts :: "string \<Rightarrow> nat option"
  oc_log :: "log_event list"

definition new_orch :: orch where
  "new_orch = \<lparr>oc_procs = [], oc_counts = Map.empty, oc_log = []\<rparr>"

definition logged :: "log_event \<Rightarrow> orch \<Rightarrow> orch" where
  "logged e o' = o'\<lparr>oc_log := e # oc_log o'\<rparr>"

definition set_proc :: "string \<Rightarrow> proc \<Rightarrow> orch \<Rightarrow> orch" where
  "set_proc n p o' = o'\<lparr>oc_procs := AList.update n p (oc_procs o')\<rparr>"

definition set_count :: "string \<Rightarrow> nat \<Rightarrow> orch \<Rightarrow> orch" where
  "set_count n k o' = o'\<lparr>oc_counts := (oc_counts o')(n \<mapsto> k)\<rparr>"

definition count_of :: "string \<Rightarrow> orch \<Rightarrow> nat" where
  "count_of n o' = (case oc_counts o' n of None \<Rightarrow> 0 | Some k \<Rightarrow> k)"

section \<open>Starting\<close>

text \<open>\<open>_can_start\<close>: the loop returns at the kernel's name.\<close>

fun can_start :: "world \<Rightarrow> orch \<Rightarrow> string list \<Rightarrow> bool" where
  "can_start w o' [] = True"
| "can_start w o' (d # ds) =
     (if d = kernel_name then w_healthy w
      else case map_of (oc_procs o') d of
          None \<Rightarrow> False
        | Some p \<Rightarrow> if down w p then False else can_start w o' ds)"

definition start_service :: "world \<Rightarrow> service \<Rightarrow> orch \<Rightarrow> bool \<times> orch" where
  "start_service w svc o' =
     (let n = sv_name svc in
      if n = kernel_name \<and> w_healthy w
      then (True, logged (LAdopted n) (set_count n 0 (set_proc n (Adopted (w_owner w)) o')))
      else case w_spawn w n of
          None \<Rightarrow> (False, logged (LFailed n) o')
        | Some i \<Rightarrow> (True, logged (LStarted n) (set_count n 0 (set_proc n (Spawned i) o'))))"

section \<open>Monitoring\<close>

text \<open>\<open>_check_restart\<close>: launching is not guarded here, so its exception escapes.\<close>

definition check_restart :: "world \<Rightarrow> service \<Rightarrow> proc \<Rightarrow> orch \<Rightarrow> orch \<times> unit result" where
  "check_restart w svc p o' =
     (let n = sv_name svc in
      if \<not> down w p then (o', Ok ())
      else let k = count_of n o' + 1; o1 = set_count n k o' in
        if 10 < k then (logged (LDead n) o1, Ok ())
        else let o2 = logged (LCrashed n) o1 in
          if sv_restart svc \<and> can_start w o2 (sv_deps svc)
          then case w_spawn w n of
              None \<Rightarrow> (o2, Raise RuntimeError)
            | Some i \<Rightarrow> (logged (LRestarted n) (set_proc n (Spawned i) o2), Ok ())
          else (o2, Ok ()))"

fun check_all :: "world \<Rightarrow> service list \<Rightarrow> orch \<Rightarrow> orch \<times> unit result" where
  "check_all w [] o' = (o', Ok ())"
| "check_all w (svc # ss) o' =
     (case map_of (oc_procs o') (sv_name svc) of
        None \<Rightarrow> check_all w ss o'
      | Some p \<Rightarrow>
          (case check_restart w svc p o' of
             (o1, Inl e) \<Rightarrow> (o1, Raise e)
           | (o1, Inr _) \<Rightarrow> check_all w ss o1))"

text \<open>
  \<open>_scan_and_heal\<close> over the newest five errors of the log scan: an error is patched by the
  evolution agent, or skipped, or, for a protocol error, makes the kernel start again.
\<close>

record scan_error =
  se_pattern :: string
  se_patched :: bool
  se_world :: world

definition heal_one :: "scan_error \<Rightarrow> orch \<Rightarrow> orch" where
  "heal_one e o' =
     (if se_patched e \<or> se_pattern e \<noteq> ''ipc_protocol_error'' then o'
      else fold (\<lambda>svc o1. if sv_name svc = kernel_name \<and> can_start (se_world e) o1 (sv_deps svc)
                         then snd (start_service (se_world e) svc o1) else o1) SERVICES o')"

definition scan_and_heal :: "scan_error list \<Rightarrow> orch \<Rightarrow> orch" where
  "scan_and_heal errors o' = fold heal_one (take 5 errors) o'"

definition missing :: "world \<Rightarrow> string \<Rightarrow> orch \<Rightarrow> bool" where
  "missing w n o' = (case map_of (oc_procs o') n of None \<Rightarrow> True | Some p \<Rightarrow> down w p)"

definition retry_one :: "world \<Rightarrow> service \<Rightarrow> orch \<Rightarrow> orch" where
  "retry_one w svc o' =
     (if missing w (sv_name svc) o' \<and> can_start w o' (sv_deps svc)
      then set_count (sv_name svc) 0 (snd (start_service w svc (logged (LRetry (sv_name svc)) o')))
      else o')"

definition retry_skipped :: "world \<Rightarrow> orch \<Rightarrow> orch" where
  "retry_skipped w o' = fold (retry_one w) (tl SERVICES) o'"

record cycle_input =
  ci_check :: world
  ci_errors :: "scan_error list"
  ci_retry :: world

definition monitor_cycle :: "nat \<Rightarrow> cycle_input \<Rightarrow> orch \<Rightarrow> orch \<times> unit result" where
  "monitor_cycle k ci o' =
     (case check_all (ci_check ci) SERVICES o' of
        (o1, Inl e) \<Rightarrow> (o1, Raise e)
      | (o1, Inr _) \<Rightarrow>
          (let o2 = (if k mod 6 = 0 then scan_and_heal (ci_errors ci) o1 else o1)
           in (if k mod 12 = 0 then retry_skipped (ci_retry ci) o2 else o2, Ok ())))"

fun monitor :: "nat \<Rightarrow> cycle_input list \<Rightarrow> orch \<Rightarrow> orch \<times> unit result" where
  "monitor k [] o' = (o', Ok ())"
| "monitor k (ci # cis) o' =
     (case monitor_cycle (Suc k) ci o' of
        (o1, Inl e) \<Rightarrow> (o1, Raise e)
      | (o1, Inr _) \<Rightarrow> monitor (Suc k) cis o1)"

section \<open>Boot and shutdown\<close>

definition boot_one :: "world \<Rightarrow> service \<Rightarrow> orch \<Rightarrow> orch" where
  "boot_one w svc o' =
     (if can_start w o' (sv_deps svc) then snd (start_service w svc o') else logged (LSkip (sv_name svc)) o')"

text \<open>\<open>run\<close>: exit code 1 when the kernel does not start or does not become healthy.\<close>

definition run_orch :: "world \<Rightarrow> world \<Rightarrow> cycle_input list \<Rightarrow> orch \<times> nat result" where
  "run_orch w0 w1 cis =
     (case start_service w0 (hd SERVICES) new_orch of
        (False, o') \<Rightarrow> (o', Ok 1)
      | (True, o') \<Rightarrow>
          if \<not> w_healthy w1 then (o', Ok 1)
          else (case monitor 0 cis (fold (boot_one w1) (tl SERVICES) o') of
              (o2, Inl e) \<Rightarrow> (o2, Raise e)
            | (o2, Inr _) \<Rightarrow> (o2, Ok 0)))"

text \<open>The processes \<open>_stop_all\<close> signals: an adopted one only ignores it.\<close>

definition stop_all :: "orch \<Rightarrow> nat list" where
  "stop_all o' = concat (map (\<lambda>(_, p). case p of Spawned i \<Rightarrow> [i] | Adopted _ \<Rightarrow> []) (oc_procs o'))"

section \<open>Lemmas\<close>

lemma orch_simps [simp]:
  "oc_procs (logged e o') = oc_procs o'" "oc_counts (logged e o') = oc_counts o'"
  "oc_log (logged e o') = e # oc_log o'" "oc_log (set_count n k o') = oc_log o'"
  "oc_log (set_proc n p o') = oc_log o'" "oc_procs (set_count n k o') = oc_procs o'"
  "oc_counts (set_proc n p o') = oc_counts o'" "oc_procs (set_proc n p o') = AList.update n p (oc_procs o')"
  "oc_counts (set_count n k o') = (oc_counts o')(n \<mapsto> k)"
  by (simp_all add: logged_def set_count_def set_proc_def)

lemma count_of_simps [simp]:
  "count_of n (logged e o') = count_of n o'" "count_of n (set_proc m p o') = count_of n o'"
  "count_of n (set_count m k o') = (if n = m then k else count_of n o')"
  by (simp_all add: count_of_def)

subsection \<open>The restart budget\<close>

text \<open>The restarts of a service since it was last started, adopted or retried.\<close>

fun restarts_since :: "string \<Rightarrow> log_event list \<Rightarrow> nat" where
  "restarts_since n [] = 0"
| "restarts_since n (e # es) =
     (if e = LStarted n \<or> e = LAdopted n \<or> e = LRetry n then 0
      else if e = LRestarted n then Suc (restarts_since n es) else restarts_since n es)"

definition budget_ok :: "orch \<Rightarrow> bool" where
  "budget_ok o' \<longleftrightarrow> (\<forall>n. restarts_since n (oc_log o') \<le> 10 \<and> restarts_since n (oc_log o') \<le> count_of n o')"

lemma budget_new: "budget_ok new_orch"
  by (simp add: budget_ok_def new_orch_def)

lemma budget_start: "budget_ok o' \<Longrightarrow> budget_ok (snd (start_service w svc o'))"
  by (auto simp: budget_ok_def start_service_def Let_def split: option.splits)

lemma budget_boot: "budget_ok o' \<Longrightarrow> budget_ok (boot_one w svc o')"
  using budget_start [of o' w svc] by (simp add: boot_one_def) (simp add: budget_ok_def)

lemma budget_check: "budget_ok o' \<Longrightarrow> budget_ok (fst (check_restart w svc p o'))"
proof -
  assume b: "budget_ok o'"
  then have "restarts_since (sv_name svc) (oc_log o') \<le> count_of (sv_name svc) o'" by (simp add: budget_ok_def)
  then have "restarts_since (sv_name svc) (oc_log o') \<le> 9 \<or> 9 < count_of (sv_name svc) o'" by linarith
  with b show ?thesis
    by (auto simp: budget_ok_def check_restart_def Let_def intro: le_SucI split: option.splits)
qed

lemma budget_check_all: "budget_ok o' \<Longrightarrow> budget_ok (fst (check_all w ss o'))"
proof (induction w ss o' rule: check_all.induct)
  case (2 w svc ss o')
  show ?case
  proof (cases "map_of (oc_procs o') (sv_name svc)")
    case (Some p)
    obtain o1 r where c: "check_restart w svc p o' = (o1, r)" by fastforce
    with budget_check [OF 2(3), of w svc p] have "budget_ok o1" by simp
    then show ?thesis using 2(2) [OF Some] by (cases r) (simp_all add: Some c)
  qed (simp add: 2)
qed simp

lemma budget_fold: "(\<And>x o'. budget_ok o' \<Longrightarrow> budget_ok (f x o')) \<Longrightarrow> budget_ok o' \<Longrightarrow> budget_ok (fold f xs o')"
  by (induction xs arbitrary: o') auto

lemma budget_heal: "budget_ok o' \<Longrightarrow> budget_ok (scan_and_heal errors o')"
  unfolding scan_and_heal_def heal_one_def by (intro budget_fold) (auto intro!: budget_fold budget_start)

lemma budget_retry: "budget_ok o' \<Longrightarrow> budget_ok (retry_one w svc o')"
proof (cases "missing w (sv_name svc) o' \<and> can_start w o' (sv_deps svc)")
  case True
  assume b: "budget_ok o'"
  then have l: "budget_ok (logged (LRetry (sv_name svc)) o')" by (simp add: budget_ok_def)
  have "restarts_since (sv_name svc) (oc_log (snd (start_service w svc (logged (LRetry (sv_name svc)) o')))) = 0"
    by (auto simp: start_service_def Let_def split: option.splits)
  then show ?thesis using budget_start [OF l, of w svc] True by (simp add: retry_one_def) (simp add: budget_ok_def)
next
  case False
  then have "retry_one w svc o' = o'" unfolding retry_one_def by (simp only: if_False)
  then show "budget_ok o' \<Longrightarrow> ?thesis" by simp
qed

lemma budget_cycle: "budget_ok o' \<Longrightarrow> budget_ok (fst (monitor_cycle k ci o'))"
  using budget_check_all [of o' "ci_check ci" SERVICES]
  by (auto simp: monitor_cycle_def Let_def retry_skipped_def split: prod.splits sum.splits
      intro!: budget_fold budget_retry budget_heal)

lemma budget_monitor: "budget_ok o' \<Longrightarrow> budget_ok (fst (monitor k cis o'))"
proof (induction k cis o' rule: monitor.induct)
  case (2 k ci cis o')
  obtain o1 r where c: "monitor_cycle (Suc k) ci o' = (o1, r)" by fastforce
  with budget_cycle [OF 2(2), of "Suc k" ci] have "budget_ok o1" by simp
  then show ?case using 2(1) c by (cases r) simp_all
qed simp

subsection \<open>Retrying\<close>

lemma kernel_first: "svc \<in> set (tl SERVICES) \<Longrightarrow> \<exists>ds. sv_deps svc = kernel_name # ds"
  by (auto simp: SERVICES_def)

lemma not_kernel: "svc \<in> set (tl SERVICES) \<Longrightarrow> sv_name svc \<noteq> kernel_name"
  by (auto simp: SERVICES_def)

definition launches :: "world \<Rightarrow> bool" where
  "launches w \<longleftrightarrow> (\<forall>n. \<exists>i. w_spawn w n = Some i \<and> w_alive w i)"

lemma retry_one_up:
  assumes "w_healthy w" "launches w" "svc \<in> set (tl SERVICES)"
  shows "\<not> missing w (sv_name svc) (retry_one w svc o')"
    and "\<not> missing w n o' \<Longrightarrow> \<not> missing w n (retry_one w svc o')"
proof -
  obtain i where i: "w_spawn w (sv_name svc) = Some i" "w_alive w i" using assms(2) unfolding launches_def by blast
  obtain ds where "sv_deps svc = kernel_name # ds" using kernel_first assms(3) by blast
  then have r: "retry_one w svc o' =
     (if missing w (sv_name svc) o'
      then set_count (sv_name svc) 0 (logged (LStarted (sv_name svc)) (set_count (sv_name svc) 0
        (set_proc (sv_name svc) (Spawned i) (logged (LRetry (sv_name svc)) o')))) else o')"
    using assms(1) not_kernel [OF assms(3)] i(1) by (simp add: retry_one_def start_service_def Let_def)
  show "\<not> missing w (sv_name svc) (retry_one w svc o')"
    unfolding r using i(2) by (auto simp: missing_def update_conv' down_def)
  show "\<not> missing w n o' \<Longrightarrow> \<not> missing w n (retry_one w svc o')"
    unfolding r using i(2) by (auto simp: missing_def update_conv' down_def)
qed

lemma retry_fold_up:
  assumes "w_healthy w" "launches w" "set ss \<subseteq> set (tl SERVICES)"
  shows "(\<not> missing w n o' \<longrightarrow> \<not> missing w n (fold (retry_one w) ss o')) \<and>
    (\<forall>svc \<in> set ss. \<not> missing w (sv_name svc) (fold (retry_one w) ss o'))"
  using assms(3)
proof (induction ss arbitrary: o')
  case (Cons s ss)
  have keep: "\<not> missing w m x \<Longrightarrow> \<not> missing w m (fold (retry_one w) ss x)" for m x
    using Cons.prems
  proof (induction ss arbitrary: x)
    case (Cons s' ss')
    then show ?case using retry_one_up(2) [OF assms(1,2), of s'] by simp
  qed simp
  have s: "s \<in> set (tl SERVICES)" using Cons.prems by simp
  show ?case
    using Cons.IH [of "retry_one w s o'"] Cons.prems retry_one_up [OF assms(1,2) s] keep by simp
qed simp

subsection \<open>The checks of one service\<close>

fun checks :: "service \<Rightarrow> world list \<Rightarrow> orch \<Rightarrow> orch" where
  "checks svc [] o' = o'"
| "checks svc (w # ws) o' =
     checks svc ws (case map_of (oc_procs o') (sv_name svc) of None \<Rightarrow> o' | Some p \<Rightarrow> fst (check_restart w svc p o'))"

lemma check_unhealthy:
  assumes "svc \<in> set (tl SERVICES)" "down w p" "\<not> w_healthy w"
  shows "oc_procs (fst (check_restart w svc p o')) = oc_procs o' \<and>
    count_of (sv_name svc) (fst (check_restart w svc p o')) = count_of (sv_name svc) o' + 1"
  using assms kernel_first [OF assms(1)] by (auto simp: check_restart_def Let_def)

lemma check_exhausted:
  assumes "down w p" "10 \<le> count_of (sv_name svc) o'"
  shows "oc_procs (fst (check_restart w svc p o')) = oc_procs o' \<and>
    count_of (sv_name svc) (fst (check_restart w svc p o')) = count_of (sv_name svc) o' + 1"
  using assms by (auto simp: check_restart_def Let_def)

lemma checks_exhausted:
  "list_all (\<lambda>w. down w p) ws \<Longrightarrow> map_of (oc_procs o') (sv_name svc) = Some p \<Longrightarrow>
     10 \<le> count_of (sv_name svc) o' \<Longrightarrow> oc_procs (checks svc ws o') = oc_procs o'"
  by (induction ws arbitrary: o') (simp_all add: check_exhausted)

lemma checks_unhealthy:
  "svc \<in> set (tl SERVICES) \<Longrightarrow> list_all (\<lambda>w. down w p \<and> \<not> w_healthy w) ws \<Longrightarrow>
     map_of (oc_procs o') (sv_name svc) = Some p \<Longrightarrow>
     oc_procs (checks svc ws o') = oc_procs o' \<and>
     count_of (sv_name svc) (checks svc ws o') = count_of (sv_name svc) o' + length ws"
  by (induction ws arbitrary: o') (simp_all add: check_unhealthy)

lemma checks_append: "checks svc (ws @ vs) o' = checks svc vs (checks svc ws o')"
  by (induction ws arbitrary: o') simp_all

section \<open>Properties\<close>

text \<open>
  C21: In every run of the orchestrator, whatever the processes, the health probe and the log
  scan do, a service is restarted by the crash check at most ten times between two starts
  (starts, adoptions and retries).
\<close>

theorem restart_cap: "restarts_since n (oc_log (fst (run_orch w0 w1 cis))) \<le> 10"
proof -
  obtain ok o1 where s: "start_service w0 (hd SERVICES) new_orch = (ok, o1)" by fastforce
  with budget_start [OF budget_new, of w0 "hd SERVICES"] have b: "budget_ok o1" by simp
  then have "budget_ok (fold (boot_one w1) (tl SERVICES) o1)" by (intro budget_fold budget_boot)
  from budget_monitor [OF this, of 0 cis] have "budget_ok (fst (run_orch w0 w1 cis))"
    using s b by (auto simp: run_orch_def split: bool.splits prod.splits sum.splits)
  then show ?thesis by (simp add: budget_ok_def)
qed

text \<open>
  A retry pass with a healthy kernel and launches that succeed brings every service but
  the kernel up, whatever was missing, crashed or given up before.
\<close>

theorem retry_restores_services:
  assumes "w_healthy w" "launches w"
  shows "list_all (\<lambda>svc. \<not> missing w (sv_name svc) (retry_skipped w o')) (tl SERVICES)"
  using retry_fold_up [OF assms order_refl] by (simp add: retry_skipped_def list_all_iff)

definition calm_world :: world where
  "calm_world = \<lparr>w_alive = (\<lambda>_. True), w_healthy = True, w_owner = 4, w_spawn = (\<lambda>_. Some 7)\<rparr>"

theorem retry_restores_services_witness:
  "\<not> missing calm_world ''mesh-2'' (retry_skipped calm_world new_orch)"
proof -
  have "w_healthy calm_world" "launches calm_world" by (simp_all add: calm_world_def launches_def)
  from retry_restores_services [OF this, of new_orch] show ?thesis by (simp add: SERVICES_def)
qed

text \<open>
  The dependencies of a service other than the kernel are never looked at: every service
  of the table may start exactly when it has no dependency or the kernel is healthy, whether or
  not the other services it depends on run.
\<close>

theorem only_kernel_dependency_checked:
  "list_all (\<lambda>svc. can_start w o' (sv_deps svc) = (sv_deps svc = [] \<or> w_healthy w)) SERVICES"
  by (simp add: SERVICES_def)

text \<open>
  A kernel outage uses up the restart budget of the services that wait for it: after ten
  checks during which a crashed service could not be restarted, the crash check does not
  restart it any more, however healthy the kernel is by then.
\<close>

theorem outage_spends_budget:
  assumes "svc \<in> set (tl SERVICES)" "map_of (oc_procs o') (sv_name svc) = Some p" "10 \<le> length ws"
    and "list_all (\<lambda>w. down w p \<and> \<not> w_healthy w) ws" "list_all (\<lambda>w. down w p) vs"
  shows "oc_procs (checks svc (ws @ vs) o') = oc_procs o'"
  using checks_unhealthy [OF assms(1,4,2)] checks_exhausted [OF assms(5), of "checks svc ws o'" svc] assms(2,3)
  by (simp add: checks_append)

theorem outage_spends_budget_witness:
  "oc_procs (checks (SERVICES ! 1)
     (replicate 10 (calm_world\<lparr>w_healthy := False, w_alive := \<lambda>_. False\<rparr>) @
      replicate 3 (calm_world\<lparr>w_alive := \<lambda>_. False\<rparr>))
     (set_proc ''doomsday'' (Spawned 1) new_orch)) = [(''doomsday'', Spawned 1)]"
  by (subst outage_spends_budget [where p = "Spawned 1"])
    (simp_all add: SERVICES_def new_orch_def calm_world_def down_def list_all_iff)

text \<open>
  A protocol error in the logs makes the orchestrator disown its kernel: with a healthy
  kernel the healing pass replaces the handle of the process it spawned by an adopted one, and
  the shutdown does not signal that process any more.
\<close>

theorem heal_disowns_kernel:
  assumes "\<not> se_patched e" "se_pattern e = ''ipc_protocol_error''" "w_healthy (se_world e)"
  shows "map_of (oc_procs (heal_one e o')) kernel_name = Some (Adopted (w_owner (se_world e))) \<and>
    (\<forall>n. n = kernel_name \<or> map_of (oc_procs (heal_one e o')) n = map_of (oc_procs o') n)"
  using assms by (simp add: heal_one_def SERVICES_def start_service_def Let_def update_conv')

theorem heal_disowns_kernel_witness:
  "map_of (oc_procs (heal_one \<lparr>se_pattern = ''ipc_protocol_error'', se_patched = False, se_world = calm_world\<rparr>
     (set_proc kernel_name (Spawned 1) new_orch))) kernel_name = Some (Adopted 4)"
  by (subst conjunct1 [OF heal_disowns_kernel]) (simp_all add: calm_world_def)

text \<open>
  A launch that fails during a restart is not caught: the exception ends the monitoring
  loop, and with it the supervision of every other service, although a failing first start is
  only logged.
\<close>

theorem failed_restart_escapes:
  assumes "down w p" "count_of (sv_name svc) o' < 10" "sv_restart svc" "sv_deps svc = []"
    and "w_spawn w (sv_name svc) = None"
  shows "snd (check_restart w svc p o') = Raise RuntimeError"
  using assms by (simp add: check_restart_def Let_def)

end
