(* ===== verification/EventWatcher.thy ===== *)
theory EventWatcher
  imports MarketContext EventEngine Pullback CortexEngine "HOL-Library.List_Lexorder" "HOL-Library.Char_ord"
begin

text \<open>
  \<open>EventWatcher\<close> of \<open>cortex/cortex/event_watcher.py\<close>: every tick goes through the candle
  aggregator, the context builder, the event engine and the pullback tracker. The two clocks
  (monotonic and wall time) and the liquidity levels in force are arguments of a tick.
\<close>

section \<open>State and reports\<close>

record watcher =
  wt_asset :: string
  wt_params :: params
  wt_agg :: aggregator
  wt_candles :: "candle list"
  wt_max :: nat
  wt_engine :: event_engine
  wt_tracker :: tracker
  wt_interval_ms :: pyfloat
  wt_rt_at :: pyfloat
  wt_sig :: "(string list \<times> regime \<times> phase \<times> bool) option"

text \<open>
  The candles follow the watcher's own timeframe; the parameters carry one too, which is the same
  only when they are the default.
\<close>

definition new_watcher ::
    "string \<Rightarrow> pyfloat \<Rightarrow> params option \<Rightarrow> nat \<Rightarrow> event_engine \<Rightarrow> pyfloat \<Rightarrow> watcher" where
  "new_watcher asset tf p m e interval =
     \<lparr>wt_asset = asset, wt_params = (case p of None \<Rightarrow> default_params\<lparr>p_timeframe := tf\<rparr> | Some q \<Rightarrow> q),
      wt_agg = new_aggregator tf, wt_candles = [], wt_max = m,
      wt_engine = e, wt_tracker = default_tracker, wt_interval_ms = interval, wt_rt_at = 0, wt_sig = None\<rparr>"

datatype report_phase = RealTime | AtClose

record watch_report =
  wr_phase :: report_phase
  wr_events :: event_report
  wr_pullback :: tracker_snapshot
  wr_transition :: "pullback_event option"
  wr_latency :: pyfloat
  wr_preview :: "pyfloat option"
  wr_regime :: regime
  wr_market_phase :: phase
  wr_bias :: bias
  wr_integrity :: bool
  wr_break :: "pyfloat option"

section \<open>Analysis\<close>

fun pullback_thesis :: "pullback_event \<Rightarrow> catalog_entry" where
  "pullback_thesis Armed = \<lparr>ev_id = ''pullback_armed'',
     ev_mechanism = ''price retraced into the healthy 0.25-0.65 ATR-normalised zone'',
     ev_thesis = ''The impulse is intact; what was obtainable is being banked and the re-entry lay-up is forming.'',
     ev_invalidation = ''retrace deepens beyond 0.65 of the impulse (the correction becomes a reversal)'',
     ev_conversion = ''re-enter when the impulse confirms resumption'', ev_family = ''structure''\<rparr>"
| "pullback_thesis Resumed = \<lparr>ev_id = ''pullback_resumed'',
     ev_mechanism = ''impulse resumed past its extreme after an ATR-normalised pullback'',
     ev_thesis = ''The healthy pullback resolved in favour of the impulse: re-enter with the move.'',
     ev_invalidation = ''close back through the pullback low (bull) / high (bear)'',
     ev_conversion = ''re-enter with the impulse; trail under the resumption pivot'', ev_family = ''structure''\<rparr>"
| "pullback_thesis Broken = \<lparr>ev_id = ''pullback_broken'',
     ev_mechanism = ''structure anchor violated: the correction has become a reversal'',
     ev_thesis = ''The red-after-green event: stand out with profits banked; the impulse is over.'',
     ev_invalidation = ''price reclaims the anchor within this candle'',
     ev_conversion = ''stand out; the move is done'', ev_family = ''structure''\<rparr>"

definition merge_pullback :: "pullback_event option \<Rightarrow> event_report \<Rightarrow> event_report" where
  "merge_pullback transition r =
     (case transition of
        None \<Rightarrow> r
      | Some e \<Rightarrow>
          (let t = pullback_thesis e
           in r\<lparr>er_theses := (ev_id t, t) # filter (\<lambda>(i, _). i \<noteq> ev_id t) (er_theses r)\<rparr>))"

definition signature :: "watch_report \<Rightarrow> string list \<times> regime \<times> phase \<times> bool" where
  "signature r = (sort (map fst (er_theses (wr_events r))), wr_regime r, wr_market_phase r, wr_integrity r)"

text \<open>The common body of \<open>_analyze_rt\<close> and \<open>_analyze_closed\<close>: candles, and the one the tracker sees.\<close>

definition analyze_candles ::
    "report_phase \<Rightarrow> pyfloat \<Rightarrow> pyfloat option \<Rightarrow> pyfloat list \<Rightarrow> candle list \<Rightarrow> candle \<Rightarrow> watcher \<Rightarrow>
      watcher \<times> watch_report result" where
  "analyze_candles ph latency preview levels candles newest w =
     (let ctx = build_context candles (wt_params w) (wt_asset w)
      in case analyze (wt_engine w) candles (x_atr ctx) levels of
          Inl e \<Rightarrow> (w, Raise e)
        | Inr rep \<Rightarrow>
            (let (transition, t) = update newest (x_atr ctx) (wt_tracker w)
             in (w\<lparr>wt_tracker := t\<rparr>, Ok
                  \<lparr>wr_phase = ph, wr_events = merge_pullback transition rep, wr_pullback = tracker_snapshot t,
                   wr_transition = transition, wr_latency = latency, wr_preview = preview,
                   wr_regime = x_regime ctx, wr_market_phase = x_phase ctx, wr_bias = x_bias ctx,
                   wr_integrity = x_integrity ctx, wr_break = x_break ctx\<rparr>)))"

definition latency_ms :: "pyfloat \<Rightarrow> candle \<Rightarrow> pyfloat" where
  "latency_ms wall c = py_max 0 ((wall - c_t_close c) * Fin 1000)"

definition analyze_closed :: "pyfloat \<Rightarrow> pyfloat list \<Rightarrow> watcher \<Rightarrow> watcher \<times> watch_report result" where
  "analyze_closed wall levels w =
     analyze_candles AtClose (latency_ms wall (last (wt_candles w))) None levels (wt_candles w) (last (wt_candles w)) w"

definition analyze_rt ::
    "pyfloat \<Rightarrow> pyfloat list \<Rightarrow> watcher \<Rightarrow> watcher \<times> watch_report option result" where
  "analyze_rt ts levels w =
     (if wt_candles w = [] \<or> length (wt_candles w) < p_atr_period (wt_params w) + 1 then (w, Ok None)
      else case forming (wt_agg w) ts of
          Inl e \<Rightarrow> (w, Raise e)
        | Inr None \<Rightarrow> (w, Ok None)
        | Inr (Some f) \<Rightarrow>
            (case analyze_candles RealTime 0 (Some (c_close f)) levels (wt_candles w @ [f]) f w of
               (w', Inl e) \<Rightarrow> (w', Raise e)
             | (w', Inr r) \<Rightarrow> (w', Ok (Some r))))"

section \<open>One tick\<close>

definition push_closed :: "candle \<Rightarrow> watcher \<Rightarrow> watcher" where
  "push_closed c w = w\<lparr>wt_candles := lastn (wt_max w) (wt_candles w @ [c])\<rparr>"

definition rt_report :: "pyfloat \<Rightarrow> pyfloat \<Rightarrow> pyfloat list \<Rightarrow> watcher \<Rightarrow> watcher \<times> watch_report option result" where
  "rt_report now ts levels w =
     (if \<not> wt_interval_ms w / Fin 1000 \<le> now - wt_rt_at w then (w, Ok None)
      else case analyze_rt ts levels (w\<lparr>wt_rt_at := now\<rparr>) of
          (w', Inl e) \<Rightarrow> (w', Raise e)
        | (w', Inr None) \<Rightarrow> (w', Ok None)
        | (w', Inr (Some r)) \<Rightarrow>
            if Some (signature r) \<noteq> wt_sig w' then (w'\<lparr>wt_sig := Some (signature r)\<rparr>, Ok (Some r))
            else (w', Ok None))"

text \<open>\<open>price > 0 and price == price\<close>: infinity passes here and is ignored by the aggregator.\<close>

definition finite_positive :: "pyfloat \<Rightarrow> bool" where
  "finite_positive price \<longleftrightarrow> 0 < price \<and> feq price price"

definition watch_price ::
    "pyfloat \<Rightarrow> pyfloat \<Rightarrow> pyfloat list \<Rightarrow> pyfloat \<Rightarrow> pyfloat \<Rightarrow> watcher \<Rightarrow> watcher \<times> watch_report option result" where
  "watch_price now wall levels price ts w =
     (if \<not> finite_positive price then (w, Ok None)
      else case feed (wt_agg w) price ts of
          Inl e \<Rightarrow> (w, Raise e)
        | Inr (None, a) \<Rightarrow> rt_report now ts levels (w\<lparr>wt_agg := a\<rparr>)
        | Inr (Some c, a) \<Rightarrow>
            (case analyze_closed wall levels (push_closed c (w\<lparr>wt_agg := a\<rparr>)) of
               (w', Inl e) \<Rightarrow> (w', Raise e)
             | (w', Inr r) \<Rightarrow> (w'\<lparr>wt_sig := None\<rparr>, Ok (Some r))))"

text \<open>\<open>watch_tick\<close> on a decoded tick: missing price or time, conversions, then the above.\<close>

definition watch_tick ::
    "(string \<Rightarrow> pyfloat option) \<Rightarrow> pyfloat \<Rightarrow> pyfloat \<Rightarrow> pyfloat list \<Rightarrow> obj \<Rightarrow> watcher \<Rightarrow>
      watcher \<times> watch_report option result" where
  "watch_tick parse now wall levels kvs w =
     (if obj_get kvs ''price'' = JNull \<or> obj_get kvs ''timestamp'' = JNull then (w, Ok None)
      else case rbind (py_float parse (obj_get kvs ''price'')) (\<lambda>p.
                rbind (py_float parse (obj_get kvs ''timestamp'')) (\<lambda>t. Ok (p, t))) of
          Inl e \<Rightarrow> (w, Raise e)
        | Inr (p, t) \<Rightarrow> watch_price now wall levels p t w)"

interpretation window: bounded_history push_closed wt_candles wt_max
  by unfold_locales (simp_all add: push_closed_def)

section \<open>A stream of ticks\<close>

record stream_tick =
  sk_now :: pyfloat
  sk_wall :: pyfloat
  sk_levels :: "pyfloat list"
  sk_price :: pyfloat
  sk_time :: pyfloat

text \<open>\<open>run\<close> on parsed ticks: the reports it emits, until an exception escapes.\<close>

fun watch_stream :: "stream_tick list \<Rightarrow> watcher \<Rightarrow> watcher \<times> watch_report list result" where
  "watch_stream [] w = (w, Ok [])"
| "watch_stream (k # ks) w =
     (case watch_price (sk_now k) (sk_wall k) (sk_levels k) (sk_price k) (sk_time k) w of
        (w1, Inl e) \<Rightarrow> (w1, Raise e)
      | (w1, Inr r) \<Rightarrow>
          (case watch_stream ks w1 of
             (w2, Inl e) \<Rightarrow> (w2, Raise e)
           | (w2, Inr rs) \<Rightarrow> (w2, Ok ((case r of None \<Rightarrow> rs | Some x \<Rightarrow> x # rs)))))"

section \<open>Lemmas\<close>

definition same_window :: "watcher \<Rightarrow> watcher \<Rightarrow> bool" where
  "same_window w w' \<longleftrightarrow> wt_candles w' = wt_candles w \<and> wt_agg w' = wt_agg w \<and> wt_max w' = wt_max w"

lemma analyze_candles_frame:
  "analyze_candles ph lat pv levels cs c w = (w', r) \<Longrightarrow>
     same_window w w' \<and> wt_sig w' = wt_sig w \<and> (case r of Inl e \<Rightarrow> True | Inr x \<Rightarrow> wr_phase x = ph)"
  by (auto simp: analyze_candles_def same_window_def Let_def split: sum.splits prod.splits)

lemma analyze_rt_frame:
  "analyze_rt ts levels w = (w', r) \<Longrightarrow>
     same_window w w' \<and> wt_sig w' = wt_sig w \<and> (case r of Inr (Some x) \<Rightarrow> wr_phase x = RealTime | _ \<Rightarrow> True)"
  by (auto simp: analyze_rt_def same_window_def dest!: analyze_candles_frame
      split: if_splits sum.splits option.splits prod.splits)

lemma rt_report_frame:
  assumes "rt_report now ts levels w = (w', r)"
  shows "same_window w w' \<and>
    (case r of Inl e \<Rightarrow> True
     | Inr None \<Rightarrow> wt_sig w' = wt_sig w
     | Inr (Some x) \<Rightarrow> wr_phase x = RealTime \<and> Some (signature x) \<noteq> wt_sig w \<and> wt_sig w' = Some (signature x))"
  using assms
  by (auto simp: rt_report_def same_window_def dest!: analyze_rt_frame
      split: if_splits sum.splits option.splits prod.splits)

lemma watch_price_cases:
  assumes "watch_price now wall levels price ts w = (w', Ok r)"
  obtains (ignored) "\<not> finite_positive price" "w' = w" "r = None"
  | (quiet) a where "finite_positive price" "feed (wt_agg w) price ts = Ok (None, a)" "wt_agg w' = a"
      "wt_candles w' = wt_candles w" "wt_max w' = wt_max w" "r = None" "wt_sig w' = wt_sig w"
  | (struck) a x where "finite_positive price" "feed (wt_agg w) price ts = Ok (None, a)" "wt_agg w' = a"
      "wt_candles w' = wt_candles w" "wt_max w' = wt_max w" "r = Some x" "wr_phase x = RealTime"
      "Some (signature x) \<noteq> wt_sig w" "wt_sig w' = Some (signature x)"
  | (closed) a c x where "finite_positive price" "feed (wt_agg w) price ts = Ok (Some c, a)" "wt_agg w' = a"
      "wt_candles w' = lastn (wt_max w) (wt_candles w @ [c])" "wt_max w' = wt_max w" "r = Some x"
      "wr_phase x = AtClose" "wt_sig w' = None"
proof (cases "finite_positive price")
  case False
  then show thesis using assms by (intro ignored) (simp_all add: watch_price_def)
next
  case True
  obtain cl a where f: "feed (wt_agg w) price ts = Ok (cl, a)"
    using assms True by (cases "feed (wt_agg w) price ts") (auto simp: watch_price_def)
  show thesis
  proof (cases cl)
    case None
    then have "rt_report now ts levels (w\<lparr>wt_agg := a\<rparr>) = (w', Ok r)"
      using assms True f by (simp add: watch_price_def)
    from rt_report_frame [OF this] show thesis
      using quiet [OF True] struck [OF True] f None by (cases r) (simp_all add: same_window_def)
  next
    case (Some c)
    obtain w1 r1 where ac: "analyze_closed wall levels (push_closed c (w\<lparr>wt_agg := a\<rparr>)) = (w1, r1)" by fastforce
    then obtain x where x: "r1 = Ok x" "w' = w1\<lparr>wt_sig := None\<rparr>" "r = Some x"
      using assms True f Some by (cases r1) (simp_all add: watch_price_def)
    from analyze_candles_frame [OF ac [unfolded analyze_closed_def]] x True f Some show thesis
      by (intro closed [of c a x]) (auto simp: same_window_def push_closed_def)
  qed
qed

fun no_repeat :: "(string list \<times> regime \<times> phase \<times> bool) option \<Rightarrow> watch_report list \<Rightarrow> bool" where
  "no_repeat sg [] = True"
| "no_repeat sg (r # rs) =
     (if wr_phase r = RealTime then Some (signature r) \<noteq> sg \<and> no_repeat (Some (signature r)) rs
      else no_repeat None rs)"

definition priced :: "stream_tick list \<Rightarrow> (pyfloat \<times> pyfloat) list" where
  "priced ks = map (\<lambda>k. (sk_price k, sk_time k)) (filter (\<lambda>k. finite_positive (sk_price k)) ks)"

lemma watch_stream_cases:
  assumes "watch_stream (k # ks) w = (w', Ok rs)"
  obtains w1 r rs1 where
    "watch_price (sk_now k) (sk_wall k) (sk_levels k) (sk_price k) (sk_time k) w = (w1, Ok r)"
    "watch_stream ks w1 = (w', Ok rs1)" "rs = (case r of None \<Rightarrow> rs1 | Some x \<Rightarrow> x # rs1)"
  using assms by (auto split: prod.splits sum.splits)

lemma stream_no_repeat: "watch_stream ks w = (w', Ok rs) \<Longrightarrow> no_repeat (wt_sig w) rs"
proof (induction ks arbitrary: w rs)
  case (Cons k ks)
  from Cons.prems show ?case
  proof (cases rule: watch_stream_cases)
    case (1 w1 r rs1)
    have "no_repeat (wt_sig w1) rs1" using Cons.IH 1(2) .
    then show ?thesis using 1(3) by (cases rule: watch_price_cases [OF 1(1)]) auto
  qed
qed simp

lemma stream_window:
  assumes "watch_stream ks w = (w', Ok rs)" "length (wt_candles w) \<le> wt_max w"
  shows "\<exists>cs a. feed_all (wt_agg w) (priced ks) = Ok (cs, a) \<and> wt_agg w' = a \<and>
    wt_candles w' = lastn (wt_max w) (wt_candles w @ cs) \<and>
    length (filter (\<lambda>r. wr_phase r = AtClose) rs) = length cs"
  using assms
proof (induction ks arbitrary: w rs)
  case Nil
  then show ?case by (simp add: priced_def lastn_all)
next
  case (Cons k ks)
  obtain w1 r rs1 where s:
    "watch_price (sk_now k) (sk_wall k) (sk_levels k) (sk_price k) (sk_time k) w = (w1, Ok r)"
    "watch_stream ks w1 = (w', Ok rs1)" "rs = (case r of None \<Rightarrow> rs1 | Some x \<Rightarrow> x # rs1)"
    using Cons.prems(1) by (rule watch_stream_cases)
  have len: "length (wt_candles w1) \<le> wt_max w1"
    using Cons.prems(2) by (cases rule: watch_price_cases [OF s(1)]) simp_all
  obtain cs a where ih: "feed_all (wt_agg w1) (priced ks) = Ok (cs, a)" "wt_agg w' = a"
    "wt_candles w' = lastn (wt_max w1) (wt_candles w1 @ cs)"
    "length (filter (\<lambda>r. wr_phase r = AtClose) rs1) = length cs"
    using Cons.IH [OF s(2) len] by blast
  show ?case
    by (cases rule: watch_price_cases [OF s(1)])
      (use ih s(3) in \<open>auto simp: priced_def lastn_lastn_append\<close>)
qed

section \<open>Properties\<close>

definition sample_watcher :: watcher where
  "sample_watcher = new_watcher ''A'' (Fin 300) None 400 sample_engine 0"

definition sample_stream :: "stream_tick list" where
  "sample_stream =
     [\<lparr>sk_now = Fin 1, sk_wall = Fin 1, sk_levels = [], sk_price = Fin 10, sk_time = 0\<rparr>,
      \<lparr>sk_now = Fin 2, sk_wall = Fin 301, sk_levels = [], sk_price = Fin 11, sk_time = Fin 300\<rparr>]"

lemma sample_stream_run:
  "case watch_stream sample_stream sample_watcher of
     (w', Inl _) \<Rightarrow> False | (w', Inr rs) \<Rightarrow> length (wt_candles w') = 1"
  by code_simp

text \<open>
  C39: On any stream of ticks that it survives, the watcher's window is the newest \<open>max\<close> of the
  candles which the aggregator alone closes on the same ticks, and it emits exactly one closing
  report for each of them, whatever the real-time path does in between.
\<close>

theorem watcher_refines_aggregator:
  assumes "watch_stream ks (new_watcher asset tf p m e interval) = (w', Ok rs)"
  shows "case feed_all (new_aggregator tf) (priced ks) of
      Inl _ \<Rightarrow> False
    | Inr (cs, a) \<Rightarrow> wt_candles w' = lastn m cs \<and> wt_agg w' = a \<and>
        length (filter (\<lambda>r. wr_phase r = AtClose) rs) = length cs"
  using stream_window [OF assms] by (auto simp: new_watcher_def)

theorem watcher_refines_aggregator_witness:
  "case watch_stream sample_stream sample_watcher of
     (w', Inl _) \<Rightarrow> False
   | (w', Inr rs) \<Rightarrow> length (wt_candles w') = 1 \<and> length (filter (\<lambda>r. wr_phase r = AtClose) rs) = 1"
proof -
  obtain w' rs where w: "watch_stream sample_stream sample_watcher = (w', Ok rs)"
    and n: "length (wt_candles w') = 1"
    using sample_stream_run by (auto split: prod.splits sum.splits)
  have "priced sample_stream = [(Fin 10, 0), (Fin 11, Fin 300)]"
    by (simp add: priced_def sample_stream_def finite_positive_def feq_def)
  moreover have "case feed_all (new_aggregator (Fin 300)) [(Fin 10, 0), (Fin 11, Fin 300)] of
      Inl _ \<Rightarrow> False | Inr (cs, a) \<Rightarrow> length cs = 1" by code_simp
  ultimately have "length (filter (\<lambda>r. wr_phase r = AtClose) rs) = 1"
    using watcher_refines_aggregator [OF w [unfolded sample_watcher_def]] by (auto split: sum.splits prod.splits)
  then show ?thesis using n unfolding w by simp
qed

text \<open>
  The real-time path never repeats itself: between two closes, two consecutive real-time
  reports differ in the set of theses, the regime, the phase or the integrity.
\<close>

theorem realtime_reports_differ:
  assumes "watch_stream ks w = (w', Ok rs)"
  shows "no_repeat (wt_sig w) rs"
  by (rule stream_no_repeat [OF assms])

theorem realtime_reports_differ_witness:
  "case watch_stream sample_stream sample_watcher of
     (w', Inl _) \<Rightarrow> False | (w', Inr rs) \<Rightarrow> no_repeat None rs"
proof -
  obtain w' rs where w: "watch_stream sample_stream sample_watcher = (w', Ok rs)"
    using sample_stream_run by (auto split: prod.splits sum.splits)
  have "wt_sig sample_watcher = None" by (simp add: sample_watcher_def new_watcher_def)
  with realtime_reports_differ [OF w] show ?thesis unfolding w by simp
qed

end
