(* ===== verification/Evolution.thy ===== *)
theory Evolution
  imports Prelude PyFloat "HOL-Library.Sublist"
begin

text \<open>
  The evolution agent of \<open>evolution/evolution/code_agent.py\<close>: the classification of log lines,
  the log scan, patch staging and application, and the proposals for a fix. Files are a map
  from workspace paths to contents; SHA-256, the parsing of log timestamps and the validation of
  a patch (compiling and running tests in subprocesses) are parameters. Text is ASCII.
\<close>

section \<open>Text\<close>

fun contains :: "string \<Rightarrow> string \<Rightarrow> bool" where
  "contains p [] = (p = [])"
| "contains p (c # cs) = (prefix p (c # cs) \<or> contains p cs)"

definition ascii_lower :: "char \<Rightarrow> char" where
  "ascii_lower c = (if 65 \<le> (of_char c :: nat) \<and> (of_char c :: nat) \<le> 90 then char_of ((of_char c :: nat) + 32) else c)"

definition in_range :: "char \<Rightarrow> char \<Rightarrow> char \<Rightarrow> bool" where
  "in_range a b c \<longleftrightarrow> (of_char a :: nat) \<le> of_char c \<and> (of_char c :: nat) \<le> of_char b"

definition is_letter :: "char \<Rightarrow> bool" where
  "is_letter c \<longleftrightarrow> in_range CHR ''a'' CHR ''z'' c \<or> in_range CHR ''A'' CHR ''Z'' c"

definition is_digit :: "char \<Rightarrow> bool" where
  "is_digit c \<longleftrightarrow> in_range CHR ''0'' CHR ''9'' c"

definition is_space :: "char \<Rightarrow> bool" where
  "is_space c \<longleftrightarrow> c = CHR '' '' \<or> (9 \<le> (of_char c :: nat) \<and> (of_char c :: nat) \<le> 13)"

definition strip :: "string \<Rightarrow> string" where
  "strip s = rev (dropWhile is_space (rev (dropWhile is_space s)))"

definition newline :: char where "newline = char_of (10 :: nat)"

text \<open>\<open>split('\n')\<close>: the pieces between newlines, at least one.\<close>

fun split_lines :: "string \<Rightarrow> string list" where
  "split_lines [] = [[]]"
| "split_lines (c # cs) =
     (if c = newline then [] # split_lines cs
      else case split_lines cs of [] \<Rightarrow> [[c]] | l # ls \<Rightarrow> (c # l) # ls)"

text \<open>\<open>replace(old, new, 1)\<close>.\<close>

fun replace_first :: "string \<Rightarrow> string \<Rightarrow> string \<Rightarrow> string" where
  "replace_first old new [] = (if old = [] then new else [])"
| "replace_first old new (c # cs) =
     (if prefix old (c # cs) then new @ drop (length old) (c # cs) else c # replace_first old new cs)"

fun digits_of :: "nat \<Rightarrow> string" where
  "digits_of n = (if n < 10 then [char_of (48 + n)] else digits_of (n div 10) @ [char_of (48 + n mod 10)])"

declare digits_of.simps [simp del]

definition number_of :: "string \<Rightarrow> nat" where
  "number_of s = fold (\<lambda>c n. 10 * n + (of_char c - 48)) s 0"

section \<open>Patterns\<close>

text \<open>\<open>ERROR_PATTERNS\<close>: alternatives, whether case is ignored, and the label, in order.\<close>

definition error_patterns :: "(string list \<times> bool \<times> string) list" where
  "error_patterns =
     [([''Traceback (most recent call last)''], False, ''python_traceback''),
      ([''SyntaxError'', ''TypeError'', ''AttributeError'', ''ValueError'', ''KeyError'', ''ImportError'',
        ''NameError'', ''RuntimeError'', ''PermissionError'', ''TimeoutError'', ''ConnectionRefusedError'',
        ''ConnectionResetError'', ''FileNotFoundError'', ''ZeroDivisionError''], False, ''python_exception''),
      ([''failed'', ''error'', ''panic'', ''critical'', ''fatal''], True, ''generic_error''),
      ([''MalformedEnvelope'', ''MalformedFrame'', ''oversized_frame'', ''version_mismatch''], False,
        ''ipc_protocol_error''),
      ([''MaxDrawdown'', ''EmergencyHalt'', ''liquidation''], False, ''risk_violation''),
      ([''bind'', ''address already in use'', ''EADDRINUSE''], False, ''port_conflict'')]"

definition self_markers :: "string list" where
  "self_markers = [''Log Scan:'', ''[generic_error]'', ''[SKIP]'', ''Healing history:'', ''Cannot infer target file from:'']"

definition pattern_hits :: "string \<Rightarrow> string list \<times> bool \<times> string \<Rightarrow> bool" where
  "pattern_hits line = (\<lambda>(alts, ignore_case, _).
     list_ex (\<lambda>a. contains a (if ignore_case then map ascii_lower line else line)) alts)"

text \<open>The label of the first pattern that matches.\<close>

definition label_of :: "string \<Rightarrow> string option" where
  "label_of line = map_option (\<lambda>(_, _, l). l) (find (pattern_hits line) error_patterns)"

section \<open>The log scan\<close>

record log_file =
  lf_name :: string
  lf_mtime :: pyfloat
  lf_content :: string

record log_error =
  le_file :: string
  le_pattern :: string
  le_line :: string
  le_time :: pyfloat

definition scan_line :: "(string \<Rightarrow> pyfloat option) \<Rightarrow> pyfloat \<Rightarrow> log_file \<Rightarrow> string \<Rightarrow> log_error list" where
  "scan_line line_time cutoff f line =
     (if (case line_time line of None \<Rightarrow> False | Some t \<Rightarrow> t < cutoff) then []
      else if list_ex (\<lambda>m. contains m line) self_markers then []
      else case label_of line of
          None \<Rightarrow> []
        | Some l \<Rightarrow> [\<lparr>le_file = lf_name f, le_pattern = l, le_line = take 200 (strip line), le_time = lf_mtime f\<rparr>])"

definition scan_file :: "(string \<Rightarrow> pyfloat option) \<Rightarrow> pyfloat \<Rightarrow> log_file \<Rightarrow> log_error list" where
  "scan_file line_time cutoff f =
     (if suffix ''.rotated.log'' (lf_name f) \<or> lf_mtime f < cutoff then []
      else concat (map (scan_line line_time cutoff f)
             (lastn 1000 (if lf_content f = [] then [] else split_lines (strip (lf_content f))))))"

definition scan_logs :: "(string \<Rightarrow> pyfloat option) \<Rightarrow> pyfloat \<Rightarrow> pyfloat \<Rightarrow> log_file list \<Rightarrow> log_error list" where
  "scan_logs line_time now since files = concat (map (scan_file line_time (now - since)) files)"

section \<open>Patches\<close>

record workspace =
  ws_files :: "string \<Rightarrow> string option"
  ws_healing :: "(string \<times> string \<times> string) list"

definition log_healing :: "string \<Rightarrow> string \<Rightarrow> string \<Rightarrow> workspace \<Rightarrow> workspace" where
  "log_healing file action detail w = w\<lparr>ws_healing := ws_healing w @ [(file, action, detail)]\<rparr>"

definition write_file :: "string \<Rightarrow> string \<Rightarrow> workspace \<Rightarrow> workspace" where
  "write_file path content w = w\<lparr>ws_files := (ws_files w)(path \<mapsto> content)\<rparr>"

definition patch_path :: "string \<Rightarrow> string" where
  "patch_path i = ''evolution/patches/patch_'' @ i @ ''.diff''"

definition backup_path :: "(string \<Rightarrow> string) \<Rightarrow> string \<Rightarrow> string" where
  "backup_path sha file = ''evolution/patches/backup_'' @ take 8 (sha file) @ ''.bak''"

definition stage_patch ::
    "(string \<Rightarrow> string) \<Rightarrow> string \<Rightarrow> string \<Rightarrow> string \<Rightarrow> workspace \<Rightarrow> string \<times> workspace" where
  "stage_patch sha file content reason w =
     (let i = take 12 (sha content);
          metadata = ''# REASON: '' @ reason @ [newline] @ ''# TARGET: '' @ file @ [newline, newline]
      in (i, write_file (patch_path i) (metadata @ content) w))"

text \<open>
  \<open>_run_validation\<close>: the exit code of the compiler, then those of the matching test files;
  \<open>None\<close> is a subprocess that raised, such as a timeout.
\<close>

fun all_pass :: "int option list \<Rightarrow> bool" where
  "all_pass [] = True"
| "all_pass (r # rs) = (if r = Some 0 then all_pass rs else False)"

definition run_validation ::
    "(string \<Rightarrow> workspace \<Rightarrow> int option) \<Rightarrow> (string \<Rightarrow> workspace \<Rightarrow> int option list) \<Rightarrow> string \<Rightarrow> workspace \<Rightarrow> bool" where
  "run_validation compile tests file w =
     (case compile file w of
        None \<Rightarrow> False
      | Some r \<Rightarrow> if r \<noteq> 0 then False else all_pass (tests file w))"

text \<open>
  \<open>apply_patch\<close>: the validation sees the patched workspace; what it raises is caught inside
  it. The detail of a rollback after an exception of the write itself is not modelled: writes
  succeed.
\<close>

definition apply_patch ::
    "(string \<Rightarrow> string) \<Rightarrow> (string \<Rightarrow> workspace \<Rightarrow> bool) \<Rightarrow> string \<Rightarrow> string \<Rightarrow> bool \<Rightarrow> workspace \<Rightarrow> bool \<times> workspace" where
  "apply_patch sha validate file content run_tests w =
     (case ws_files w file of
        None \<Rightarrow> (False, log_healing file ''SKIP'' ''File not found'' w)
      | Some original \<Rightarrow>
          (let w1 = write_file file content (write_file (backup_path sha file) original w)
           in if run_tests \<and> \<not> validate file w1
              then (False, log_healing file ''ROLLBACK'' ''Tests failed after patch'' (write_file file original w1))
              else (True, log_healing file ''APPLIED'' ''Patch applied successfully'' w1)))"

section \<open>Proposing a fix\<close>

text \<open>The first \<open>[a-zA-Z_][a-zA-Z0-9_/]*.py\<close> of a line.\<close>

definition path_char :: "char \<Rightarrow> bool" where
  "path_char c \<longleftrightarrow> is_letter c \<or> is_digit c \<or> c = CHR ''_'' \<or> c = CHR ''/''"

fun find_py :: "string \<Rightarrow> string option" where
  "find_py [] = None"
| "find_py (c # cs) =
     (if (is_letter c \<or> c = CHR ''_'') \<and> prefix ''.py'' (dropWhile path_char (c # cs))
      then Some (takeWhile path_char (c # cs) @ ''.py'') else find_py cs)"

text \<open>\<open>open'([^']+)'close\<close>: the first non-empty quoted text between the two.\<close>

definition quote :: char where "quote = char_of (39 :: nat)"

fun find_quoted :: "string \<Rightarrow> string \<Rightarrow> string \<Rightarrow> string option" where
  "find_quoted pre post [] = None"
| "find_quoted pre post (c # cs) =
     (let body = takeWhile (\<lambda>x. x \<noteq> quote) (drop (length pre + 1) (c # cs))
      in if prefix (pre @ [quote]) (c # cs) \<and> body \<noteq> [] \<and>
            prefix ([quote] @ post) (drop (length pre + 1 + length body) (c # cs))
         then Some body else find_quoted pre post cs)"

text \<open>\<open>\d{4,5}\<close>.\<close>

fun find_port :: "string \<Rightarrow> string option" where
  "find_port [] = None"
| "find_port (c # cs) =
     (if 4 \<le> length (takeWhile is_digit (c # cs)) then Some (take 5 (takeWhile is_digit (c # cs)))
      else find_port cs)"

definition retry_wrapper :: string where
  "retry_wrapper = ''for attempt in range(3):'' @ [newline] @ ''    try:'' @ [newline] @ ''        main()'' @ [newline] @
     ''        break'' @ [newline] @ ''    except Exception:'' @ [newline] @ ''        import time; time.sleep(2)'' @ [newline]"

definition fixed_content :: "string \<Rightarrow> string \<Rightarrow> string \<Rightarrow> string" where
  "fixed_content pattern line content =
     (if pattern = ''ImportError'' \<or> contains ''ImportError'' line
      then case find_quoted ''No module named '' [] line of
          None \<Rightarrow> content | Some m \<Rightarrow> ''import '' @ m @ [newline] @ content
      else if pattern = ''NameError''
      then case find_quoted ''name '' '' is not defined'' line of
          None \<Rightarrow> content | Some v \<Rightarrow> v @ '' = None  # auto-init'' @ [newline] @ content
      else if pattern = ''port_conflict''
      then case find_port line of
          None \<Rightarrow> content
        | Some p \<Rightarrow>
            (let old = CHR '':'' # digits_of (number_of p); new = CHR '':'' # digits_of (number_of p + 1)
             in if contains old content then replace_first old new content else content)
      else if \<not> contains ''try:'' (take 200 content) \<and> contains ''def main'' content
      then replace_first ''main()'' retry_wrapper content
      else content)"

definition propose_fix ::
    "(string \<Rightarrow> string) \<Rightarrow> log_error \<Rightarrow> string option \<Rightarrow> workspace \<Rightarrow> string option \<times> workspace" where
  "propose_fix sha err file_to_fix w =
     (let pattern = le_pattern err; line = le_line err in
      if pattern = ''risk_violation''
      then (None, log_healing ''unknown'' ''SKIP''
              (''Risk violation -- requires human quorum: '' @ take 80 line) w)
      else case (case file_to_fix of None \<Rightarrow> find_py line | Some [] \<Rightarrow> find_py line | Some f \<Rightarrow> Some f) of
          None \<Rightarrow> (None, log_healing ''unknown'' ''SKIP'' (''Cannot infer target file from: '' @ take 80 line) w)
        | Some target \<Rightarrow>
            (case ws_files w target of
               None \<Rightarrow> (None, log_healing target ''SKIP'' ''Target file not found'' w)
             | Some original \<Rightarrow>
                 (let content = fixed_content pattern line original in
                  if content \<noteq> original
                  then let (i, w') = stage_patch sha target content (''Auto-fix for '' @ pattern @ '': '' @ take 80 line) w
                       in (Some i, w')
                  else (None, log_healing target ''SKIP'' (''No auto-fix pattern matched for '' @ pattern) w))))"

section \<open>The theorem prover\<close>

text \<open>
  \<open>run_formal_verification\<close> of \<open>evolution/evolution/ci_prover.py\<close>: the exit code of
  \<open>cargo kani\<close>, \<open>None\<close> when the program is not installed.
\<close>

definition run_formal_verification :: "int option \<Rightarrow> bool" where
  "run_formal_verification outcome = (case outcome of None \<Rightarrow> True | Some rc \<Rightarrow> rc = 0)"

section \<open>Patches are applied whole or not at all\<close>

lemma all_pass_iff: "all_pass rs \<longleftrightarrow> list_all (\<lambda>r. r = Some 0) rs"
  by (induction rs) auto

text \<open>
  After \<open>apply_patch\<close> the target holds the patch when the call answers True, and what it held
  before when it answers False; True with tests requested means the compiler and every matching
  test exited with 0 on the patched workspace; no other file but the backup changes, and exactly
  one line is added to the healing log.
\<close>

theorem patch_all_or_nothing:
  "(case apply_patch sha (run_validation compile tests) file content run_tests w of (ok, w') \<Rightarrow>
      (if ok then ws_files w' file = Some content \<and> ws_files w file \<noteq> None \<and>
                  (if run_tests
                   then (\<exists>w1. ws_files w1 = ws_files w' \<and> compile file w1 = Some 0 \<and>
                          list_all (\<lambda>r. r = Some 0) (tests file w1))
                   else True)
       else ws_files w' file = ws_files w file) \<and>
      ws_files w' = ((ws_files w)(backup_path sha file := ws_files w' (backup_path sha file)))(file := ws_files w' file) \<and>
      length (ws_healing w') = Suc (length (ws_healing w)))"
proof (cases "ws_files w file")
  case None
  then show ?thesis by (simp add: apply_patch_def log_healing_def fun_eq_iff)
next
  case (Some original)
  let ?w1 = "write_file file content (write_file (backup_path sha file) original w)"
  show ?thesis
  proof (cases "run_tests \<and> \<not> run_validation compile tests file ?w1")
    case True
    with Some show ?thesis
      by (simp add: apply_patch_def log_healing_def write_file_def fun_eq_iff)
  next
    case False
    then have "run_tests \<longrightarrow> compile file ?w1 = Some 0 \<and> list_all (\<lambda>r. r = Some 0) (tests file ?w1)"
      by (auto simp: run_validation_def all_pass_iff split: option.splits if_splits)
    with Some False show ?thesis
      by (auto simp: apply_patch_def log_healing_def write_file_def fun_eq_iff intro!: exI [of _ ?w1])
  qed
qed

section \<open>Proposals only stage\<close>

text \<open>
  \<open>propose_fix\<close> never touches a source file: it either stages exactly one patch file, the one
  whose id it returns, and logs nothing, or returns None, writes no file and logs one SKIP. An
  error labelled as a risk violation is always skipped.
\<close>

theorem proposals_only_stage:
  "(case propose_fix sha err f w of
      (Some i, w') \<Rightarrow> ws_healing w' = ws_healing w \<and> le_pattern err \<noteq> ''risk_violation'' \<and>
                       (\<exists>t. ws_files w' = (ws_files w)(patch_path i \<mapsto> t))
    | (None, w') \<Rightarrow> ws_files w' = ws_files w \<and>
                    (\<exists>p d. ws_healing w' = ws_healing w @ [(p, ''SKIP'', d)]))"
  by (auto simp: propose_fix_def Let_def log_healing_def stage_patch_def write_file_def
      split: option.splits list.splits prod.splits)

section \<open>What the scan reports\<close>

lemma contains_iff: "contains p s \<longleftrightarrow> (\<exists>a b. s = a @ p @ b)"
proof (induction s)
  case Nil then show ?case by simp
next
  case (Cons c cs)
  show ?case
  proof
    assume "contains p (c # cs)"
    then consider "prefix p (c # cs)" | "contains p cs" by auto
    then show "\<exists>a b. c # cs = a @ p @ b"
    proof cases
      case 1
      then obtain b where "c # cs = p @ b" by (auto elim: prefixE)
      then show ?thesis by (intro exI [of _ "[]"] exI [of _ b]) simp
    next
      case 2
      then obtain a b where "cs = a @ p @ b" using Cons.IH by auto
      then show ?thesis by (intro exI [of _ "c # a"] exI [of _ b]) simp
    qed
  next
    assume "\<exists>a b. c # cs = a @ p @ b"
    then obtain a b where ab: "c # cs = a @ p @ b" by blast
    show "contains p (c # cs)"
    proof (cases a)
      case Nil
      with ab have "prefix p (c # cs)" by (metis append_Nil prefixI)
      then show ?thesis by simp
    next
      case (Cons x xs) with ab Cons.IH show ?thesis by auto
    qed
  qed
qed

lemma contains_sublist: "contains p s \<Longrightarrow> contains p (a @ s @ b)"
  unfolding contains_iff by (metis append.assoc)

lemma strip_sublist: "\<exists>a b. s = a @ strip s @ b"
proof -
  let ?d = "dropWhile is_space s"
  have "s = takeWhile is_space s @ ?d" by simp
  moreover have "rev ?d = takeWhile is_space (rev ?d) @ dropWhile is_space (rev ?d)" by simp
  then have "?d = strip s @ rev (takeWhile is_space (rev ?d))"
    unfolding strip_def by (metis rev_append rev_rev_ident)
  ultimately show ?thesis by metis
qed

lemma contains_excerpt: "contains p (take n (strip s)) \<Longrightarrow> contains p s"
proof -
  assume c: "contains p (take n (strip s))"
  obtain a b where ab: "s = a @ strip s @ b" using strip_sublist by blast
  have "a @ strip s @ b = a @ take n (strip s) @ (drop n (strip s) @ b)" by simp
  then show ?thesis using contains_sublist [OF c, of a "drop n (strip s) @ b"] ab by metis
qed

lemma find_Some_in: "find P xs = Some x \<Longrightarrow> x \<in> set xs"
  by (auto simp: find_Some_iff in_set_conv_nth)

lemma label_cases:
  "label_of line = Some l \<Longrightarrow>
     l \<in> {''python_traceback'', ''python_exception'', ''generic_error'', ''ipc_protocol_error'', ''risk_violation'', ''port_conflict''}"
proof -
  assume "label_of line = Some l"
  then obtain p where "p \<in> set error_patterns" "snd (snd p) = l"
    using find_Some_in [of "pattern_hits line" error_patterns] by (auto simp: label_of_def)
  then show ?thesis unfolding error_patterns_def set_simps by (elim insertE) simp_all
qed

lemma scan_line_excerpt:
  assumes "e \<in> set (scan_line lt cutoff f line)"
  shows "list_all (\<lambda>m. \<not> contains m (le_line e)) self_markers \<and>
    le_pattern e \<in> {''python_traceback'', ''python_exception'', ''generic_error'', ''ipc_protocol_error'', ''risk_violation'', ''port_conflict''} \<and>
    le_time e = lf_mtime f \<and> length (le_line e) \<le> 200"
proof -
  have n: "\<not> list_ex (\<lambda>m. contains m line) self_markers"
    and l: "label_of line = Some (le_pattern e)" and t: "le_line e = take 200 (strip line)" "le_time e = lf_mtime f"
    using assms unfolding scan_line_def by (auto split: if_split_asm option.split_asm)
  have "list_all (\<lambda>m. \<not> contains m (le_line e)) self_markers"
    using n unfolding t(1) list_all_iff list_ex_iff by (blast dest: contains_excerpt)
  moreover have "le_time e = lf_mtime f \<and> length (le_line e) \<le> 200" unfolding t by simp
  ultimately show ?thesis using label_cases [OF l] by (intro conjI) simp_all
qed

text \<open>
  Every error the scan reports comes from a file modified since the cutoff, quotes at most 200
  characters, and carries no marker of the scan's own output, so a report written to a log is not
  reported again. Its label is one of the six of \<open>ERROR_PATTERNS\<close>; in particular it is neither
  \<open>ImportError\<close> nor \<open>NameError\<close>, the labels two branches of \<open>propose_fix\<close> wait for.
\<close>

theorem scan_not_self_feeding:
  "list_all (\<lambda>e. list_all (\<lambda>m. \<not> contains m (le_line e)) self_markers \<and> \<not> le_time e < now - since \<and>
       length (le_line e) \<le> 200 \<and> le_pattern e \<noteq> ''ImportError'' \<and> le_pattern e \<noteq> ''NameError'')
     (scan_logs lt now since files)"
proof -
  have "list_all (\<lambda>m. \<not> contains m (le_line e)) self_markers \<and> \<not> le_time e < now - since \<and>
      length (le_line e) \<le> 200 \<and> le_pattern e \<noteq> ''ImportError'' \<and> le_pattern e \<noteq> ''NameError''"
    if e: "e \<in> set (scan_logs lt now since files)" for e
  proof -
    obtain f where f: "e \<in> set (scan_file lt (now - since) f)" using e by (auto simp: scan_logs_def)
    then obtain line where "e \<in> set (scan_line lt (now - since) f line)" and m: "\<not> lf_mtime f < now - since"
      by (auto simp: scan_file_def split: if_splits)
    from scan_line_excerpt [OF this(1)] m show ?thesis by auto
  qed
  then show ?thesis by (simp add: list_all_iff)
qed

text \<open>
  The order of \<open>ERROR_PATTERNS\<close> takes the human quorum out of play: no line that has one of the
  words failed, error, panic, critical or fatal in it, in any case, is labelled a risk violation,
  whatever it says of a drawdown, a halt or a liquidation. For the line below the agent stages a
  patch of the trading code by itself.
\<close>

theorem error_word_hides_risk:
  "(if list_ex (\<lambda>a. contains a (map ascii_lower line)) [''failed'', ''error'', ''panic'', ''critical'', ''fatal'']
    then label_of line \<noteq> Some ''risk_violation'' else True) \<and>
   label_of ''MaxDrawdown hit in core/run.py'' = Some ''risk_violation'' \<and>
   label_of ''CRITICAL MaxDrawdown hit in core/run.py'' = Some ''generic_error'' \<and>
   fst (propose_fix (\<lambda>_. ''0123456789abcdef'')
     \<lparr>le_file = ''run.log'', le_pattern = ''generic_error'', le_line = ''CRITICAL MaxDrawdown hit in core/run.py'', le_time = 0\<rparr>
     None \<lparr>ws_files = [''core/run.py'' \<mapsto> ''def main(): pass''], ws_healing = []\<rparr>) = Some ''0123456789ab''"
proof (intro conjI)
  show "if list_ex (\<lambda>a. contains a (map ascii_lower line)) [''failed'', ''error'', ''panic'', ''critical'', ''fatal'']
    then label_of line \<noteq> Some ''risk_violation'' else True"
    by (auto simp: label_of_def error_patterns_def pattern_hits_def)
qed code_simp+

end
