(* ===== verification/Chronos.thy ===== *)
theory Chronos
  imports Prelude PyFloat
begin

text \<open>
  The synthetic price generator (\<open>simulation/simulation/synthetic_gen.py\<close>), the stress harness
  (\<open>simulation/simulation/chronic_stress.py\<close>) and the shadow sandbox
  (\<open>evolution/evolution/sandbox_runner.py\<close>). The random generator is a state \<open>'g\<close> with the two
  draws the code makes, \<open>choice\<close> over the regimes and \<open>gauss\<close> of a mean and a deviation; the policy
  under test is a function with a state of its own, which may raise.
\<close>

section \<open>Synthetic prices\<close>

datatype price_regime = NORMAL | FLASH_CRASH | HYPERINFLATION_LOOP | LIQUIDITY_EVAPORATION | SOVEREIGN_RESET | LEDGER_FORK

fun shock :: "price_regime \<Rightarrow> pyfloat" where
  "shock NORMAL = 1"
| "shock FLASH_CRASH = lit (-35/10)"
| "shock HYPERINFLATION_LOOP = lit (8/10)"
| "shock LIQUIDITY_EVAPORATION = lit (-12/10)"
| "shock SOVEREIGN_RESET = lit (4/10)"
| "shock LEDGER_FORK = lit (6/10)"

record 'g rng =
  rg_choice :: "'g \<Rightarrow> price_regime \<times> 'g"
  rg_gauss :: "pyfloat \<Rightarrow> pyfloat \<Rightarrow> 'g \<Rightarrow> pyfloat \<times> 'g"

definition next_price :: "'g rng \<Rightarrow> pyfloat \<Rightarrow> pyfloat \<Rightarrow> 'g \<Rightarrow> pyfloat \<times> 'g" where
  "next_price R volatility price g =
     (let (regime, g1) = rg_choice R g;
          (z, g2) = rg_gauss R 0 volatility g1;
          drift = z * shock regime
      in (py_max (price * (1 + drift)) (lit (1/10000)), g2))"

fun price_loop :: "'g rng \<Rightarrow> pyfloat \<Rightarrow> nat \<Rightarrow> pyfloat \<Rightarrow> 'g \<Rightarrow> (pyfloat list \<times> pyfloat list) \<times> 'g" where
  "price_loop R v 0 price g = (([], []), g)"
| "price_loop R v (Suc n) price g =
     (let (price', g') = next_price R v price g;
          ((ps, es), g'') = price_loop R v n price' g'
      in ((py_round 6 price' # ps, py_round 6 (py_max price' 0) # es), g''))"

definition generate_price_path :: "'g rng \<Rightarrow> pyfloat \<Rightarrow> int \<Rightarrow> pyfloat \<Rightarrow> 'g \<Rightarrow> (pyfloat list \<times> pyfloat list) \<times> 'g" where
  "generate_price_path R start_price points volatility g = price_loop R volatility (nat points) start_price g"

section \<open>The shadow sandbox\<close>

record shadow_config =
  sc_years :: int
  sc_confidence :: pyfloat
  sc_start_equity :: pyfloat
  sc_max_drawdown :: pyfloat
  sc_volatility :: pyfloat
  sc_points :: int

definition default_shadow_config :: shadow_config where
  "default_shadow_config =
     \<lparr>sc_years = 1, sc_confidence = lit (999/1000), sc_start_equity = Fin 1000000,
      sc_max_drawdown = lit (99/100), sc_volatility = lit (1/100), sc_points = 365\<rparr>"

record shadow_result =
  sr_passed :: bool
  sr_final_equity :: pyfloat
  sr_worst_drawdown :: pyfloat
  sr_elapsed :: pyfloat
  sr_years :: int
  sr_error :: "py_error option"

text \<open>Equity, its peak and the worst drawdown so far.\<close>

record ledger =
  lg_equity :: pyfloat
  lg_peak :: pyfloat
  lg_worst :: pyfloat

type_synonym 'p policy = "pyfloat \<Rightarrow> 'p \<Rightarrow> 'p result"

definition hold :: "'p policy" where "hold equity p = Ok p"

definition baseline_of :: "pyfloat list \<Rightarrow> pyfloat" where
  "baseline_of curve = (if hd curve \<le> 0 then 1 else hd curve)"

text \<open>The inner loop over one year's curve: True when the equity is exhausted.\<close>

fun replay :: "'p policy \<Rightarrow> pyfloat \<Rightarrow> pyfloat list \<Rightarrow> ledger \<Rightarrow> 'p \<Rightarrow> (bool \<times> ledger \<times> 'p) result" where
  "replay policy b [] s p = Ok (False, s, p)"
| "replay policy b (tick # ticks) s p =
     rbind (py_div tick b) (\<lambda>ratio.
       let equity = lg_equity s * ratio in
       if equity \<le> 0 then Ok (True, s\<lparr>lg_equity := 0\<rparr>, p)
       else let peak = py_max (lg_peak s) equity in
         rbind (py_div (peak - equity) peak) (\<lambda>drawdown.
           rbind (policy equity p) (\<lambda>p'.
             replay policy b ticks
               \<lparr>lg_equity = equity, lg_peak = peak, lg_worst = py_max (lg_worst s) drawdown\<rparr> p')))"

text \<open>The outer loop: the years that remain and the year they start from.\<close>

fun run_years ::
    "'g rng \<Rightarrow> shadow_config \<Rightarrow> 'p policy \<Rightarrow> nat \<Rightarrow> int \<Rightarrow> ledger \<Rightarrow> 'p \<Rightarrow> 'g
       \<Rightarrow> (pyfloat \<times> pyfloat \<times> int) result" where
  "run_years R cfg policy 0 year s p g = Ok (lg_equity s, lg_worst s, sc_years cfg)"
| "run_years R cfg policy (Suc n) year s p g =
     (let ((_, curve), g') = generate_price_path R (Fin 100) (sc_points cfg) (sc_volatility cfg) g in
      if curve = [] then run_years R cfg policy n (year + 1) s p g'
      else rbind (replay policy (baseline_of curve) curve s p) (\<lambda>(exhausted, s', p').
        if exhausted then Ok (lg_equity s', lg_worst s', year)
        else run_years R cfg policy n (year + 1) s' p' g'))"

definition run_simulation ::
    "'g rng \<Rightarrow> shadow_config \<Rightarrow> 'p policy \<Rightarrow> 'p \<Rightarrow> 'g \<Rightarrow> (pyfloat \<times> pyfloat \<times> int) result" where
  "run_simulation R cfg policy p g =
     run_years R cfg policy (nat (sc_years cfg)) 0
       \<lparr>lg_equity = sc_start_equity cfg, lg_peak = sc_start_equity cfg, lg_worst = 0\<rparr> p g"

text \<open>
  \<open>execute_shadow_simulation\<close>; no configuration means the default one, no policy means to
  hold. The elapsed time is read off the clock.
\<close>

definition execute_shadow ::
    "'g rng \<Rightarrow> shadow_config option \<Rightarrow> 'p policy option \<Rightarrow> 'p \<Rightarrow> pyfloat \<Rightarrow> 'g \<Rightarrow> shadow_result" where
  "execute_shadow R config candidate p elapsed g =
     (let cfg = (case config of None \<Rightarrow> default_shadow_config | Some c \<Rightarrow> c);
          policy = (case candidate of None \<Rightarrow> hold | Some f \<Rightarrow> f)
      in case run_simulation R cfg policy p g of
           Inl e \<Rightarrow> \<lparr>sr_passed = False, sr_final_equity = sc_start_equity cfg, sr_worst_drawdown = 0,
                     sr_elapsed = elapsed, sr_years = 0, sr_error = Some e\<rparr>
         | Inr (final, worst, years) \<Rightarrow>
             \<lparr>sr_passed = (0 < final \<and> worst \<le> sc_max_drawdown cfg), sr_final_equity = final,
              sr_worst_drawdown = worst, sr_elapsed = elapsed, sr_years = years, sr_error = None\<rparr>)"

section \<open>The stress harness\<close>

fun stress_year :: "'p policy \<Rightarrow> pyfloat \<Rightarrow> pyfloat list \<Rightarrow> ledger \<Rightarrow> 'p \<Rightarrow> (bool \<times> ledger \<times> 'p) result" where
  "stress_year policy b [] s p = Ok (False, s, p)"
| "stress_year policy b (tick # ticks) s p =
     rbind (py_div tick b) (\<lambda>ratio.
       let equity = lg_equity s * ratio; peak = py_max (lg_peak s) equity in
       rbind (py_div (peak - equity) peak) (\<lambda>dd.
         let s' = \<lparr>lg_equity = equity, lg_peak = peak, lg_worst = py_max (lg_worst s) dd\<rparr> in
         if equity \<le> 0 then Ok (True, s', p)
         else rbind (policy equity p) (\<lambda>p'. stress_year policy b ticks s' p')))"

fun stress_years :: "'g rng \<Rightarrow> 'p policy \<Rightarrow> nat \<Rightarrow> ledger \<Rightarrow> 'p \<Rightarrow> 'g \<Rightarrow> bool result" where
  "stress_years R policy 0 s p g = Ok True"
| "stress_years R policy (Suc n) s p g =
     (let ((_, curve), g') = generate_price_path R (Fin 100) 365 (lit (2/100)) g in
      rbind (stress_year policy (if hd curve = 0 then 1 else hd curve) curve s p) (\<lambda>(fatal, s', p').
        if fatal then Ok False else stress_years R policy n s' p' g'))"

definition chronos_run :: "'g rng \<Rightarrow> int \<Rightarrow> 'p policy option \<Rightarrow> 'p \<Rightarrow> 'g \<Rightarrow> bool result" where
  "chronos_run R years policy p g =
     stress_years R (case policy of None \<Rightarrow> hold | Some f \<Rightarrow> f) (nat years)
       \<lparr>lg_equity = Fin 1000000, lg_peak = Fin 1000000, lg_worst = 0\<rparr> p g"

section \<open>Curves\<close>

lemma lit_floor: "0 < lit (1/10000)" "isfinite (lit (1/10000))" "py_round 6 (lit (1/10000)) = lit (1/10000)"
  by code_simp+

lemma py_round_floor:
  assumes "\<not> x < lit (1/10000)"
  shows "\<not> py_round 6 x < lit (1/10000)"
proof (cases x)
  case (Fin q)
  obtain c where c: "lit (1/10000) = Fin c" using lit_floor(2) by (auto elim: finiteE)
  have "c \<le> q" using assms Fin unfolding c by simp
  then have "c * 10 ^ 6 \<le> q * 10 ^ 6" by simp
  then have "of_int (rne (c * 10 ^ 6)) \<le> (of_int (rne (q * 10 ^ 6)) :: rat)" using rne_mono by simp
  then have "of_int (rne (c * 10 ^ 6)) / 10 ^ 6 \<le> (of_int (rne (q * 10 ^ 6)) / 10 ^ 6 :: rat)"
    by (rule divide_right_mono) simp
  then have "to_f64 (of_int (rne (c * 10 ^ 6)) / 10 ^ 6) \<le> py_round 6 x"
    unfolding Fin py_round.simps by (rule to_f64_mono)
  then have "lit (1/10000) \<le> py_round 6 x" using lit_floor(3) unfolding c py_round.simps by simp
  then show ?thesis using float_less_asym by blast
qed (use assms in auto)

lemma next_price_floor: "\<not> fst (next_price R v p g) < lit (1/10000)"
  by (simp add: next_price_def py_max_def Let_def split: prod.splits)

lemma floor_not_negative: "\<not> x < lit (1/10000) \<Longrightarrow> py_max x 0 = x \<and> \<not> x \<le> 0"
proof -
  assume a: "\<not> x < lit (1/10000)"
  obtain c where c: "lit (1/10000) = Fin c" using lit_floor(2) by (auto elim: finiteE)
  then have "0 < c" using lit_floor(1) by simp
  with a show ?thesis unfolding c by (cases x) (auto simp: py_max_def zero_pyfloat_def)
qed

lemma price_loop_props:
  "price_loop R v n price g = ((ps, es), g') \<Longrightarrow>
     es = ps \<and> length ps = n \<and> list_all (\<lambda>p. \<not> p < lit (1/10000)) ps"
proof (induction n arbitrary: price g ps es g')
  case (Suc n)
  obtain price1 g1 where n: "next_price R v price g = (price1, g1)" by fastforce
  have f: "\<not> price1 < lit (1/10000)" using next_price_floor [of R v price g] n by simp
  with Suc.prems n show ?case
    by (auto simp: Let_def floor_not_negative py_round_floor split: prod.splits dest!: Suc.IH)
qed simp

lemma path_props:
  assumes "generate_price_path R start n v g = ((ps, es), g')"
  shows "es = ps" "length es = nat n" "list_all (\<lambda>p. \<not> p < lit (1/10000)) es"
  using price_loop_props [OF assms [unfolded generate_price_path_def]] by auto

text \<open>
  A generated path has as many points as asked for (none for a negative count), its equity
  curve is its price list, and no point is below 0.0001, whatever the random draws.
\<close>

theorem price_path_floor:
  "(case generate_price_path R start n v g of ((prices, curve), _) \<Rightarrow>
      curve = prices \<and> length prices = nat n \<and> list_all (\<lambda>p. \<not> p < lit (1/10000)) prices)"
  using path_props [of R start n v g] by (auto split: prod.splits)

section \<open>The policy has no say\<close>

lemma replay_hold: "replay policy b c s p = Ok (x, s', p') \<Longrightarrow> replay hold b c s q = Ok (x, s', q)"
proof (induction c arbitrary: s p)
  case (Cons t ts)
  from Cons.prems show ?case
    by (auto simp: rbind_def Let_def hold_def split: sum.splits if_splits dest: Cons.IH)
qed simp

lemma run_years_hold: "run_years R cfg policy n y s p g = Ok r \<Longrightarrow> run_years R cfg hold n y s q g = Ok r"
proof (induction n arbitrary: y s p g)
  case (Suc n)
  obtain ps c g' where path: "generate_price_path R (Fin 100) (sc_points cfg) (sc_volatility cfg) g = ((ps, c), g')"
    by (metis prod.collapse)
  show ?case
  proof (cases "c = []")
    case True
    with Suc path show ?thesis by simp
  next
    case False
    then obtain x s' p' where rep: "replay policy (baseline_of c) c s p = Ok (x, s', p')"
      using Suc.prems path by (auto simp: rbind_Inr_iff)
    show ?thesis
    proof (cases x)
      case True
      with Suc.prems path False rep replay_hold [OF rep, of q] show ?thesis by simp
    next
      case fin: False
      with Suc.prems path False rep have "run_years R cfg policy n (y + 1) s' p' g' = Ok r" by simp
      from Suc.IH [OF this] path False fin replay_hold [OF rep, of q] show ?thesis by simp
    qed
  qed
qed simp

text \<open>
  The sandbox's verdict does not depend on the policy under test. A run whose policy never
  raises ends with exactly the result of holding; a policy that raises makes the run fail. The
  sandbox measures the price generator, not the candidate.
\<close>

theorem verdict_ignores_policy:
  "(let r = execute_shadow R cfg (Some policy) p elapsed g in
      if sr_error r = None then r = execute_shadow R cfg None q elapsed g else \<not> sr_passed r)"
proof -
  let ?c = "case cfg of None \<Rightarrow> default_shadow_config | Some c \<Rightarrow> c"
  show ?thesis
  proof (cases "run_simulation R ?c policy p g")
    case (Inl e)
    then show ?thesis by (simp add: execute_shadow_def Let_def)
  next
    case (Inr r)
    then have "run_simulation R ?c hold q g = Ok r"
      unfolding run_simulation_def by (rule run_years_hold)
    with Inr show ?thesis by (cases r) (simp add: execute_shadow_def Let_def)
  qed
qed

section \<open>What a verdict means\<close>

lemma is_double_product: "is_double (x * y)"
  by (cases x; cases y) (auto simp: signed_inf_def)

text \<open>The drawdown of a step, against a peak that includes the new equity.\<close>

lemma drawdown_unit:
  assumes e: "\<not> e \<le> 0" "is_double e" and d: "is_double pk0" and pk: "pk = py_max pk0 e"
    and w: "0 \<le> w" "w \<le> 1"
  shows "0 \<le> py_max w ((pk - e) / pk) \<and> py_max w ((pk - e) / pk) \<le> 1"
proof (cases "isfinite e \<and> isfinite pk")
  case True
  then obtain x y where xy: "e = Fin x" "pk = Fin y" by (auto elim!: finiteE)
  have "x \<le> y" using pk unfolding xy by (cases pk0) (auto simp: py_max_def split: if_splits)
  moreover have "0 < x" using e xy by (simp add: zero_pyfloat_def)
  ultimately have le: "e \<le> pk" "0 < pk" by (simp_all add: xy)
  have dp: "is_double pk" using d e(2) unfolding pk by (simp add: py_max_def)
  have n: "0 \<le> pk - e" using diff_nonneg True le(1) by blast
  have m: "pk - e \<le> pk" using diff_le_self [OF _ _ dp, of e] True \<open>0 < x\<close> xy by simp
  have "isfinite (pk - e)" using n m xy(2) by (cases "pk - e") (auto simp: zero_pyfloat_def)
  from divide_unit [OF this _ n m le(2)] True have "0 \<le> (pk - e) / pk" "(pk - e) / pk \<le> 1" by auto
  then show ?thesis using w by (simp add: py_max_def)
next
  case False
  then have "(pk - e) / pk = NaN"
    using e pk by (cases e; cases pk0) (auto simp: py_max_def minus_pyfloat_def zero_pyfloat_def)
  then show ?thesis using w by (simp add: py_max_def)
qed

lemma replay_worst:
  "replay policy b c s p = Ok (x, s', p') \<Longrightarrow> is_double (lg_equity s) \<Longrightarrow> is_double (lg_peak s) \<Longrightarrow>
     0 \<le> lg_worst s \<Longrightarrow> lg_worst s \<le> 1 \<Longrightarrow>
     is_double (lg_equity s') \<and> is_double (lg_peak s') \<and> 0 \<le> lg_worst s' \<and> lg_worst s' \<le> 1"
proof (induction c arbitrary: s p)
  case (Cons t ts)
  from Cons.prems(1) obtain r where r: "py_div t b = Ok r" by (auto simp: rbind_Inr_iff)
  let ?e = "lg_equity s * r" let ?pk = "py_max (lg_peak s) ?e"
  show ?case
  proof (cases "?e \<le> 0")
    case True
    then show ?thesis using Cons.prems r by (auto simp: Let_def)
  next
    case False
    with Cons.prems(1) r obtain d p1 where d: "py_div (?pk - ?e) ?pk = Ok d" and
      rest: "replay policy b ts \<lparr>lg_equity = ?e, lg_peak = ?pk, lg_worst = py_max (lg_worst s) d\<rparr> p1 = Ok (x, s', p')"
      by (auto simp: rbind_Inr_iff Let_def)
    have dd: "d = (?pk - ?e) / ?pk" using d by (simp add: py_div_def split: if_splits)
    have "is_double ?pk" using Cons.prems(3) is_double_product by (simp add: py_max_def)
    with Cons.IH [OF rest] drawdown_unit [OF False is_double_product Cons.prems(3) refl Cons.prems(4,5)]
    show ?thesis by (simp add: dd is_double_product)
  qed
qed simp

lemma run_years_worst:
  "run_years R cfg policy n y s p g = Ok (e, w, ys) \<Longrightarrow> is_double (lg_equity s) \<Longrightarrow> is_double (lg_peak s) \<Longrightarrow>
     0 \<le> lg_worst s \<Longrightarrow> lg_worst s \<le> 1 \<Longrightarrow> 0 \<le> w \<and> w \<le> 1"
proof (induction n arbitrary: y s p g)
  case (Suc n)
  obtain ps c g' where path: "generate_price_path R (Fin 100) (sc_points cfg) (sc_volatility cfg) g = ((ps, c), g')"
    by (metis prod.collapse)
  show ?case
  proof (cases "c = []")
    case True
    with Suc path show ?thesis by simp
  next
    case False
    then obtain x s' p' where rep: "replay policy (baseline_of c) c s p = Ok (x, s', p')"
      using Suc.prems(1) path by (auto simp: rbind_Inr_iff)
    note w = replay_worst [OF rep Suc.prems(2-5)]
    show ?thesis
    proof (cases x)
      case True
      with Suc.prems(1) path False rep w show ?thesis by simp
    next
      case fin: False
      with Suc.prems(1) path False rep have "run_years R cfg policy n (y + 1) s' p' g' = Ok (e, w, ys)" by simp
      from Suc.IH [OF this] w show ?thesis by simp
    qed
  qed
qed simp

text \<open>
  From a start equity that is a double, every result of the sandbox has a worst drawdown
  between 0 and 1, so a drawdown limit of 1 or more never rejects; a run passes exactly when it
  ends without an error, with positive equity and its drawdown within the limit.
\<close>

theorem verdict_bounds:
  assumes "is_double (sc_start_equity cfg)"
  shows "let r = execute_shadow R (Some cfg) policy p elapsed g in
     0 \<le> sr_worst_drawdown r \<and> sr_worst_drawdown r \<le> 1 \<and>
     sr_passed r = (sr_error r = None \<and> 0 < sr_final_equity r \<and> sr_worst_drawdown r \<le> sc_max_drawdown cfg)"
proof (cases "run_simulation R cfg (case policy of None \<Rightarrow> hold | Some f \<Rightarrow> f) p g")
  case (Inl e)
  then show ?thesis by (simp add: execute_shadow_def Let_def zero_pyfloat_def one_pyfloat_def)
next
  case (Inr r)
  obtain e w y where r: "r = (e, w, y)" by (cases r)
  have "0 \<le> w \<and> w \<le> 1"
    using Inr assms unfolding run_simulation_def r by (elim run_years_worst) (simp_all add: zero_pyfloat_def one_pyfloat_def)
  with Inr r show ?thesis by (simp add: execute_shadow_def Let_def)
qed

definition flat_rng :: "unit rng" where
  "flat_rng = \<lparr>rg_choice = (\<lambda>g. (NORMAL, g)), rg_gauss = (\<lambda>_ _ g. (0, g))\<rparr>"

lemma verdict_bounds_witness:
  "let cfg = default_shadow_config\<lparr>sc_points := 3\<rparr>;
       r = execute_shadow flat_rng (Some cfg) (None :: unit policy option) () 0 () in
     0 \<le> sr_worst_drawdown r \<and> sr_worst_drawdown r \<le> 1 \<and> sr_passed r"
proof -
  let ?cfg = "default_shadow_config\<lparr>sc_points := 3\<rparr>"
  have d: "is_double (sc_start_equity ?cfg)" by code_simp
  have "sr_passed (execute_shadow flat_rng (Some ?cfg) (None :: unit policy option) () 0 ())" by code_simp
  with verdict_bounds [OF d, of flat_rng "None :: unit policy option" "()" 0 "()"]
  show ?thesis by (simp add: Let_def)
qed

section \<open>Levels compounded as if they were returns\<close>

lemma replay_equity:
  "replay policy b c s p = Ok (False, s', p') \<Longrightarrow> lg_equity s' = foldl (\<lambda>e t. e * (t / b)) (lg_equity s) c"
proof (induction c arbitrary: s p)
  case (Cons t ts)
  from Cons.prems show ?case
    by (auto simp: rbind_Inr_iff Let_def py_div_def split: if_splits dest: Cons.IH)
qed simp

text \<open>
  A year multiplies the equity by every price relative to the year's first price, not by the
  change since the previous one. A price that halves once and then stays is charged again at
  every point: the holder of the curve 100, 50, 50 is left with a quarter, not a half.
\<close>

theorem levels_compound:
  "(case replay policy b curve s p of
      Inr (False, s', _) \<Rightarrow> lg_equity s' = foldl (\<lambda>e t. e * (t / b)) (lg_equity s) curve
    | _ \<Rightarrow> True) \<and>
   (case replay hold (Fin 100) [Fin 100, Fin 50, Fin 50] \<lparr>lg_equity = Fin 1000, lg_peak = Fin 1000, lg_worst = 0\<rparr> () of
      Inr (False, s', _) \<Rightarrow> lg_equity s' = Fin 250 \<and> lg_peak s' = Fin 1000
    | _ \<Rightarrow> False)"
proof
  show "case replay policy b curve s p of
      Inr (False, s', _) \<Rightarrow> lg_equity s' = foldl (\<lambda>e t. e * (t / b)) (lg_equity s) curve
    | _ \<Rightarrow> True"
  proof (cases "replay policy b curve s p")
    case (Inr r)
    obtain ex s' p' where r: "r = (ex, s', p')" by (cases r)
    show ?thesis
    proof (cases ex)
      case False
      have "replay policy b curve s p = Ok (False, s', p')" using Inr r False by simp
      from replay_equity [OF this] show ?thesis unfolding Inr r by (simp add: False)
    qed (simp add: Inr r)
  qed simp
qed code_simp

section \<open>The harness and the sandbox\<close>

lemma py_max_pos: "0 < a \<Longrightarrow> 0 < py_max a b"
  using float_trans(4) [of 0 a b] by (auto simp: py_max_def)

lemma pos_nonzero: "0 < (a :: pyfloat) \<Longrightarrow> a \<noteq> 0"
  by auto

lemma stress_replay:
  "0 < lg_peak s \<Longrightarrow>
   (case replay policy b c s p of
      Inl e \<Rightarrow> stress_year policy b c s p = Inl e
    | Inr (True, s', p') \<Rightarrow> (\<exists>s''. stress_year policy b c s p = Ok (True, s'', p')) \<and> lg_equity s' = 0
    | Inr (False, s', p') \<Rightarrow> stress_year policy b c s p = Ok (False, s', p') \<and> 0 < lg_peak s' \<and>
        (\<not> lg_equity s \<le> 0 \<longrightarrow> \<not> lg_equity s' \<le> 0))"
proof (induction c arbitrary: s p)
  case (Cons t ts)
  show ?case
  proof (cases "py_div t b")
    case (Inr r)
    let ?e = "lg_equity s * r" let ?pk = "py_max (lg_peak s) ?e"
    have pk: "0 < ?pk" using py_max_pos [OF Cons.prems] .
    then have d: "py_div (?pk - ?e) ?pk = Ok ((?pk - ?e) / ?pk)" by (simp add: py_div_def pos_nonzero)
    show ?thesis
    proof (cases "?e \<le> 0")
      case True
      then show ?thesis by (simp add: Inr d Let_def)
    next
      case False
      show ?thesis
      proof (cases "policy ?e p")
        case pol: (Inr p')
        let ?s = "\<lparr>lg_equity = ?e, lg_peak = ?pk, lg_worst = py_max (lg_worst s) ((?pk - ?e) / ?pk)\<rparr>"
        have steps: "replay policy b (t # ts) s p = replay policy b ts ?s p'"
          "stress_year policy b (t # ts) s p = stress_year policy b ts ?s p'"
          using False by (simp_all add: Inr d Let_def pol)
        have "0 < lg_peak ?s" "\<not> lg_equity ?s \<le> 0" using pk False by simp_all
        with Cons.IH [of ?s p'] show ?thesis
          unfolding steps by (cases "replay policy b ts ?s p'") (auto split: bool.splits)
      qed (simp add: Inr d Let_def False)
    qed
  qed simp
qed simp

text \<open>The configuration under which the sandbox replays what the harness runs.\<close>

definition harness_config :: "int \<Rightarrow> shadow_config" where
  "harness_config years = default_shadow_config\<lparr>sc_years := years, sc_volatility := lit (2/100)\<rparr>"

lemma stress_run_years:
  assumes "0 < lg_peak s" "\<not> lg_equity s \<le> 0"
  shows "stress_years R policy n s p g =
    map_sum id (\<lambda>(e, _, _). \<not> e \<le> 0) (run_years R (harness_config years) policy n y s p g)"
  using assms
proof (induction n arbitrary: s p g y)
  case (Suc n)
  obtain ps c g' where path: "generate_price_path R (Fin 100) 365 (lit (2/100)) g = ((ps, c), g')"
    by (metis prod.collapse)
  note c = path_props [OF path]
  then obtain x xs where xc: "c = x # xs" by (cases c) auto
  with c(3) have x: "\<not> x \<le> 0" using floor_not_negative by simp
  have b: "baseline_of c = x" "(if hd c = 0 then 1 else hd c) = x"
    using x by (auto simp: baseline_of_def xc zero_pyfloat_def)
  have cfg: "sc_points (harness_config years) = 365" "sc_volatility (harness_config years) = lit (2/100)"
    by (simp_all add: harness_config_def default_shadow_config_def)
  have A: "stress_years R policy (Suc n) s p g = rbind (stress_year policy x c s p) (\<lambda>(fatal, s', p').
      if fatal then Ok False else stress_years R policy n s' p' g')"
    by (simp only: stress_years.simps path Let_def prod.case b(2))
  have B: "run_years R (harness_config years) policy (Suc n) y s p g =
      rbind (replay policy x c s p) (\<lambda>(exhausted, s', p').
        if exhausted then Ok (lg_equity s', lg_worst s', y)
        else run_years R (harness_config years) policy n (y + 1) s' p' g')"
    by (simp only: run_years.simps path cfg Let_def prod.case b(1)) (simp add: xc)
  note one = stress_replay [OF Suc.prems(1), of policy x c p]
  show ?case
  proof (cases "replay policy x c s p")
    case (Inl e)
    with one show ?thesis unfolding A B by simp
  next
    case (Inr r)
    obtain ex s' p' where r: "r = (ex, s', p')" by (cases r)
    show ?thesis
    proof (cases ex)
      case True
      with one Inr r show ?thesis unfolding A B by (auto simp: zero_pyfloat_def)
    next
      case False
      with one Inr r Suc.prems(2) have "stress_year policy x c s p = Ok (False, s', p')"
        and i: "0 < lg_peak s'" "\<not> lg_equity s' \<le> 0" by auto
      with False Inr r Suc.IH [OF i, where y = "y + 1" and g = g'] show ?thesis unfolding A B by simp
    qed
  qed
qed simp

text \<open>
  The stress harness and the sandbox agree: the harness survives exactly when the sandbox,
  configured with the harness's years, points and volatility, does not end with exhausted equity,
  and it raises exactly what the policy raises inside the sandbox.
\<close>

theorem harness_agrees:
  "chronos_run R years (Some policy) p g =
     map_sum id (\<lambda>(final, _, _). \<not> final \<le> 0) (run_simulation R (harness_config years) policy p g)"
  unfolding chronos_run_def run_simulation_def
  by (simp add: stress_run_years [where years = years and y = 0] zero_pyfloat_def harness_config_def default_shadow_config_def)

end
