(* ===== verification/LiveFeed.thy ===== *)
theory LiveFeed
  imports Candles CortexEngine "HOL-Library.While_Combinator"
begin

text \<open>
  The market-data adapter of \<open>adapters/adapters/live_feed.py\<close>: decoding of venue rows, one
  request, and the paged history. The venue is a function from requests to replies; the text of
  a float is read by a parameter. A request is kept as its fields instead of its URL.
\<close>

section \<open>Requests and replies\<close>

record kline_query =
  kq_symbol :: string
  kq_interval :: string
  kq_limit :: int
  kq_end :: "int option"

text \<open>A failed transport, or a body that is JSON or not.\<close>

datatype reply = Unreachable | Body "json option"

type_synonym kline_venue = "kline_query \<Rightarrow> reply"

definition http_json :: "kline_venue \<Rightarrow> kline_query \<Rightarrow> json result" where
  "http_json http q =
     (case http q of
        Unreachable \<Rightarrow> Raise LiveFeedError
      | Body None \<Rightarrow> Raise LiveFeedError
      | Body (Some v) \<Rightarrow> Ok v)"

definition INTERVAL_MAP :: "int \<Rightarrow> string option" where
  "INTERVAL_MAP =
     [60 \<mapsto> ''1m'', 300 \<mapsto> ''5m'', 900 \<mapsto> ''15m'', 3600 \<mapsto> ''1h'', 14400 \<mapsto> ''4h'', 86400 \<mapsto> ''1d'']"

definition TIMEFRAME_MS :: "int \<Rightarrow> int option" where
  "TIMEFRAME_MS k = (if INTERVAL_MAP k = None then None else Some (k * 1000))"

section \<open>Rows\<close>

definition to_float :: "(string \<Rightarrow> pyfloat option) \<Rightarrow> json \<Rightarrow> pyfloat result" where
  "to_float parse v =
     (case py_float parse v of
        Inl e \<Rightarrow> if e = TypeError \<or> e = ValueError then Raise LiveFeedError else Raise e
      | Inr f \<Rightarrow> if 0 < f \<and> feq f f then Ok f else Raise LiveFeedError)"

text \<open>\<open>row[i]\<close> for a natural number \<open>i\<close>.\<close>

definition row_item :: "json \<Rightarrow> nat \<Rightarrow> json result" where
  "row_item row i = (case row of
      JList xs \<Rightarrow> if i < length xs then Ok (xs ! i) else Raise IndexError
    | JStr s \<Rightarrow> if i < length s then Ok (JStr [s ! i]) else Raise IndexError
    | JObj _ \<Rightarrow> Raise KeyError
    | _ \<Rightarrow> Raise TypeError)"

definition seconds :: "(string \<Rightarrow> pyfloat option) \<Rightarrow> json \<Rightarrow> pyfloat result" where
  "seconds parse v = rbind (py_float parse v) (\<lambda>ms. Ok (ms / Fin 1000))"

definition parse_kline :: "(string \<Rightarrow> pyfloat option) \<Rightarrow> json \<Rightarrow> candle result" where
  "parse_kline parse row =
     rbind (traverse (row_item row) [0, 1, 2, 3, 4, 5, 6]) (\<lambda>r.
     rbind (to_float parse (r ! 1)) (\<lambda>op.
     rbind (to_float parse (r ! 2)) (\<lambda>high.
     rbind (to_float parse (r ! 3)) (\<lambda>low.
     rbind (to_float parse (r ! 4)) (\<lambda>cl.
     rbind (seconds parse (r ! 0)) (\<lambda>t_open.
     rbind (seconds parse (r ! 6)) (\<lambda>t_close.
     rbind (to_float parse (r ! 5)) (\<lambda>volume.
       Ok \<lparr>c_open = op, c_high = high, c_low = low, c_close = cl,
           c_t_open = t_open, c_t_close = t_close, c_volume = volume\<rparr>))))))))"

text \<open>\<open>rows.sort(key=lambda c: c.t_open)\<close>: stable; the keys are not NaN.\<close>

fun insert_row :: "candle \<Rightarrow> candle list \<Rightarrow> candle list" where
  "insert_row c [] = [c]"
| "insert_row c (d # ds) = (if c_t_open d < c_t_open c then d # insert_row c ds else c # d # ds)"

definition sort_rows :: "candle list \<Rightarrow> candle list" where
  "sort_rows rows = foldr insert_row rows []"

section \<open>One request\<close>

definition fetch_klines ::
    "(string \<Rightarrow> pyfloat option) \<Rightarrow> kline_venue \<Rightarrow> string \<Rightarrow> int \<Rightarrow> int \<Rightarrow> int option \<Rightarrow> candle list result" where
  "fetch_klines parse http symbol timeframe limit end_ms =
     (case INTERVAL_MAP timeframe of
        None \<Rightarrow> Raise LiveFeedError
      | Some interval \<Rightarrow>
          if \<not> (1 \<le> limit \<and> limit \<le> 1000) then Raise LiveFeedError
          else rbind (http_json http \<lparr>kq_symbol = symbol, kq_interval = interval, kq_limit = limit, kq_end = end_ms\<rparr>) (\<lambda>data.
            case data of
              JList rows \<Rightarrow> rbind (traverse (parse_kline parse) rows) (\<lambda>cs. Ok (sort_rows cs))
            | _ \<Rightarrow> Raise LiveFeedError))"

definition fetch_last_price :: "kline_venue \<Rightarrow> string \<Rightarrow> pyfloat result" where
  "fetch_last_price http symbol =
     rbind (http_json http \<lparr>kq_symbol = symbol, kq_interval = ''1m'', kq_limit = 1, kq_end = None\<rparr>) (\<lambda>data.
       case data of
         JList rows \<Rightarrow>
           if rows = [] then Raise LiveFeedError
           else rbind (row_item (last rows) 4) (\<lambda>cl.
             case cl of
               JInt i \<Rightarrow> if i \<le> 0 then Raise LiveFeedError else int_to_float i
             | JFloat x \<Rightarrow> if x \<le> 0 then Raise LiveFeedError else Ok x
             | JBool b \<Rightarrow> if b then Ok 1 else Raise LiveFeedError
             | _ \<Rightarrow> Raise LiveFeedError)
       | _ \<Rightarrow> Raise LiveFeedError)"

definition to_stream_tick :: "candle \<Rightarrow> pyfloat \<times> pyfloat" where
  "to_stream_tick c = (c_close c, c_t_close c)"

section \<open>The paged history\<close>

text \<open>The loop is fetching with a cursor and what it has so far, or it has returned or raised.\<close>

datatype history = Fetching int "candle list" | Done "candle list result"

fun history_turn ::
    "(int \<Rightarrow> candle list result) \<Rightarrow> int \<Rightarrow> int \<Rightarrow> history \<Rightarrow> history" where
  "history_turn fetch oldest interval (Fetching cursor out) =
     (if \<not> oldest < cursor then Done (Ok out)
      else case fetch cursor of
          Inl e \<Rightarrow> Done (Raise e)
        | Inr [] \<Rightarrow> Done (Ok out)
        | Inr (r # rows) \<Rightarrow>
            (case py_int (c_t_open r * Fin 1000) of
               Inl e \<Rightarrow> Done (Raise e)
             | Inr ms \<Rightarrow> Fetching (ms - interval) ((r # rows) @ out)))"
| "history_turn fetch oldest interval (Done r) = Done r"

fun fetching :: "history \<Rightarrow> bool" where
  "fetching (Fetching _ _) = True"
| "fetching (Done _) = False"

text \<open>\<open>None\<close> when the loop never ends. \<open>now_ms\<close> is the clock.\<close>

definition fetch_history ::
    "(string \<Rightarrow> pyfloat option) \<Rightarrow> kline_venue \<Rightarrow> int \<Rightarrow> string \<Rightarrow> int \<Rightarrow> int \<Rightarrow> int \<Rightarrow> int option \<Rightarrow> history option" where
  "fetch_history parse http now_ms symbol timeframe history_ms batch end_ms =
     (let cursor = (case end_ms of None \<Rightarrow> now_ms | Some e \<Rightarrow> e);
          oldest = cursor - history_ms;
          interval = (case TIMEFRAME_MS timeframe of None \<Rightarrow> 60000 | Some ms \<Rightarrow> ms)
      in while_option fetching
           (history_turn (\<lambda>c. fetch_klines parse http symbol timeframe batch (Some c)) oldest interval)
           (Fetching cursor []))"

section \<open>What the adapter lets through\<close>

lemma to_float_pos: "to_float parse v = Ok f \<Longrightarrow> 0 < f"
  by (auto simp: to_float_def split: sum.splits if_splits)

lemma parse_kline_pos:
  "parse_kline parse row = Ok c \<Longrightarrow>
     0 < c_open c \<and> 0 < c_high c \<and> 0 < c_low c \<and> 0 < c_close c \<and> 0 < c_volume c"
  by (auto simp: parse_kline_def rbind_Inr_iff dest: to_float_pos simp del: traverse.simps)

lemma traverse_set: "traverse f xs = Ok ys \<Longrightarrow> y \<in> set ys \<Longrightarrow> \<exists>x \<in> set xs. f x = Ok y"
  by (induction xs arbitrary: ys) (auto simp: rbind_Inr_iff)

lemma set_insert_row [simp]: "set (insert_row c ds) = insert c (set ds)"
  by (induction ds) auto

lemma set_sort_rows [simp]: "set (sort_rows cs) = set cs"
  by (induction cs) (simp_all add: sort_rows_def)

lemma fetch_klines_rows:
  assumes "fetch_klines parse http symbol tf limit end_ms = Ok cs"
  obtains rows ps i where "http \<lparr>kq_symbol = symbol, kq_interval = i, kq_limit = limit, kq_end = end_ms\<rparr> = Body (Some (JList rows))"
    "traverse (parse_kline parse) rows = Ok ps" "cs = sort_rows ps" "TIMEFRAME_MS tf \<noteq> None"
  using assms
  by (auto simp: fetch_klines_def http_json_def rbind_Inr_iff TIMEFRAME_MS_def
      split: option.splits if_splits reply.splits json.splits)

text \<open>
  The prices and volumes of every candle a request yields are positive, and a zero volume
  makes the whole request fail. The check is named for finiteness but an infinite price passes it.
\<close>

theorem fetched_candles_positive:
  "(case fetch_klines parse http symbol timeframe limit end_ms of
      Inl _ \<Rightarrow> True
    | Inr cs \<Rightarrow> list_all (\<lambda>c. 0 < c_open c \<and> 0 < c_high c \<and> 0 < c_low c \<and> 0 < c_close c \<and> 0 < c_volume c) cs) \<and>
   to_float parse (JInt 0) = Raise LiveFeedError \<and> to_float parse (JFloat NaN) = Raise LiveFeedError \<and>
   to_float parse (JFloat PInf) = Ok PInf"
proof (intro conjI)
  show "case fetch_klines parse http symbol timeframe limit end_ms of
      Inl _ \<Rightarrow> True
    | Inr cs \<Rightarrow> list_all (\<lambda>c. 0 < c_open c \<and> 0 < c_high c \<and> 0 < c_low c \<and> 0 < c_close c \<and> 0 < c_volume c) cs"
  proof (cases "fetch_klines parse http symbol timeframe limit end_ms")
    case (Inr cs)
    then obtain rows ps i where "traverse (parse_kline parse) rows = Ok ps" "cs = sort_rows ps"
      by (rule fetch_klines_rows)
    then have "0 < c_open c \<and> 0 < c_high c \<and> 0 < c_low c \<and> 0 < c_close c \<and> 0 < c_volume c"
      if "c \<in> set cs" for c using that traverse_set parse_kline_pos by (metis set_sort_rows)
    then show ?thesis by (simp add: Inr list_all_iff)
  qed simp
qed (simp_all add: to_float_def py_float_def int_to_float_def float_of_int_def to_f64_int [of 0, simplified] zero_pyfloat_def feq_def)

text \<open>
  The live price rejects what the history accepts. Whenever the venue sends the close as
  text, as it does for every row of the history, \<open>fetch_last_price\<close> raises, whatever the text
  says; the same row parses as a candle.
\<close>

theorem last_price_rejects_text:
  "fetch_last_price (\<lambda>_. Body (Some (JList (rows @ [JList (a # b # c # d # JStr s # cells)])))) symbol = Raise LiveFeedError \<and>
   (case fetch_klines (\<lambda>_. Some (Fin 5)) (\<lambda>_. Body (Some (JList
       [JList [JInt 60000, JStr ''5.0'', JStr ''5.0'', JStr ''5.0'', JStr ''5.0'', JStr ''5.0'', JInt 119999]]))) symbol 60 1 None of
      Inr [candle] \<Rightarrow> c_close candle = Fin 5
    | _ \<Rightarrow> False)"
proof
  show "case fetch_klines (\<lambda>_. Some (Fin 5)) (\<lambda>_. Body (Some (JList
       [JList [JInt 60000, JStr ''5.0'', JStr ''5.0'', JStr ''5.0'', JStr ''5.0'', JStr ''5.0'', JInt 119999]]))) symbol 60 1 None of
      Inr [candle] \<Rightarrow> c_close candle = Fin 5
    | _ \<Rightarrow> False"
    by code_simp
qed (simp add: fetch_last_price_def http_json_def row_item_def)

section \<open>The paged history ends\<close>

lemma history_ends:
  assumes below: "\<And>c rows. fetch c = Ok rows \<Longrightarrow> list_all (\<lambda>r. \<exists>ms. py_int (c_t_open r * Fin 1000) = Ok ms \<and> ms \<le> c) rows"
    and pos: "0 < interval"
  shows "\<exists>r. while_option fetching (history_turn fetch oldest interval) (Fetching cursor out) = Some (Done r)"
proof -
  define f where "f h = (case h of Done _ \<Rightarrow> 0 | Fetching c _ \<Rightarrow> if oldest < c then nat (c - oldest) + 2 else (1::nat))" for h
  have "f (history_turn fetch oldest interval s) < f s" if "fetching s" for s
  proof (cases s)
    case (Fetching c out)
    show ?thesis
    proof (cases "oldest < c")
      case lt: True
      show ?thesis
      proof (cases "fetch c")
        case (Inr rows)
        show ?thesis
        proof (cases rows)
          case (Cons r rs)
          then obtain ms where ms: "py_int (c_t_open r * Fin 1000) = Ok ms" "ms \<le> c" using below [OF Inr] by auto
          show ?thesis using ms lt pos by (simp add: Fetching Inr Cons f_def)
        qed (simp add: Fetching Inr lt f_def)
      qed (simp add: Fetching lt f_def)
    qed (simp add: Fetching f_def)
  qed (use that in simp)
  then obtain t where t: "while_option fetching (history_turn fetch oldest interval) (Fetching cursor out) = Some t"
    using measure_while_option_Some [of "\<lambda>_. True" fetching _ f] by blast
  then have "\<not> fetching t" by (rule while_option_stop)
  with t show ?thesis by (cases t) auto
qed

text \<open>
  What the venue documents of its klines: they open on whole seconds, no later than the
  \<open>endTime\<close> of the request, and are identified by their open time.
\<close>

fun row_open :: "json \<Rightarrow> int option" where
  "row_open (JList (JInt ms # _)) = Some ms"
| "row_open _ = None"

definition open_valid :: "int \<Rightarrow> json \<Rightarrow> bool" where
  "open_valid e row = (case row_open row of
      None \<Rightarrow> False | Some ms \<Rightarrow> 1000 dvd ms \<and> 0 \<le> ms \<and> ms \<le> 2 ^ 53 \<and> ms \<le> e)"

definition honours_end :: "kline_venue \<Rightarrow> bool" where
  "honours_end http \<longleftrightarrow> (\<forall>q e rows. http q = Body (Some (JList rows)) \<longrightarrow> kq_end q = Some e \<longrightarrow>
     list_all (open_valid e) rows \<and> distinct (map row_open rows))"

lemma parse_open:
  assumes "parse_kline parse row = Ok c" "open_valid e row"
  obtains k where "c_t_open c = Fin (of_int k)" "row_open row = Some (1000 * k)"
    "py_int (c_t_open c * Fin 1000) = Ok (1000 * k)" "1000 * k \<le> e"
proof -
  obtain k xs where row: "row = JList (JInt (1000 * k) # xs)" and k: "0 \<le> k" "1000 * k \<le> 2 ^ 53" "1000 * k \<le> e"
    using assms(2) unfolding open_valid_def
    by (cases row rule: row_open.cases) (auto elim!: dvdE)
  have f: "float_of_int (1000 * k) = Fin (of_int (1000 * k))"
    unfolding float_of_int_def using to_f64_int [of "1000 * k"] k by simp
  have "c_t_open c = Fin (of_int (1000 * k)) / Fin 1000"
    using assms(1) unfolding row parse_kline_def
    by (auto simp: rbind_Inr_iff row_item_def seconds_def py_float_def int_to_float_def f split: if_splits)
  also have "\<dots> = to_f64 (of_int k)" by simp
  also have "\<dots> = Fin (of_int k)" using k by (intro to_f64_int) simp
  finally have t: "c_t_open c = Fin (of_int k)" .
  have "c_t_open c * Fin 1000 = to_f64 (of_int (1000 * k))" unfolding t by (simp add: mult.commute)
  also have "\<dots> = Fin (of_int (1000 * k))" using k by (intro to_f64_int) simp
  finally have "py_int (c_t_open c * Fin 1000) = Ok (1000 * k)" by (simp only: py_int.simps floor_of_int ceiling_of_int if_cancel)
  with t row k that show thesis by simp
qed

lemma timeframe_pos: "TIMEFRAME_MS tf = Some ms \<Longrightarrow> 0 < ms"
  by (auto simp: TIMEFRAME_MS_def INTERVAL_MAP_def split: if_splits)

definition history_fetch ::
    "(string \<Rightarrow> pyfloat option) \<Rightarrow> kline_venue \<Rightarrow> string \<Rightarrow> int \<Rightarrow> int \<Rightarrow> int \<Rightarrow> candle list result" where
  "history_fetch parse http symbol timeframe batch c = fetch_klines parse http symbol timeframe batch (Some c)"

lemma fetch_below:
  assumes "honours_end http" "history_fetch parse http symbol tf batch c = Ok rows"
  shows "list_all (\<lambda>r. \<exists>k. c_t_open r = Fin (of_int k) \<and> py_int (c_t_open r * Fin 1000) = Ok (1000 * k) \<and> 1000 * k \<le> c) rows"
proof -
  obtain rs ps i where r: "http \<lparr>kq_symbol = symbol, kq_interval = i, kq_limit = batch, kq_end = Some c\<rparr> = Body (Some (JList rs))"
    "traverse (parse_kline parse) rs = Ok ps" "rows = sort_rows ps"
    using assms(2) unfolding history_fetch_def by (rule fetch_klines_rows)
  have v: "list_all (open_valid c) rs" using assms(1) r(1) unfolding honours_end_def by fastforce
  have "\<exists>k. c_t_open x = Fin (of_int k) \<and> py_int (c_t_open x * Fin 1000) = Ok (1000 * k) \<and> 1000 * k \<le> c"
    if "x \<in> set rows" for x
  proof -
    have "x \<in> set ps" using that r(3) by simp
    then obtain row where "row \<in> set rs" "parse_kline parse row = Ok x" using traverse_set [OF r(2)] by blast
    with v obtain k where "c_t_open x = Fin (of_int k)" "py_int (c_t_open x * Fin 1000) = Ok (1000 * k)" "1000 * k \<le> c"
      by (metis list_all_iff parse_open)
    then show ?thesis by blast
  qed
  then show ?thesis by (simp add: list_all_iff)
qed

lemma fetch_returns:
  assumes "honours_end http"
  shows "\<exists>r. fetch_history parse http now_ms symbol timeframe history_ms batch end_ms = Some (Done r)"
proof -
  have p: "0 < (case TIMEFRAME_MS timeframe of None \<Rightarrow> 60000 | Some ms \<Rightarrow> ms)"
    by (simp add: timeframe_pos split: option.split)
  have b: "list_all (\<lambda>r. \<exists>ms. py_int (c_t_open r * Fin 1000) = Ok ms \<and> ms \<le> c) rows"
    if "fetch_klines parse http symbol timeframe batch (Some c) = Ok rows" for c rows
    using fetch_below [OF assms that [folded history_fetch_def]] by (auto simp: list_all_iff)
  show ?thesis unfolding fetch_history_def Let_def by (rule history_ends [OF b p])
qed

text \<open>
  C27: Against a venue that honours the end time of a request, \<open>fetch_history\<close> returns or raises for
  every timeframe, span and batch size: each page moves the cursor at least one interval back.
\<close>

theorem history_terminates:
  assumes "honours_end http"
  shows "\<exists>r. fetch_history parse http now_ms symbol timeframe history_ms batch end_ms = Some (Done r)"
  using fetch_returns [OF assms] .


definition candle_row :: "int \<Rightarrow> json" where
  "candle_row ms = JList [JInt ms, JInt 5, JInt 5, JInt 5, JInt 5, JInt 5, JInt (ms + 59999)]"

text \<open>A venue with one candle a minute from 0 on; a page holds the last of them.\<close>

definition minute_venue :: kline_venue where
  "minute_venue q = (case kq_end q of
      None \<Rightarrow> Unreachable
    | Some e \<Rightarrow> Body (Some (JList (if e < 0 \<or> 2 ^ 53 < e then [] else [candle_row (60000 * (e div 60000))]))))"

lemma minute_venue_honours: "honours_end minute_venue"
proof -
  have "60000 * (e div 60000) \<le> (e::int)" for e
    using div_mult_mod_eq [of e 60000] pos_mod_sign [of 60000 e] by linarith
  moreover from this have "60000 * (e div 60000) \<le> (2::int) ^ 53" if "e \<le> 2 ^ 53" for e
    using that by (rule order_trans)
  moreover have "1000 dvd 60000 * (e div 60000)" for e :: int
    by (rule dvd_mult2) simp
  ultimately show ?thesis
    unfolding honours_end_def minute_venue_def
    by (auto simp: candle_row_def open_valid_def pos_imp_zdiv_nonneg_iff split: if_splits option.splits)
qed

lemma history_terminates_witness:
  "honours_end minute_venue \<and>
   (\<exists>r. fetch_history (\<lambda>_. None) minute_venue 600000 ''BTCUSDT'' 60 180000 1000 None = Some (Done r))"
  using minute_venue_honours history_terminates [OF minute_venue_honours] by blast

lemma klines_of_row:
  "\<exists>c. (\<forall>s e. fetch_klines (\<lambda>_. None) (\<lambda>_. Body (Some (JList [candle_row 600000]))) s 60 1000 (Some e) = Ok [c]) \<and>
       c_t_open c = Fin 600"
proof -
  have "case parse_kline (\<lambda>_. None) (candle_row 600000) of Inr c \<Rightarrow> c_t_open c = Fin 600 | Inl _ \<Rightarrow> False"
    by code_simp
  then obtain c where "parse_kline (\<lambda>_. None) (candle_row 600000) = Ok c" "c_t_open c = Fin 600"
    by (cases "parse_kline (\<lambda>_. None) (candle_row 600000)") auto
  then show ?thesis by (auto simp: fetch_klines_def INTERVAL_MAP_def http_json_def sort_rows_def)
qed

text \<open>
  The loop has no guard of its own. A venue that answers every page with the same recent
  candle keeps it asking for ever: the cursor comes back to the same place each time.
\<close>

theorem history_may_never_end:
  "fetch_history (\<lambda>_. None) (\<lambda>_. Body (Some (JList [candle_row 600000]))) now_ms symbol 60 400000 1000 (Some 700000) = None"
proof -
  let ?http = "\<lambda>_. Body (Some (JList [candle_row 600000]))"
  obtain c where c: "\<And>s e. fetch_klines (\<lambda>_. None) ?http s 60 1000 (Some e) = Ok [c]" "c_t_open c = Fin 600"
    using klines_of_row by blast
  let ?turn = "history_turn (\<lambda>e. fetch_klines (\<lambda>_. None) ?http symbol 60 1000 (Some e)) 300000 60000"
  have ms: "py_int (c_t_open c * Fin 1000) = Ok 600000" unfolding c(2) by code_simp
  have turn: "?turn (Fetching e out) = Fetching 540000 (c # out)" if "300000 < e" for e out
    using that by (simp add: c(1) ms)
  have "while_option fetching ?turn (Fetching 700000 []) = None"
  proof (rule ccontr)
    assume "while_option fetching ?turn (Fetching 700000 []) \<noteq> None"
    then obtain t where t: "while_option fetching ?turn (Fetching 700000 []) = Some t" by auto
    have "\<exists>e out. t = Fetching e out \<and> 300000 < e"
    proof (rule while_option_rule [OF _ t, where P = "\<lambda>h. \<exists>e out. h = Fetching e out \<and> 300000 < e"])
      fix s assume "\<exists>e out. s = Fetching e out \<and> 300000 < e"
      then show "\<exists>e out. ?turn s = Fetching e out \<and> 300000 < e" using turn by fastforce
    qed simp
    with while_option_stop [OF t] show False by auto
  qed
  then show ?thesis by (simp add: fetch_history_def TIMEFRAME_MS_def INTERVAL_MAP_def)
qed

section \<open>The history is in order\<close>

abbreviation in_order :: "candle list \<Rightarrow> bool" where
  "in_order \<equiv> sorted_wrt (\<lambda>a b. c_t_open a < c_t_open b)"

lemma insert_row_order:
  "in_order ds \<Longrightarrow> (\<And>d. d \<in> set ds \<Longrightarrow> isfinite (c_t_open d) \<and> c_t_open d \<noteq> c_t_open c) \<Longrightarrow> isfinite (c_t_open c) \<Longrightarrow>
     in_order (insert_row c ds)"
proof (induction ds)
  case (Cons d ds)
  have f: "isfinite (c_t_open d)" "c_t_open d \<noteq> c_t_open c" using Cons.prems(2) by auto
  show ?case
  proof (cases "c_t_open d < c_t_open c")
    case True
    then show ?thesis using Cons by auto
  next
    case False
    with f Cons.prems(3) have lt: "c_t_open c < c_t_open d" by (auto elim!: finiteE)
    then have "\<forall>x \<in> set ds. c_t_open c < c_t_open x" using Cons.prems(1) float_trans(4) by auto
    with False lt Cons.prems(1) show ?thesis by simp
  qed
qed simp

lemma sort_rows_order:
  "distinct (map c_t_open cs) \<Longrightarrow> list_all (\<lambda>c. isfinite (c_t_open c)) cs \<Longrightarrow> in_order (sort_rows cs)"
proof (induction cs)
  case (Cons c cs)
  have "isfinite (c_t_open d) \<and> c_t_open d \<noteq> c_t_open c" if "d \<in> set (sort_rows cs)" for d
    using that Cons.prems by (auto simp: list_all_iff) (metis imageI)
  moreover have "in_order (sort_rows cs)" "isfinite (c_t_open c)" using Cons by simp_all
  ultimately have "in_order (insert_row c (sort_rows cs))" by (intro insert_row_order)
  then show ?case by (simp add: sort_rows_def)
qed (simp add: sort_rows_def)

definition whole_open :: "candle \<Rightarrow> int option" where
  "whole_open c = (case c_t_open c of Fin q \<Rightarrow> Some (1000 * \<lfloor>q\<rfloor>) | _ \<Rightarrow> None)"

lemma traverse_opens:
  "traverse (parse_kline parse) rs = Ok ps \<Longrightarrow> list_all (open_valid e) rs \<Longrightarrow> map row_open rs = map whole_open ps"
proof (induction rs arbitrary: ps)
  case (Cons row rs)
  from Cons.prems(1) obtain c cs where c: "parse_kline parse row = Ok c"
    and cs: "traverse (parse_kline parse) rs = Ok cs" "ps = c # cs" by (auto simp: rbind_Inr_iff)
  have v: "open_valid e row" using Cons.prems(2) by simp
  obtain k where "c_t_open c = Fin (of_int k)" "row_open row = Some (1000 * k)" by (rule parse_open [OF c v])
  with Cons.IH [OF cs(1)] Cons.prems(2) cs(2) show ?case by (simp add: whole_open_def)
qed simp

lemma page_order:
  assumes "honours_end http" "history_fetch parse http symbol tf batch c = Ok rows"
  shows "in_order rows"
proof -
  obtain rs ps i where r: "http \<lparr>kq_symbol = symbol, kq_interval = i, kq_limit = batch, kq_end = Some c\<rparr> = Body (Some (JList rs))"
    "traverse (parse_kline parse) rs = Ok ps" "rows = sort_rows ps"
    using assms(2) unfolding history_fetch_def by (rule fetch_klines_rows)
  have v: "list_all (open_valid c) rs" "distinct (map row_open rs)"
    using assms(1) r(1) unfolding honours_end_def by fastforce+
  have "distinct (map whole_open ps)" using v(2) traverse_opens [OF r(2) v(1)] by simp
  then have "distinct (map c_t_open ps)"
    by (auto simp: distinct_map whole_open_def inj_on_def split: pyfloat.splits)
  moreover have "list_all (\<lambda>c. isfinite (c_t_open c)) ps"
    using fetch_below [OF assms] unfolding r(3) list_all_iff by auto
  ultimately show ?thesis unfolding r(3) by (rule sort_rows_order)
qed

text \<open>The invariant of the loop: what is fetched is in order and opens after the cursor.\<close>

fun history_inv :: "int \<Rightarrow> history \<Rightarrow> bool" where
  "history_inv e (Fetching c out) = (c \<le> e \<and> in_order out \<and>
     (\<forall>x \<in> set out. \<exists>k. c_t_open x = Fin (of_int k) \<and> c < 1000 * k \<and> 1000 * k \<le> e))"
| "history_inv e (Done (Inr out)) = (in_order out \<and> (\<forall>x \<in> set out. \<exists>k. c_t_open x = Fin (of_int k) \<and> 1000 * k \<le> e))"
| "history_inv e (Done (Inl _)) = True"

lemma history_turn_inv:
  assumes h: "honours_end http" and i: "0 < interval" and inv: "history_inv e s"
  shows "history_inv e (history_turn (history_fetch parse http symbol tf batch) oldest interval s)"
proof (cases s)
  case (Fetching c out)
  have o: "c \<le> e" "in_order out" "\<And>x. x \<in> set out \<Longrightarrow> \<exists>k. c_t_open x = Fin (of_int k) \<and> c < 1000 * k \<and> 1000 * k \<le> e"
    using inv Fetching by auto
  then have ended: "history_inv e (Done (Ok out))" by fastforce
  show ?thesis
  proof (cases "oldest < c")
    case lt: True
    show ?thesis
    proof (cases "history_fetch parse http symbol tf batch c")
      case (Inr page)
      show ?thesis
      proof (cases page)
        case Nil
        with ended lt show ?thesis by (simp add: Fetching Inr)
      next
        case (Cons r rs)
        note b = fetch_below [OF h Inr, unfolded list_all_iff, rule_format]
        have ord: "in_order page" by (rule page_order [OF h Inr])
        obtain k where k: "c_t_open r = Fin (of_int k)" "py_int (c_t_open r * Fin 1000) = Ok (1000 * k)" "1000 * k \<le> c"
          using b [of r] Cons by auto
        have "\<exists>j. c_t_open x = Fin (of_int j) \<and> k \<le> j \<and> 1000 * j \<le> c" if "x \<in> set page" for x
          using b [OF that] that ord k(1) unfolding Cons by auto
        then have "\<exists>j. c_t_open x = Fin (of_int j) \<and> 1000 * k - interval < 1000 * j \<and> 1000 * j \<le> e"
          if "x \<in> set (page @ out)" for x
          using that o(1,3) i k(3) by (force simp: Un_iff)
        moreover have "in_order (page @ out)"
          using ord o(2) b o(3) by (force simp: sorted_wrt_append)
        ultimately show ?thesis using lt k i o(1) by (simp add: Fetching Inr Cons)
      qed
    qed (simp add: Fetching lt)
  qed (use ended in \<open>simp add: Fetching\<close>)
qed (use inv in simp)

lemma fetched_in_order:
  assumes "honours_end http"
    and "fetch_history parse http now_ms symbol timeframe history_ms batch (Some e) = Some (Done (Ok cs))"
  shows "sorted_wrt (\<lambda>a b. c_t_open a < c_t_open b) cs \<and> list_all (\<lambda>c. c_t_open c \<le> Fin (of_int e / 1000)) cs"
proof -
  let ?i = "case TIMEFRAME_MS timeframe of None \<Rightarrow> 60000 | Some ms \<Rightarrow> ms"
  have i: "0 < ?i" by (simp add: timeframe_pos split: option.split)
  have w: "while_option fetching (history_turn (history_fetch parse http symbol timeframe batch) (e - history_ms) ?i)
      (Fetching e []) = Some (Done (Ok cs))"
    using assms(2) by (simp add: fetch_history_def history_fetch_def [abs_def])
  have "history_inv e (Done (Ok cs))"
    by (rule while_option_rule [OF _ w]) (simp_all add: history_turn_inv [OF assms(1) i])
  then have o: "in_order cs" and b: "\<And>x. x \<in> set cs \<Longrightarrow> \<exists>k. c_t_open x = Fin (of_int k) \<and> 1000 * k \<le> e" by auto
  have "c_t_open x \<le> Fin (of_int e / 1000)" if x: "x \<in> set cs" for x
  proof -
    obtain k where k: "c_t_open x = Fin (of_int k)" "1000 * k \<le> e" using b [OF x] by blast
    have "1000 * of_int k \<le> (of_int e :: rat)" using k(2) by (metis of_int_le_iff of_int_mult of_int_numeral)
    then show ?thesis by (simp add: k(1) field_simps)
  qed
  with o show ?thesis by (simp add: list_all_iff)
qed

text \<open>
  Against such a venue the pages join without overlap: the history that \<open>fetch_history\<close>
  returns is strictly ordered by open time, newest last, so no candle appears twice, and no candle
  opens after the requested end.
\<close>

theorem history_in_order:
  assumes "honours_end http"
    and "fetch_history parse http now_ms symbol timeframe history_ms batch (Some e) = Some (Done (Ok cs))"
  shows "sorted_wrt (\<lambda>a b. c_t_open a < c_t_open b) cs \<and> list_all (\<lambda>c. c_t_open c \<le> Fin (of_int e / 1000)) cs"
  using fetched_in_order [OF assms] .


lemma history_in_order_witness:
  "case fetch_history (\<lambda>_. None) minute_venue 0 ''BTCUSDT'' 60 150000 1000 (Some 150000) of
     Some (Done (Inr cs)) \<Rightarrow> length cs = 2 \<and> sorted_wrt (\<lambda>a b. c_t_open a < c_t_open b) cs
   | _ \<Rightarrow> False"
proof -
  let ?h = "fetch_history (\<lambda>_. None) minute_venue 0 ''BTCUSDT'' 60 150000 1000 (Some 150000)"
  have "case ?h of Some (Done (Inr cs)) \<Rightarrow> length cs = 2 | _ \<Rightarrow> False" by code_simp
  then obtain cs where cs: "?h = Some (Done (Ok cs))" "length cs = 2"
    by (auto split: option.splits history.splits sum.splits)
  with history_in_order [OF minute_venue_honours cs(1)] show ?thesis by simp
qed

end
