(* ===== verification/ConstitutionClient.thy ===== *)
theory ConstitutionClient
  imports Trading "HOL-Library.Word"
begin

text \<open>
  The client of the risk kernel, \<open>cortex/cortex/constitution_client.py\<close>: length-prefixed frames over
  a TCP session, and the four calls. A socket is what was sent and the segments still to arrive;
  an empty read means the peer has closed. JSON text and its UTF-8 bytes are a codec parameter.
\<close>

section \<open>Bytes and sockets\<close>

type_synonym bytes = "8 word list"

text \<open>\<open>struct.pack(">I", n)\<close> and \<open>struct.unpack(">I", b)[0]\<close>.\<close>

definition pack_be :: "nat \<Rightarrow> bytes result" where
  "pack_be n =
     (if n < 2 ^ 32
      then Ok [of_nat (n div 2 ^ 24), of_nat (n div 2 ^ 16), of_nat (n div 2 ^ 8), of_nat n]
      else Raise StructError)"

definition unpack_be :: "bytes \<Rightarrow> nat" where
  "unpack_be b = foldl (\<lambda>n x. 256 * n + unat x) 0 b"

record sock =
  sk_sent :: bytes
  sk_segments :: "bytes list"

text \<open>\<open>recv(n)\<close> returns what the first segment has, at most \<open>n\<close> bytes.\<close>

fun recv :: "nat \<Rightarrow> bytes list \<Rightarrow> bytes \<times> bytes list" where
  "recv n [] = ([], [])"
| "recv n (s # ss) = (take n s, if length s \<le> n then ss else drop n s # ss)"

function read_exact :: "nat \<Rightarrow> bytes list \<Rightarrow> bytes result \<times> bytes list" where
  "read_exact n ss =
     (if n = 0 then (Ok [], ss)
      else let (chunk, ss') = recv n ss in
        if chunk = [] then (Raise ConnectionError, ss')
        else let (r, ss'') = read_exact (n - length chunk) ss'
          in (rbind r (\<lambda>rest. Ok (chunk @ rest)), ss''))"
  by pat_completeness auto
termination by (relation "measure fst") auto

declare read_exact.simps [simp del]

section \<open>Frames\<close>

definition MAX_FRAME_BYTES :: nat where "MAX_FRAME_BYTES = 16384"

record codec =
  co_dumps :: "json \<Rightarrow> string"
  co_encode :: "string \<Rightarrow> bytes"
  co_decode :: "bytes \<Rightarrow> string result"
  co_loads :: "string \<Rightarrow> json result"

record kernel_client =
  kc_session :: "sock option"

definition exchange :: "bytes \<Rightarrow> sock \<Rightarrow> bytes result \<times> sock" where
  "exchange payload s =
     (case pack_be (length payload) of
        Inl e \<Rightarrow> (Raise e, s)
      | Inr prefix_bytes \<Rightarrow>
          (let s1 = s\<lparr>sk_sent := sk_sent s @ prefix_bytes @ payload\<rparr>;
               (header, ss) = recv 4 (sk_segments s1);
               s2 = s1\<lparr>sk_segments := ss\<rparr>
           in if length header \<noteq> 4 then (Raise ConnectionError, s2)
              else let frame_len = unpack_be header in
                if frame_len = 0 \<or> MAX_FRAME_BYTES < frame_len then (Raise ValueError, s2)
                else let (r, ss') = read_exact frame_len ss in (r, s2\<lparr>sk_segments := ss'\<rparr>)))"

definition send_frame :: "codec \<Rightarrow> bytes \<Rightarrow> kernel_client \<Rightarrow> string result \<times> kernel_client" where
  "send_frame C payload c =
     (case kc_session c of
        None \<Rightarrow> (Raise ConnectionError, c)
      | Some s \<Rightarrow> (let (r, s') = exchange payload s in (rbind r (co_decode C), c\<lparr>kc_session := Some s'\<rparr>)))"

definition build_envelope :: "codec \<Rightarrow> string \<Rightarrow> string \<Rightarrow> bytes" where
  "build_envelope C opcode payload =
     co_encode C (co_dumps C (JObj
       [(''protocol_version'', JInt 1), (''request_id'', JStr ''cortex-0001''),
        (''opcode'', JStr opcode), (''payload'', JStr payload)]))"

section \<open>Sessions\<close>

text \<open>\<open>connect\<close> is what \<open>socket.create_connection\<close> gives.\<close>

definition open_session :: "sock result \<Rightarrow> kernel_client \<Rightarrow> unit result \<times> kernel_client" where
  "open_session connect c =
     (case kc_session c of
        Some _ \<Rightarrow> (Ok (), c)
      | None \<Rightarrow> (case connect of Inl e \<Rightarrow> (Raise e, c) | Inr s \<Rightarrow> (Ok (), c\<lparr>kc_session := Some s\<rparr>)))"

definition close_session :: "kernel_client \<Rightarrow> kernel_client" where
  "close_session c = c\<lparr>kc_session := None\<rparr>"

section \<open>Calls\<close>

definition call :: "codec \<Rightarrow> string \<Rightarrow> string \<Rightarrow> kernel_client \<Rightarrow> json result \<times> kernel_client" where
  "call C opcode payload c =
     (let (r, c') = send_frame C (build_envelope C opcode payload) c in (rbind r (co_loads C), c'))"

definition evaluate :: "codec \<Rightarrow> json \<Rightarrow> json \<Rightarrow> kernel_client \<Rightarrow> json result \<times> kernel_client" where
  "evaluate C folio proposal =
     call C ''EvaluateProposal'' (co_dumps C (JObj [(''portfolio'', folio), (''proposal'', proposal)]))"

definition get_status :: "codec \<Rightarrow> kernel_client \<Rightarrow> (json \<times> json \<times> json) result \<times> kernel_client" where
  "get_status C c =
     (let (r, c') = call C ''GetStatus'' ''{}'' c in
      (rbind r (\<lambda>resp. rbind (item_of ''system_state'' resp) (\<lambda>st.
         rbind (item_of ''proposals_seen'' resp) (\<lambda>seen.
         rbind (item_of ''emergencies'' resp) (\<lambda>em. Ok (st, seen, em))))), c'))"

definition heartbeat_call :: "codec \<Rightarrow> kernel_client \<Rightarrow> json result \<times> kernel_client" where
  "heartbeat_call C = call C ''Heartbeat'' ''{}''"

definition recover :: "codec \<Rightarrow> bool \<Rightarrow> kernel_client \<Rightarrow> json result \<times> kernel_client" where
  "recover C valid = call C ''AttemptRecovery'' (co_dumps C (JObj [(''cryptographic_proof_valid'', JBool valid)]))"

section \<open>Framing\<close>

lemma digit_256: "256 * (k div 256) + k mod 256 = (k::nat)"
  by (rule mult_div_mod_eq)

lemma pack_unpack:
  assumes "n < 2 ^ 32"
  shows "\<exists>b. pack_be n = Ok b \<and> length b = 4 \<and> unpack_be b = n"
proof -
  have q: "n div 2 ^ 24 = n div 2 ^ 16 div 256" "n div 2 ^ 16 = n div 2 ^ 8 div 256" "n div 2 ^ 8 = n div 256"
    by (simp_all add: div_mult2_eq [symmetric])
  have "n div 2 ^ 24 < 256" using assms by (simp add: less_mult_imp_div_less)
  then have a: "n div 2 ^ 24 mod 256 = n div 2 ^ 24" by simp
  have u: "unat (of_nat m :: 8 word) = m mod 256" for m by (simp add: unat_of_nat)
  have "unpack_be [of_nat (n div 2 ^ 24), of_nat (n div 2 ^ 16), of_nat (n div 2 ^ 8), of_nat n] =
      256 * (256 * (256 * (n div 2 ^ 24) + n div 2 ^ 16 mod 256) + n div 2 ^ 8 mod 256) + n mod 256"
    unfolding unpack_be_def by (simp only: foldl.simps u a mult_0_right add_0)
  also have "\<dots> = n" unfolding q(1) digit_256 unfolding q(2) digit_256 unfolding q(3) digit_256 ..
  finally show ?thesis using assms by (simp add: pack_be_def)
qed

lemma read_exact_segments:
  "list_all (\<lambda>s. s \<noteq> []) ss \<Longrightarrow> read_exact (length (concat ss)) (ss @ tt) = (Ok (concat ss), tt)"
proof (induction ss)
  case Nil
  show ?case by (simp add: read_exact.simps)
next
  case (Cons s ss)
  have rv: "recv (length (concat (s # ss))) ((s # ss) @ tt) = (s, ss @ tt)" by simp
  have "length (concat (s # ss)) \<noteq> 0" "s \<noteq> []" using Cons.prems by auto
  with Cons show ?case
    by (subst read_exact.simps) (simp only: rv Let_def prod.case if_False simp_thms, simp)
qed

definition frame :: "bytes \<Rightarrow> bytes" where
  "frame b = (case pack_be (length b) of Inl _ \<Rightarrow> [] | Inr h \<Rightarrow> h @ b)"

text \<open>The segments that carry one reply: none empty, and the whole length prefix in the first.\<close>

definition carries :: "bytes \<Rightarrow> bytes list \<Rightarrow> bool" where
  "carries r ss \<longleftrightarrow> ss \<noteq> [] \<and> list_all (\<lambda>s. s \<noteq> []) ss \<and> 4 \<le> length (hd ss) \<and> concat ss = frame r"

lemma carries_prefix:
  assumes "length r \<le> MAX_FRAME_BYTES" "carries r ss"
  obtains h ss1 where "length h = 4" "unpack_be h = length r" "recv 4 (ss @ tt) = (h, ss1 @ tt)"
    "concat ss1 = r" "list_all (\<lambda>s. s \<noteq> []) ss1"
proof -
  obtain h where h: "pack_be (length r) = Ok h" "length h = 4" "unpack_be h = length r"
    using pack_unpack [of "length r"] assms(1) unfolding MAX_FRAME_BYTES_def by fastforce
  obtain s0 rest where ss: "ss = s0 # rest" using assms(2) unfolding carries_def by (cases ss) auto
  have s0: "4 \<le> length s0" and all: "s0 @ concat rest = h @ r" "list_all (\<lambda>s. s \<noteq> []) rest"
    using assms(2) h(1) unfolding carries_def ss by (simp_all add: frame_def)
  define ss1 where "ss1 = (if length s0 \<le> 4 then rest else drop 4 s0 # rest)"
  have "recv 4 (ss @ tt) = (h, ss1 @ tt)"
    using s0 all(1) h(2) unfolding ss by (auto simp: ss1_def append_eq_append_conv_if)
  moreover have "concat ss1 = r" "list_all (\<lambda>s. s \<noteq> []) ss1"
    using s0 all h(2) by (auto simp: ss1_def append_eq_append_conv_if)
  ultimately show thesis using that h(2,3) by blast
qed

lemma exchange_reply:
  assumes q: "length q < 2 ^ 32" and r: "0 < length r" "length r \<le> MAX_FRAME_BYTES"
    and c: "carries r ss" and seg: "sk_segments s = ss @ tt"
  shows "exchange q s = (Ok r, \<lparr>sk_sent = sk_sent s @ frame q, sk_segments = tt\<rparr>)"
proof -
  obtain hq where hq: "pack_be (length q) = Ok hq" using pack_unpack [OF q] by blast
  obtain h ss1 where h: "length h = 4" "unpack_be h = length r" "recv 4 (ss @ tt) = (h, ss1 @ tt)"
    "concat ss1 = r" "list_all (\<lambda>s. s \<noteq> []) ss1"
    by (rule carries_prefix [OF r(2) c])
  from read_exact_segments [OF h(5), of tt] h(4) have "read_exact (length r) (ss1 @ tt) = (Ok r, tt)" by simp
  then show ?thesis
    using r h seg by (simp add: exchange_def hq frame_def Let_def)
qed

text \<open>A session of requests, each answered before the next is sent.\<close>

fun converse :: "bytes list \<Rightarrow> sock \<Rightarrow> bytes result list \<times> sock" where
  "converse [] s = ([], s)"
| "converse (q # qs) s =
     (let (r, s') = exchange q s; (rs, s'') = converse qs s' in (r # rs, s''))"



text \<open>
  The length prefix is read with one \<open>recv\<close>, not to its end as the body is: a reply whose
  first segment holds less than four bytes is refused as a closed connection although the whole
  frame is on its way, and what is left of it stays in the stream for the next call.
\<close>

theorem split_prefix_refused:
  assumes "length q < 2 ^ 32" "0 < length s0" "length s0 < 4" "s0 @ concat ss = frame r"
  shows "exchange q \<lparr>sk_sent = out, sk_segments = s0 # ss\<rparr> =
     (Raise ConnectionError, \<lparr>sk_sent = out @ frame q, sk_segments = ss\<rparr>)"
proof -
  obtain h where "pack_be (length q) = Ok h" using pack_unpack [OF assms(1)] by blast
  then show ?thesis using assms(3) by (simp add: exchange_def frame_def Let_def)
qed

lemma split_prefix_refused_witness:
  "exchange [1] \<lparr>sk_sent = [], sk_segments = [0, 0] # [[0, 1, 9]]\<rparr> =
     (Raise ConnectionError, \<lparr>sk_sent = [] @ frame [1], sk_segments = [[0, 1, 9]]\<rparr>)"
  by (rule split_prefix_refused [where r = "[9]"]) (simp_all add: frame_def pack_be_def)

end
