(* ===== verification/VenueAdapters.thy ===== *)
theory VenueAdapters
  imports CortexEngine
begin

text \<open>
  The MetaTrader connector (\<open>adapters/adapters/venue_plugins/mt5_adapter/adapter.py\<close>) and the
  plugin loader (\<open>adapters/adapters/discovery_agent.py\<close>). The terminal library, manifest
  validation and what a plugin's module does are parameters.
\<close>

section \<open>The MetaTrader connector\<close>

record mt5_request =
  mr_symbol :: string
  mr_volume :: pyfloat
  mr_buy :: bool
  mr_price :: pyfloat

text \<open>The attributes the adapter reads of an order result and of an account.\<close>

record mt5_result =
  ms_retcode :: int
  ms_deal :: string
  ms_price :: pyfloat
  ms_volume :: pyfloat

record mt5_account =
  ma_equity :: pyfloat
  ma_balance :: pyfloat
  ma_margin_free :: pyfloat
  ma_leverage :: int

text \<open>The terminal library with a state of its own; \<open>Some visible\<close> for a known symbol.\<close>

record 't terminal =
  mt_initialize :: "'t \<Rightarrow> bool \<times> 't"
  mt_login :: "int \<Rightarrow> string \<Rightarrow> string \<Rightarrow> 't \<Rightarrow> bool \<times> 't"
  mt_shutdown :: "'t \<Rightarrow> 't"
  mt_account :: "'t \<Rightarrow> mt5_account option"
  mt_symbol :: "string \<Rightarrow> 't \<Rightarrow> bool option"
  mt_select :: "string \<Rightarrow> 't \<Rightarrow> 't"
  mt_tick :: "string \<Rightarrow> 't \<Rightarrow> (pyfloat \<times> pyfloat) option"
  mt_send :: "mt5_request \<Rightarrow> 't \<Rightarrow> mt5_result option \<times> 't"
  mt_done :: int

record 't mt5 =
  m5_login :: "int option"
  m5_password :: "string option"
  m5_server :: "string option"
  m5_connected :: bool
  m5_terminal :: 't

text \<open>The library is \<open>None\<close> when it is not installed. Credentials count when all are truthy.\<close>

definition credentials :: "'t mt5 \<Rightarrow> (int \<times> string \<times> string) option" where
  "credentials m = (case (m5_login m, m5_password m, m5_server m) of
      (Some l, Some p, Some s) \<Rightarrow> if l \<noteq> 0 \<and> p \<noteq> [] \<and> s \<noteq> [] then Some (l, p, s) else None
    | _ \<Rightarrow> None)"

definition mt5_connect :: "'t terminal option \<Rightarrow> 't mt5 \<Rightarrow> bool \<times> 't mt5" where
  "mt5_connect lib m =
     (case lib of
        None \<Rightarrow> (True, m\<lparr>m5_connected := True\<rparr>)
      | Some T \<Rightarrow>
          (let (ok, t) = mt_initialize T (m5_terminal m); m1 = m\<lparr>m5_terminal := t\<rparr> in
           if \<not> ok then (False, m1)
           else case credentials m of
               None \<Rightarrow> (True, m1\<lparr>m5_connected := True\<rparr>)
             | Some (l, p, s) \<Rightarrow>
                 (let (granted, t') = mt_login T l p s t in
                  if granted then (True, m1\<lparr>m5_terminal := t', m5_connected := True\<rparr>)
                  else (False, m1\<lparr>m5_terminal := mt_shutdown T t'\<rparr>))))"

definition mt5_disconnect :: "'t terminal option \<Rightarrow> 't mt5 \<Rightarrow> 't mt5" where
  "mt5_disconnect lib m =
     (let t = (if m5_connected m then case lib of None \<Rightarrow> m5_terminal m | Some T \<Rightarrow> mt_shutdown T (m5_terminal m)
               else m5_terminal m)
      in m\<lparr>m5_terminal := t, m5_connected := False\<rparr>)"

text \<open>The account; \<open>None\<close> is the empty dictionary.\<close>

definition get_account_state :: "'t terminal option \<Rightarrow> 't mt5 \<Rightarrow> mt5_account option result" where
  "get_account_state lib m =
     (if \<not> m5_connected m then Raise ConnectionError
      else case lib of
          None \<Rightarrow> Ok (Some \<lparr>ma_equity = 0, ma_balance = 0, ma_margin_free = 0, ma_leverage = 0\<rparr>)
        | Some T \<Rightarrow> Ok (mt_account T (m5_terminal m)))"

text \<open>The quote (ask, bid) of a symbol.\<close>

definition get_live_tick :: "'t terminal option \<Rightarrow> string \<Rightarrow> 't mt5 \<Rightarrow> (pyfloat \<times> pyfloat) option" where
  "get_live_tick lib symbol m = (case lib of None \<Rightarrow> Some (0, 0) | Some T \<Rightarrow> mt_tick T symbol (m5_terminal m))"

definition send_order ::
    "'t terminal \<Rightarrow> order_intent \<Rightarrow> 't mt5 \<Rightarrow> 't mt5 \<times> execution_receipt result" where
  "send_order T i m =
     (let t = m5_terminal m;
          t1 = (if mt_symbol T (oi_asset i) t = Some True then t else mt_select T (oi_asset i) t)
      in case mt_tick T (oi_asset i) t1 of
           None \<Rightarrow> (m\<lparr>m5_terminal := t1\<rparr>, Raise AttributeError)
         | Some (ask, bid) \<Rightarrow>
             (let buy = (oi_side i = Buy);
                  request = \<lparr>mr_symbol = oi_asset i, mr_volume = oi_quantity i, mr_buy = buy,
                              mr_price = (if buy then ask else bid)\<rparr>;
                  (res, t2) = mt_send T request t1;
                  price = (case res of None \<Rightarrow> 0 | Some r \<Rightarrow> ms_price r);
                  volume = (case res of None \<Rightarrow> oi_quantity i | Some r \<Rightarrow> ms_volume r);
                  deal = (case res of None \<Rightarrow> ''none'' | Some r \<Rightarrow> ms_deal r);
                  code = (case res of None \<Rightarrow> -1 | Some r \<Rightarrow> ms_retcode r)
              in (m\<lparr>m5_terminal := t2\<rparr>,
                  Ok \<lparr>rc_intent = oi_id i, rc_execution = deal, rc_price = price, rc_quantity = volume,
                      rc_status = (if code = mt_done T then FILLED else REJECTED)\<rparr>)))"

definition mt5_execute ::
    "'t terminal option \<Rightarrow> order_intent \<Rightarrow> 't mt5 \<Rightarrow> 't mt5 \<times> execution_receipt result" where
  "mt5_execute lib i m =
     (if \<not> m5_connected m then (m, Raise ConnectionError)
      else case lib of
          None \<Rightarrow> (m, Ok \<lparr>rc_intent = oi_id i, rc_execution = ''mt5-dryrun'', rc_price = 0, rc_quantity = 0,
                          rc_status = DRY_RUN\<rparr>)
        | Some T \<Rightarrow> send_order T i m)"

definition mt5_venue :: "'t terminal option \<Rightarrow> 't mt5 venue" where
  "mt5_venue lib = \<lparr>v_healthy = m5_connected, v_execute = mt5_execute lib\<rparr>"

interpretation mt5: receipt_adapter "mt5_execute lib"
  by unfold_locales
    (auto simp: mt5_execute_def send_order_def Let_def split: option.splits if_splits prod.splits)

section \<open>Loading plugins\<close>

text \<open>
  One directory with a manifest: the decoded manifest (\<open>None\<close> when unreadable or not JSON), whether
  the module can be located, what executing it does, and its \<open>AdapterFactory\<close>, which may be
  missing, raise, or return something (an adapter or not).
\<close>

datatype 'a factory = Missing | Makes "'a option result"

record 'a plugin =
  pl_name :: string
  pl_manifest :: "json option"
  pl_importable :: bool
  pl_exec :: "unit result"
  pl_factory :: "'a factory"

text \<open>The errors the manifest stage catches; a manifest that cannot be read or decoded is \<open>None\<close>.\<close>

definition manifest_error :: "py_error \<Rightarrow> bool" where
  "manifest_error e \<longleftrightarrow> e = JSONDecodeError \<or> e = KeyError \<or> is_os_error e"

text \<open>
  \<open>load_active_plugins\<close> over the manifests in path order. The second component lists the plugins
  whose code was executed.
\<close>

fun load_plugins ::
    "(json \<Rightarrow> string list result) \<Rightarrow> 'a plugin list \<Rightarrow> (string \<times> 'a) list \<Rightarrow> string list
       \<Rightarrow> (string \<times> 'a) list result \<times> string list" where
  "load_plugins validate [] loaded executed = (Ok loaded, executed)"
| "load_plugins validate (p # ps) loaded executed =
     (case pl_manifest p of
        None \<Rightarrow> load_plugins validate ps loaded executed
      | Some manifest \<Rightarrow>
          (case validate manifest of
             Inl e \<Rightarrow> if manifest_error e then load_plugins validate ps loaded executed else (Raise e, executed)
           | Inr (_ # _) \<Rightarrow> load_plugins validate ps loaded executed
           | Inr [] \<Rightarrow>
               if \<not> pl_importable p then load_plugins validate ps loaded executed
               else (let executed' = executed @ [pl_name p] in
                 case pl_exec p of
                   Inl e \<Rightarrow> (Raise e, executed')
                 | Inr _ \<Rightarrow>
                     (case pl_factory p of
                        Missing \<Rightarrow> load_plugins validate ps loaded executed'
                      | Makes (Inl e) \<Rightarrow> (Raise e, executed')
                      | Makes (Inr None) \<Rightarrow> load_plugins validate ps loaded executed'
                      | Makes (Inr (Some a)) \<Rightarrow> load_plugins validate ps (AList.update (pl_name p) a loaded) executed'))))"

definition load_active_plugins ::
    "(json \<Rightarrow> string list result) \<Rightarrow> 'a plugin list option \<Rightarrow> (string \<times> 'a) list result \<times> string list" where
  "load_active_plugins validate dir = (case dir of None \<Rightarrow> (Ok [], []) | Some ps \<Rightarrow> load_plugins validate ps [] [])"

section \<open>Properties of the connector\<close>

definition quiet_terminal :: "mt5_result option \<Rightarrow> unit terminal" where
  "quiet_terminal answer =
     \<lparr>mt_initialize = (\<lambda>t. (True, t)), mt_login = (\<lambda>_ _ _ t. (True, t)), mt_shutdown = (\<lambda>t. t),
      mt_account = (\<lambda>_. None), mt_symbol = (\<lambda>_ _. Some True), mt_select = (\<lambda>_ t. t),
      mt_tick = (\<lambda>_ _. Some (Fin 2, Fin 1)), mt_send = (\<lambda>_ t. (answer, t)), mt_done = 10009\<rparr>"

text \<open>
  Two receipts say more than happened. When the terminal gives no result the receipt is
  REJECTED but claims the whole quantity was filled, at price 0; and when it fills a part the
  receipt is FILLED, never PARTIAL_FILL, with the smaller quantity.
\<close>

theorem mt5_receipts_overstate:
  "(case mt5_execute (Some (quiet_terminal None)) i
       \<lparr>m5_login = None, m5_password = None, m5_server = None, m5_connected = True, m5_terminal = ()\<rparr> of
      (_, Inr r) \<Rightarrow> rc_status r = REJECTED \<and> rc_quantity r = oi_quantity i \<and> rc_price r = 0
    | _ \<Rightarrow> False) \<and>
   (case mt5_execute (Some (quiet_terminal (Some \<lparr>ms_retcode = 10009, ms_deal = ''7'', ms_price = Fin 2, ms_volume = part\<rparr>))) i
       \<lparr>m5_login = None, m5_password = None, m5_server = None, m5_connected = True, m5_terminal = ()\<rparr> of
      (_, Inr r) \<Rightarrow> rc_status r = FILLED \<and> rc_quantity r = part
    | _ \<Rightarrow> False)"
  by (simp add: mt5_execute_def send_order_def quiet_terminal_def Let_def)

text \<open>
  A refused login closes the terminal again: connecting leaves the adapter connected exactly
  when it answers True, or was connected before.
\<close>

theorem mt5_connect_state:
  "(case mt5_connect lib m of (ok, m') \<Rightarrow>
      m5_connected m' = (ok \<or> m5_connected m) \<and> credentials m' = credentials m \<and>
      (case lib of
         None \<Rightarrow> ok
       | Some T \<Rightarrow> (if \<not> ok \<and> fst (mt_initialize T (m5_terminal m))
                    then \<exists>t. m5_terminal m' = mt_shutdown T t else True)))"
  by (auto simp: mt5_connect_def Let_def credentials_def split: option.splits prod.splits if_splits)

section \<open>Properties of the loader\<close>

definition conformant :: "(json \<Rightarrow> string list result) \<Rightarrow> 'a plugin \<Rightarrow> bool" where
  "conformant validate p = (case pl_manifest p of None \<Rightarrow> False | Some m \<Rightarrow> validate m = Ok [] \<and> pl_importable p)"

text \<open>The adapter a plugin yields when its code runs through.\<close>

definition adapter_of :: "'a plugin \<Rightarrow> 'a option" where
  "adapter_of p = (case (pl_exec p, pl_factory p) of (Inr _, Makes (Inr a)) \<Rightarrow> a | _ \<Rightarrow> None)"

text \<open>What a run of the loader from a given point may end with.\<close>

definition gated ::
    "(json \<Rightarrow> string list result) \<Rightarrow> 'a plugin list \<Rightarrow> (string \<times> 'a) list \<Rightarrow> string list
       \<Rightarrow> (string \<times> 'a) list result \<times> string list \<Rightarrow> bool" where
  "gated validate ps loaded executed out =
     (case out of (r, executed') \<Rightarrow>
        (\<exists>new. executed' = executed @ map pl_name new \<and> subseq new ps \<and> list_all (conformant validate) new \<and>
           (case r of
              Inl _ \<Rightarrow> True
            | Inr l \<Rightarrow> new = filter (conformant validate) ps \<and>
                l = fold (\<lambda>p l. case adapter_of p of None \<Rightarrow> l | Some a \<Rightarrow> AList.update (pl_name p) a l) new loaded)))"

lemma gated_skip:
  "\<not> conformant validate p \<Longrightarrow> gated validate ps loaded executed out \<Longrightarrow> gated validate (p # ps) loaded executed out"
  unfolding gated_def by (cases out; cases "fst out") (force intro: list_emb_Cons)+

lemma gated_run:
  assumes "conformant validate p" "gated validate ps loaded' (executed @ [pl_name p]) out"
    "loaded' = (case adapter_of p of None \<Rightarrow> loaded | Some a \<Rightarrow> AList.update (pl_name p) a loaded)"
  shows "gated validate (p # ps) loaded executed out"
proof -
  obtain r x where out: "out = (r, x)" by (cases out)
  obtain new where "x = executed @ pl_name p # map pl_name new" "subseq new ps" "list_all (conformant validate) new"
    "case r of Inl _ \<Rightarrow> True | Inr l \<Rightarrow> new = filter (conformant validate) ps \<and>
       l = fold (\<lambda>p l. case adapter_of p of None \<Rightarrow> l | Some a \<Rightarrow> AList.update (pl_name p) a l) new loaded'"
    using assms(2) unfolding gated_def out by auto
  then show ?thesis
    unfolding gated_def out using assms(1,3)
    by (auto intro!: exI [of _ "p # new"] split: sum.splits)
qed

lemma gated_raise: "gated validate (p # ps) loaded executed (Inl e, executed)"
  unfolding gated_def by (auto intro!: exI [of _ "[]"])

lemma gated_run_raise: "conformant validate p \<Longrightarrow> gated validate (p # ps) loaded executed (Inl e, executed @ [pl_name p])"
  unfolding gated_def by (auto intro!: exI [of _ "[p]"])

lemma load_rejected:
  "\<not> conformant validate p \<Longrightarrow>
     load_plugins validate (p # ps) l x = load_plugins validate ps l x \<or>
     (\<exists>e. load_plugins validate (p # ps) l x = (Raise e, x))"
  by (auto simp: conformant_def split: option.splits sum.splits list.splits)

lemma load_conformant:
  "conformant validate p \<Longrightarrow>
     (\<exists>e. load_plugins validate (p # ps) l x = (Raise e, x @ [pl_name p])) \<or>
     load_plugins validate (p # ps) l x =
       load_plugins validate ps (case adapter_of p of None \<Rightarrow> l | Some a \<Rightarrow> AList.update (pl_name p) a l) (x @ [pl_name p])"
  by (auto simp: conformant_def adapter_of_def Let_def split: option.splits sum.splits list.splits factory.splits)

lemma load_plugins_gated: "gated validate ps loaded executed (load_plugins validate ps loaded executed)"
proof (induction ps arbitrary: loaded executed)
  case Nil
  show ?case by (simp add: gated_def)
next
  case (Cons p ps)
  show ?case
  proof (cases "conformant validate p")
    case False
    then show ?thesis
      using load_rejected [OF False, of ps loaded executed] gated_skip [OF False Cons.IH] gated_raise by metis
  next
    case True
    then show ?thesis
      using load_conformant [OF True, of ps loaded executed] gated_run [OF True Cons.IH refl] gated_run_raise [OF True]
      by metis
  qed
qed

text \<open>
  C16: No plugin code runs before its manifest has passed: whatever the plugins do, those whose
  module is executed are conformant ones, in order. When the load completes, every conformant
  plugin was executed and the result holds, under its name, the adapter of each one whose
  factory returned an adapter, and nothing else.
\<close>

theorem only_conformant_plugins_run:
  "(case load_active_plugins validate (Some ps) of (r, executed) \<Rightarrow>
      (\<exists>new. executed = map pl_name new \<and> subseq new ps \<and> list_all (conformant validate) new \<and>
         (case r of
            Inl _ \<Rightarrow> True
          | Inr loaded \<Rightarrow> new = filter (conformant validate) ps \<and>
              map_of loaded = map_of (rev (List.map_filter (\<lambda>p. map_option (Pair (pl_name p)) (adapter_of p)) new)))))"
proof -
  have upd: "map_of (fold (\<lambda>p l. case adapter_of p of None \<Rightarrow> l | Some a \<Rightarrow> AList.update (pl_name p) a l) new l) =
      map_of l ++ map_of (rev (List.map_filter (\<lambda>p. map_option (Pair (pl_name p)) (adapter_of p)) new))" for new :: "'a plugin list" and l
    by (induction new arbitrary: l) (auto simp: map_filter_simps map_of_update fun_eq_iff map_add_def split: option.splits)
  obtain r x where o: "load_plugins validate ps [] [] = (r, x)" by fastforce
  from load_plugins_gated [of validate ps "[]" "[]"] obtain new where
    new: "x = map pl_name new" "subseq new ps" "list_all (conformant validate) new"
    "case r of Inl _ \<Rightarrow> True | Inr l \<Rightarrow> new = filter (conformant validate) ps \<and>
       l = fold (\<lambda>p l. case adapter_of p of None \<Rightarrow> l | Some a \<Rightarrow> AList.update (pl_name p) a l) new []"
    unfolding gated_def o by auto
  have "load_active_plugins validate (Some ps) = (r, x)" by (simp add: load_active_plugins_def o)
  then show ?thesis
    using new by (cases r) (auto simp: upd intro!: exI [of _ new])
qed

text \<open>
  One broken plugin takes all venues down: an exception in the module of a conformant plugin, or
  in its factory, is not caught, so the load raises and the adapters found before are lost.
\<close>

theorem broken_plugin_loses_all:
  assumes "conformant validate p" "list_all (\<lambda>q. conformant validate q \<and> adapter_of q \<noteq> None) good"
    and "pl_exec p = Raise e \<or> (pl_exec p = Ok () \<and> pl_factory p = Makes (Raise e))"
  shows "load_active_plugins validate (Some (good @ p # rest)) = (Raise e, map pl_name (good @ [p]))"
proof -
  have "load_plugins validate (good @ p # rest) l x = (Raise e, x @ map pl_name (good @ [p]))" for l x
    using assms(2)
  proof (induction good arbitrary: l x)
    case Nil
    then show ?case using assms(1,3) by (auto simp: conformant_def split: option.splits)
  next
    case (Cons q good)
    then show ?case
      by (auto simp: conformant_def adapter_of_def Let_def split: option.splits sum.splits factory.splits)
  qed
  then show ?thesis by (simp add: load_active_plugins_def)
qed

definition sample_plugin :: "string \<Rightarrow> unit result \<Rightarrow> nat plugin" where
  "sample_plugin n ex = \<lparr>pl_name = n, pl_manifest = Some JNull, pl_importable = True, pl_exec = ex,
     pl_factory = Makes (Ok (Some 7))\<rparr>"

lemma broken_plugin_loses_all_witness:
  "load_active_plugins (\<lambda>_. Ok []) (Some ([sample_plugin ''mock'' (Ok ())] @ sample_plugin ''mt5'' (Raise RuntimeError) # [])) =
     (Raise RuntimeError, map pl_name ([sample_plugin ''mock'' (Ok ())] @ [sample_plugin ''mt5'' (Raise RuntimeError)]))"
  by (rule broken_plugin_loses_all) (simp_all add: conformant_def adapter_of_def sample_plugin_def)

end
