(* ===== verification/Governance.thy ===== *)
theory Governance
  imports CortexEngine
begin

text \<open>
  The compliance auditors (\<open>compliance/compliance/tax_parser.py\<close>, \<open>structural_shift.py\<close>,
  \<open>governance/multisig_dao.py\<close>) and the bootstrap agent of \<open>cortex/cortex/agent_marl.py\<close>.
\<close>

section \<open>Tax rates and restricted assets\<close>

definition active_jurisdiction_rules :: "(string \<times> pyfloat) list" where
  "active_jurisdiction_rules =
     [(''GLOBAL_STANDARD'', lit (15/100)), (''RESTRICTED_ZONE_A'', lit (35/100)), (''TAX_HAVEN_OPTIMIZED'', lit (5/100))]"

definition fetch_current_tax_rate :: "(string \<times> pyfloat) list \<Rightarrow> string \<Rightarrow> pyfloat" where
  "fetch_current_tax_rate rules j = (case map_of rules j of None \<Rightarrow> lit (20/100) | Some r \<Rightarrow> r)"

definition audit_compliance_status :: "string \<Rightarrow> string \<Rightarrow> bool" where
  "audit_compliance_status asset j \<longleftrightarrow> asset \<notin> set [''BANNED_TOKEN_X'', ''SANCTIONED_ASSET_Y'']"

section \<open>Jurisdictional routing\<close>

definition initial_jurisdiction :: string where "initial_jurisdiction = ''TAX_HAVEN_OPTIMIZED''"

definition evaluate_and_shift :: "pyfloat \<Rightarrow> string \<Rightarrow> string" where
  "evaluate_and_shift score current = (if lit (85/100) < score then ''GLOBAL_STANDARD'' else current)"

fun shift_all :: "pyfloat list \<Rightarrow> string \<Rightarrow> string list" where
  "shift_all [] current = []"
| "shift_all (x # xs) current =
     (let j = evaluate_and_shift x current in j # shift_all xs j)"

section \<open>The governance override\<close>

record 's dao =
  da_threshold :: int
  da_locked :: bool

definition request_override :: "'s dao \<Rightarrow> 's list \<Rightarrow> bool" where
  "request_override d signatures \<longleftrightarrow> \<not> (da_locked d \<and> int (length signatures) < da_threshold d)"

section \<open>The bootstrap agent\<close>

definition conviction :: "pyfloat \<Rightarrow> pyfloat" where
  "conviction signal = py_min (py_max signal (lit (1/100))) (lit (5/100))"

definition evaluate_market_and_propose :: "string \<Rightarrow> string \<Rightarrow> string \<Rightarrow> pyfloat \<Rightarrow> pyfloat \<Rightarrow> trade_proposal result" where
  "evaluate_market_and_propose agent fresh asset signal equity =
     validate_proposal
       \<lparr>tp_id = agent @ CHR ''-'' # fresh, tp_asset = asset,
        tp_direction = (if 0 < signal then Buy else Sell),
        tp_notional = py_round 2 (py_max (equity * conviction signal) 1),
        tp_slippage = lit (1/1000)\<rparr>"

section \<open>Properties\<close>

lemma shift_all_nth:
  "i < length xs \<Longrightarrow> shift_all xs c ! i =
     (if list_ex (\<lambda>x. lit (85/100) < x) (take (Suc i) xs) then ''GLOBAL_STANDARD'' else c)"
proof (induction xs arbitrary: c i)
  case (Cons x xs)
  then show ?case by (cases i) (auto simp: Let_def evaluate_and_shift_def)
qed simp

lemma length_shift_all [simp]: "length (shift_all xs c) = length xs"
  by (induction xs arbitrary: c) (simp_all add: Let_def)

text \<open>
  Routing is a latch. The jurisdiction reported after each score is the global standard if any
  score so far exceeded 0.85 and the initial one otherwise; however low the pressure falls
  afterwards, and for a score that is not a number, it never shifts back. The tax rate goes from
  5 to 15 percent once and stays.
\<close>

theorem routing_is_latch:
  "shift_all scores initial_jurisdiction =
     map (\<lambda>i. if list_ex (\<lambda>x. lit (85/100) < x) (take (Suc i) scores) then ''GLOBAL_STANDARD'' else ''TAX_HAVEN_OPTIMIZED'')
       [0..<length scores] \<and>
   fetch_current_tax_rate active_jurisdiction_rules initial_jurisdiction = lit (5/100) \<and>
   fetch_current_tax_rate active_jurisdiction_rules ''GLOBAL_STANDARD'' = lit (15/100)"
proof (intro conjI)
  show "shift_all scores initial_jurisdiction =
     map (\<lambda>i. if list_ex (\<lambda>x. lit (85/100) < x) (take (Suc i) scores) then ''GLOBAL_STANDARD'' else ''TAX_HAVEN_OPTIMIZED'')
       [0..<length scores]"
    by (rule nth_equalityI) (simp_all add: shift_all_nth initial_jurisdiction_def)
qed (simp_all add: fetch_current_tax_rate_def active_jurisdiction_rules_def initial_jurisdiction_def)

text \<open>
  The override counts signatures and reads none: whether it is granted depends only on how many
  were handed in, so five copies of one invalid signature open it; the lock that is permanent
  by design never refuses a list as long as the threshold.
\<close>

theorem override_counts_only:
  "request_override d xs = request_override d (replicate (length xs) junk) \<and>
   request_override \<lparr>da_threshold = 5, da_locked = True\<rparr> (replicate 5 junk) \<and>
   \<not> request_override \<lparr>da_threshold = 5, da_locked = True\<rparr> (replicate 4 junk)"
  by (simp add: request_override_def)

lemma conviction_bounds: "signal \<noteq> NaN \<Longrightarrow> lit (1/100) \<le> conviction signal \<and> conviction signal \<le> lit (5/100)"
proof -
  assume s: "signal \<noteq> NaN"
  have l: "lit (1/100) \<le> lit (5/100)" by (rule to_f64_mono) simp
  show ?thesis
    using s l by (auto simp: conviction_def py_min_def py_max_def float_not_less float_le_refl dest: float_less_imp_le)
qed

text \<open>
  The bootstrap agent sells only at its smallest size: a signal that is not positive, however
  strong, is clamped to a conviction of 1 percent, while buys range from 1 to 5 percent.
\<close>

theorem sells_at_minimum:
  "(case evaluate_market_and_propose agent fresh asset signal equity of
      Inl e \<Rightarrow> e = ValidationError
    | Inr p \<Rightarrow> 0 < tp_notional p \<and>
        (if tp_direction p = Sell
         then tp_notional p = py_round 2 (py_max (equity * (if signal = NaN then NaN else lit (1/100))) 1)
         else lit (1/100) \<le> conviction signal \<and> conviction signal \<le> lit (5/100)))"
proof -
  have pos: "(0::pyfloat) < lit (1/100)" by code_simp
  have l: "lit (1/100) < lit (5/100)" by code_simp
  have sell: "conviction signal = lit (1/100)" if n: "\<not> 0 < signal" and s: "signal \<noteq> NaN"
  proof -
    have "signal < lit (1/100)" using n s pos float_not_less [of signal 0]
      by (metis float_trans(3) float_not_less zero_pyfloat_def pyfloat.distinct(5))
    then show ?thesis using l float_less_asym float_less_imp_le by (auto simp: conviction_def py_max_def py_min_def)
  qed
  have nan: "conviction NaN = NaN" by (simp add: conviction_def py_max_def py_min_def)
  show ?thesis
  proof (cases "0 < signal")
    case True
    then have "signal \<noteq> NaN" by auto
    with True conviction_bounds [OF this] show ?thesis
      by (auto simp: evaluate_market_and_propose_def validate_proposal_def split: sum.splits if_splits)
  next
    case False
    then show ?thesis using sell nan
      by (auto simp: evaluate_market_and_propose_def validate_proposal_def split: sum.splits if_splits)
  qed
qed

end
