(* ===== verification/Boot.thy ===== *)
theory Boot
  imports ConstitutionClient Evolution "HOL-Library.Multiset"
begin

text \<open>
  What the orchestrator of \<open>centaur_start.py\<close> does around its services: the health probe of the
  kernel, the search for the kernel's process, and the rotation of the service logs at boot.
\<close>

section \<open>The health probe\<close>

definition alive_needle :: bytes where
  "alive_needle = map of_char ''\"alive\":true''"

text \<open>The body loop of \<open>_probe_constitution\<close>: it stops early when the peer closes.\<close>

function read_upto :: "nat \<Rightarrow> bytes list \<Rightarrow> bytes" where
  "read_upto n ss =
     (if n = 0 then []
      else let (chunk, ss') = recv n ss in if chunk = [] then [] else chunk @ read_upto (n - length chunk) ss')"
  by pat_completeness auto
termination by (relation "measure fst") auto

declare read_upto.simps [simp del]

text \<open>
  The segments are what the kernel sends in answer; \<open>stalls\<close> says that it then keeps the connection
  open until the timeout instead of closing it. \<open>None\<close> is a refused connection.
\<close>

definition probe_constitution :: "bytes list option \<Rightarrow> bool \<Rightarrow> bool" where
  "probe_constitution answer stalls =
     (case answer of
        None \<Rightarrow> False
      | Some segments \<Rightarrow>
          (let (header, ss) = recv 4 segments in
           if length header \<noteq> 4 then False
           else let n = unpack_be header in
             if n = 0 \<or> 16384 < n then False
             else let resp = read_upto n ss in
               if length resp < n \<and> stalls then False else sublist alive_needle resp))"

section \<open>The owner of the kernel's port\<close>

definition last_token :: "string \<Rightarrow> string" where
  "last_token line = rev (takeWhile (\<lambda>c. \<not> is_space c) (dropWhile is_space (rev line)))"

fun after_last :: "string \<Rightarrow> string \<Rightarrow> string" where
  "after_last p [] = []"
| "after_last p (c # cs) =
     (if contains p cs then after_last p cs
      else if prefix p (c # cs) then drop (length p) (c # cs) else c # cs)"

definition port_line :: "bool \<Rightarrow> nat \<Rightarrow> string \<Rightarrow> bool" where
  "port_line nt port line \<longleftrightarrow>
     contains (CHR '':'' # digits_of port @ '' '') line \<and> (nt \<longrightarrow> contains ''LISTENING'' line)"

definition pid_token :: "bool \<Rightarrow> string \<Rightarrow> string" where
  "pid_token nt line =
     (if nt then last_token line
      else takeWhile (\<lambda>c. c \<noteq> CHR '','') (after_last ''pid='' (last_token line)))"

text \<open>\<open>None\<close> is a listing that could not be run.\<close>

definition constitution_owner_pid :: "bool \<Rightarrow> nat \<Rightarrow> string list option \<Rightarrow> nat" where
  "constitution_owner_pid nt port listing =
     (case listing of
        None \<Rightarrow> 0
      | Some ls \<Rightarrow>
          (case find (port_line nt port) ls of
             None \<Rightarrow> 0
           | Some line \<Rightarrow>
               (let t = pid_token nt line in if t \<noteq> [] \<and> list_all is_digit t then number_of t else 0)))"

section \<open>Log rotation\<close>

text \<open>The log directory in name order, with modification times; \<open>locked\<close> files cannot be touched.\<close>

type_synonym log_dir = "(string \<times> int) list"

definition log_stem :: "string \<Rightarrow> string" where
  "log_stem n = take (length n - 4) n"

definition rotated_name :: "string \<Rightarrow> string \<Rightarrow> string" where
  "rotated_name stamp n = log_stem n @ ''.'' @ stamp @ ''.rotated.log''"

definition rename_log :: "string \<Rightarrow> string \<Rightarrow> log_dir \<Rightarrow> log_dir" where
  "rename_log n dest d = map (\<lambda>(m, t). if m = n then (dest, t) else (m, t)) (filter (\<lambda>(m, _). m \<noteq> dest) d)"

fun rotate_each :: "(string \<Rightarrow> bool) \<Rightarrow> string \<Rightarrow> string list \<Rightarrow> log_dir \<times> string list \<Rightarrow> log_dir \<times> string list" where
  "rotate_each locked stamp [] (d, stems) = (d, stems)"
| "rotate_each locked stamp (n # ns) (d, stems) =
     (if n = ''centaur.log'' \<or> locked n then rotate_each locked stamp ns (d, stems)
      else rotate_each locked stamp ns (rename_log n (rotated_name stamp n) d, List.insert (log_stem n) stems))"

definition generation_of :: "string \<Rightarrow> string \<Rightarrow> bool" where
  "generation_of stem n \<longleftrightarrow> prefix (stem @ ''.'') n \<and> suffix ''.rotated.log'' n \<and>
     length stem + 1 + length ''.rotated.log'' \<le> length n"

definition generations :: "string \<Rightarrow> log_dir \<Rightarrow> log_dir" where
  "generations stem d = sort_key snd (filter (\<lambda>(n, _). generation_of stem n) d)"

definition prune :: "(string \<Rightarrow> bool) \<Rightarrow> string \<Rightarrow> log_dir \<Rightarrow> log_dir" where
  "prune locked stem d =
     (let old = map fst (take (length (generations stem d) - 3) (generations stem d))
      in filter (\<lambda>(n, _). locked n \<or> n \<notin> set old) d)"

definition rotate_service_logs :: "(string \<Rightarrow> bool) \<Rightarrow> string \<Rightarrow> log_dir \<Rightarrow> log_dir" where
  "rotate_service_logs locked stamp d =
     (let (d', stems) = rotate_each locked stamp (filter (suffix ''.log'') (map fst d)) (d, [])
      in fold (prune locked) stems d')"

section \<open>The probe reads the whole answer\<close>

lemma read_upto_take:
  "list_all (\<lambda>s. s \<noteq> []) ss \<Longrightarrow> read_upto n ss = take n (concat ss)"
proof (induction n ss rule: read_upto.induct)
  case (1 n ss)
  show ?case
  proof (cases "n = 0 \<or> ss = []")
    case True
    then show ?thesis by (auto simp: read_upto.simps)
  next
    case False
    then obtain s rest where ss: "ss = s # rest" by (cases ss) auto
    define ss1 where "ss1 = (if length s \<le> n then rest else drop n s # rest)"
    have rv: "recv n ss = (take n s, ss1)" by (simp add: ss ss1_def)
    have ne: "take n s \<noteq> []" and all: "list_all (\<lambda>s. s \<noteq> []) ss1"
      using False "1.prems" by (auto simp: ss ss1_def)
    have n: "n \<noteq> 0" using False by simp
    from "1.IH" [OF n rv [symmetric] refl ne all]
    show ?thesis using n ne by (subst read_upto.simps) (auto simp: rv ss ss1_def min_def)
  qed
qed

text \<open>
  The probe's answer does not depend on how the reply is cut into segments after the length
  prefix: it is True exactly when the first n bytes of the body, n the announced length between 1
  and 16384, contain the alive marker. A body cut short by a close is searched all the same,
  one cut short by a stall is not.
\<close>

theorem probe_independent_of_segments:
  assumes "list_all (\<lambda>s. s \<noteq> []) ss" "length h = 4" "concat ss = body"
  shows "probe_constitution (Some ((h @ s0) # ss)) stalls =
     (0 < unpack_be h \<and> unpack_be h \<le> 16384 \<and>
      (unpack_be h \<le> length (s0 @ body) \<or> \<not> stalls) \<and>
      sublist alive_needle (take (unpack_be h) (s0 @ body)))"
proof -
  define ss1 where "ss1 = (if s0 = [] then ss else s0 # ss)"
  have rv: "recv 4 ((h @ s0) # ss) = (h, ss1)" using assms(2) by (auto simp: ss1_def)
  have r: "read_upto n ss1 = take n (s0 @ body)" for n
    using read_upto_take [of ss1 n] assms(1,3) by (auto simp: ss1_def)
  have "probe_constitution (Some ((h @ s0) # ss)) stalls =
      (if unpack_be h = 0 \<or> 16384 < unpack_be h then False
       else if length (take (unpack_be h) (s0 @ body)) < unpack_be h \<and> stalls then False
       else sublist alive_needle (take (unpack_be h) (s0 @ body)))"
    by (simp only: probe_constitution_def option.case Let_def rv prod.case r assms(2) simp_thms if_False)
  then show ?thesis by (auto simp: min_def simp del: take_append length_append)
qed

lemma probe_independent_of_segments_witness:
  "probe_constitution (Some (([0, 0, 0, 14] @ [123]) # [take 5 alive_needle, drop 5 alive_needle @ [125]])) True = True"
proof -
  have *: "list_all (\<lambda>s. s \<noteq> []) [take 5 alive_needle, drop 5 alive_needle @ [125]]"
    by (simp add: alive_needle_def)
  have n: "unpack_be [0, 0, 0, 14] = 14" by (simp add: unpack_be_def)
  have l: "length alive_needle = 12" by (simp add: alive_needle_def)
  have "sublist alive_needle ([123] @ alive_needle @ [125])" by (rule sublist_appendI)
  then show ?thesis
    using probe_independent_of_segments [OF *, of "[0, 0, 0, 14]" "alive_needle @ [125]" "[123]" True] l
    by (simp add: n)
qed

section \<open>The pid is read back\<close>

lemma digit_char: "n < 10 \<Longrightarrow> of_char (char_of (48 + n) :: char) = (48 + n :: nat)"
  by simp

lemma number_of_snoc: "number_of (s @ [c]) = 10 * number_of s + (of_char c - 48)"
  by (simp add: number_of_def)

lemma number_digits [simp]: "number_of (digits_of n) = n"
proof (induction n rule: digits_of.induct)
  case (1 n)
  show ?case
  proof (cases "n < 10")
    case True
    then show ?thesis by (simp add: digits_of.simps [of n] number_of_def)
  next
    case False
    have "n mod 10 < 10" by simp
    with 1 [OF False] False show ?thesis
      by (simp add: digits_of.simps [of n] number_of_snoc digit_char del: mod_less_divisor)
  qed
qed

lemma digits_digit: "c \<in> set (digits_of n) \<Longrightarrow> is_digit c"
proof (induction n rule: digits_of.induct)
  case (1 n)
  have d: "is_digit (char_of (48 + m))" if "m < 10" for m :: nat
    using that by (simp add: is_digit_def in_range_def)
  show ?case using 1 d by (subst (asm) (2) digits_of.simps) (auto split: if_splits)
qed

lemma digits_nonempty [simp]: "digits_of n \<noteq> []"
  by (simp add: digits_of.simps [of n])

lemma last_token_end:
  "tok \<noteq> [] \<Longrightarrow> list_all (\<lambda>c. \<not> is_space c) tok \<Longrightarrow> last_token (l @ '' '' @ tok) = tok"
proof -
  assume t: "tok \<noteq> []" "list_all (\<lambda>c. \<not> is_space c) tok"
  have "\<not> is_space (last tok)" using t by (simp add: list_all_iff)
  then have "dropWhile is_space (rev tok @ CHR '' '' # rev l) = rev tok @ CHR '' '' # rev l"
    using t(1) by (cases tok rule: rev_cases) auto
  moreover have "takeWhile (\<lambda>c. \<not> is_space c) (rev tok @ CHR '' '' # rev l) = rev tok"
    using t(2) by (subst takeWhile_append2) (auto simp: list_all_iff is_space_def)
  ultimately show ?thesis by (simp add: last_token_def)
qed

lemma after_last_pid: "\<not> contains ''pid='' d \<Longrightarrow> after_last ''pid='' (q @ ''pid='' @ d) = d"
proof (induction q)
  case (Cons c q)
  have "contains ''pid='' (q @ ''pid='' @ d)" unfolding contains_iff by blast
  with Cons show ?case by simp
qed simp

text \<open>
  On a POSIX host the pid that \<open>ss\<close> prints is the pid returned: for the first listing line of
  the port whose last column ends its process list with \<open>pid=N,\<close> and no further \<open>pid=\<close>, the answer
  is N, whatever surrounds it.
\<close>

theorem owner_pid_roundtrip:
  assumes "list_all (\<lambda>l. \<not> port_line False port l) before"
    and "contains (CHR '':'' # digits_of port @ '' '') cols"
    and "list_all (\<lambda>c. \<not> is_space c) (q @ ''pid='' @ digits_of pid @ CHR '','' # r)"
    and "\<not> contains ''pid='' (digits_of pid @ CHR '','' # r)"
  shows "constitution_owner_pid False port
     (Some (before @ (cols @ '' '' @ q @ ''pid='' @ digits_of pid @ CHR '','' # r) # rest)) = pid"
proof -
  let ?tok = "q @ ''pid='' @ digits_of pid @ CHR '','' # r"
  have hit: "port_line False port (cols @ '' '' @ ?tok)"
    using contains_sublist [OF assms(2), of "[]" "'' '' @ ?tok"] by (simp add: port_line_def)
  have "find (port_line False port) (before @ (cols @ '' '' @ ?tok) # rest) = Some (cols @ '' '' @ ?tok)"
    using assms(1) hit by (induction before) auto
  moreover have "takeWhile (\<lambda>c. c \<noteq> CHR '','') (digits_of pid @ CHR '','' # r) = digits_of pid"
    using digits_digit [of "CHR '',''" pid] by (subst takeWhile_append2) (auto simp: is_digit_def in_range_def)
  then have "pid_token False (cols @ '' '' @ ?tok) = digits_of pid"
    using last_token_end [of ?tok cols] after_last_pid [OF assms(4), of q] assms(3) by (simp add: pid_token_def)
  moreover have "list_all is_digit (digits_of pid)" using digits_digit by (auto simp: list_all_iff)
  ultimately show ?thesis by (simp add: constitution_owner_pid_def Let_def)
qed

lemma owner_pid_roundtrip_witness:
  "constitution_owner_pid False 15565
     (Some ([''State Recv-Q Local'', ''LISTEN 0 127.0.0.1:22 users'']
        @ (''LISTEN 0 127.0.0.1:15565 0.0.0.0:*'' @ '' '' @ ''users:((k,'' @ ''pid='' @ digits_of 4242 @ CHR '','' # ''fd=3))'') # [])) = 4242"
proof (rule owner_pid_roundtrip)
  have d: "digits_of 4242 = ''4242''" "digits_of 15565 = ''15565''" by (simp_all add: digits_of.simps, code_simp+)
  show "list_all (\<lambda>l. \<not> port_line False 15565 l) [''State Recv-Q Local'', ''LISTEN 0 127.0.0.1:22 users'']"
    unfolding port_line_def d by code_simp
  show "contains (CHR '':'' # digits_of 15565 @ '' '') ''LISTEN 0 127.0.0.1:15565 0.0.0.0:*''"
    unfolding d by code_simp
  show "list_all (\<lambda>c. \<not> is_space c) (''users:((k,'' @ ''pid='' @ digits_of 4242 @ CHR '','' # ''fd=3))'')"
    unfolding d by code_simp
  show "\<not> contains ''pid='' (digits_of 4242 @ CHR '','' # ''fd=3))'')"
    unfolding d by code_simp
qed

section \<open>What rotation leaves\<close>

lemma generation_not_centaur: "generation_of stem n \<Longrightarrow> n \<noteq> ''centaur.log''"
  by (auto simp: generation_of_def suffix_def)

lemma rotated_name_not_centaur: "rotated_name stamp n \<noteq> ''centaur.log''"
proof
  assume "rotated_name stamp n = ''centaur.log''"
  then have "drop (length (rotated_name stamp n) - 12) (rotated_name stamp n) = drop (length ''centaur.log'' - 12) ''centaur.log''"
    by simp
  then show False by (simp add: rotated_name_def)
qed

lemma rename_centaur: "n \<noteq> ''centaur.log'' \<Longrightarrow> (''centaur.log'', t) \<in> set d \<Longrightarrow> (''centaur.log'', t) \<in> set (rename_log n (rotated_name stamp n) d)"
  using rotated_name_not_centaur [of stamp n] by (force simp: rename_log_def)

lemma rotate_each_props:
  "rotate_each locked stamp ns (d, stems) = (d', stems') \<Longrightarrow>
     set stems' = set stems \<union> {log_stem n | n. n \<in> set ns \<and> n \<noteq> ''centaur.log'' \<and> \<not> locked n} \<and>
     ((''centaur.log'', t) \<in> set d \<longrightarrow> (''centaur.log'', t) \<in> set d')"
proof (induction ns arbitrary: d stems)
  case (Cons n ns)
  show ?case
  proof (cases "n = ''centaur.log'' \<or> locked n")
    case True
    with Cons.prems have "rotate_each locked stamp ns (d, stems) = (d', stems')" by auto
    from Cons.IH [OF this] True show ?thesis by auto
  next
    case False
    with Cons.prems have "rotate_each locked stamp ns (rename_log n (rotated_name stamp n) d, List.insert (log_stem n) stems) = (d', stems')"
      by auto
    from Cons.IH [OF this] False rename_centaur [of n t d stamp] show ?thesis by auto
  qed
qed simp

lemma prune_centaur: "(''centaur.log'', t) \<in> set d \<Longrightarrow> (''centaur.log'', t) \<in> set (prune locked stem d)"
  using generation_not_centaur [of stem "''centaur.log''"]
  by (auto simp: prune_def Let_def generations_def dest!: in_set_takeD)

lemma generations_length: "length (generations stem d) = length (filter (\<lambda>(n, _). generation_of stem n) d)"
  by (simp add: generations_def)

lemma prune_filter: "\<exists>P. prune locked stem d = filter P d"
  by (auto simp: prune_def Let_def)

lemma prune_le: "length (generations s (prune locked stem d)) \<le> length (generations s d)"
proof -
  obtain P where P: "prune locked stem d = filter P d" using prune_filter by blast
  have "filter (\<lambda>(n, _). generation_of s n) (filter P d) = filter P (filter (\<lambda>(n, _). generation_of s n) d)"
    unfolding filter_filter by (rule filter_cong) auto
  then show ?thesis unfolding P generations_length by (simp only: length_filter_le)
qed

lemma prune_three: "length (generations stem (prune (\<lambda>_. False) stem d)) \<le> 3"
proof -
  define g where "g = generations stem d"
  define k where "k = length g - 3"
  define Q where "Q = (\<lambda>(n, _ :: int). n \<notin> set (map fst (take k g)))"
  have p: "prune (\<lambda>_. False) stem d = filter Q d"
    by (simp add: prune_def Q_def k_def g_def Let_def)
  have "mset (filter (\<lambda>(n, _). generation_of stem n) d) = mset g" by (simp add: g_def generations_def)
  then have "length (generations stem (filter Q d)) = length (filter Q g)"
    unfolding generations_length filter_filter
    by (metis (no_types, lifting) filter_filter mset_filter size_mset conj_commute filter_cong)
  also have "\<dots> = length (filter Q (take k g) @ filter Q (drop k g))"
    by (metis append_take_drop_id filter_append)
  also have "filter Q (take k g) = []" by (force simp: Q_def filter_empty_conv)
  also have "length ([] @ filter Q (drop k g)) \<le> 3"
    using length_filter_le [of Q "drop k g"] by (simp add: k_def)
  finally show ?thesis by (simp add: p)
qed

lemma fold_prune:
  "s \<in> set stems \<Longrightarrow> length (generations s (fold (prune (\<lambda>_. False)) stems d)) \<le> 3"
proof (induction stems arbitrary: d rule: rev_induct)
  case (snoc x xs)
  show ?case
  proof (cases "s = x")
    case True
    then show ?thesis by (simp add: prune_three)
  next
    case False
    with snoc have "length (generations s (fold (prune (\<lambda>_. False)) xs d)) \<le> 3" by simp
    from order_trans [OF prune_le this] show ?thesis by simp
  qed
qed simp

lemma fold_prune_centaur: "(''centaur.log'', t) \<in> set d \<Longrightarrow> (''centaur.log'', t) \<in> set (fold (prune locked) stems d)"
  by (induction stems arbitrary: d) (simp_all add: prune_centaur)

text \<open>
  When no file is locked, rotation keeps \<open>centaur.log\<close> as it is and leaves at most three
  generations of every other log it found. It also finds the files it rotated at earlier boots,
  whose names end in \<open>.log\<close> too, and renames them again, one stamp longer each time.
\<close>

theorem rotation_keeps_three:
  "list_all (\<lambda>(n, t). if n = ''centaur.log'' then (n, t) \<in> set (rotate_service_logs (\<lambda>_. False) stamp d)
      else if suffix ''.log'' n then length (generations (log_stem n) (rotate_service_logs (\<lambda>_. False) stamp d)) \<le> 3
      else True) d \<and>
   rotate_service_logs (\<lambda>_. False) ''S2'' [(''mesh.S1.rotated.log'', 1)] = [(''mesh.S1.rotated.S2.rotated.log'', 1)]"
proof
  obtain d' stems where r: "rotate_each (\<lambda>_. False) stamp (filter (suffix ''.log'') (map fst d)) (d, []) = (d', stems)"
    by fastforce
  have res: "rotate_service_logs (\<lambda>_. False) stamp d = fold (prune (\<lambda>_. False)) stems d'"
    by (simp add: rotate_service_logs_def r)
  have "if n = ''centaur.log'' then (n, t) \<in> set (rotate_service_logs (\<lambda>_. False) stamp d)
      else if suffix ''.log'' n then length (generations (log_stem n) (rotate_service_logs (\<lambda>_. False) stamp d)) \<le> 3 else True"
    if m: "(n, t) \<in> set d" for n t
  proof -
    note p = rotate_each_props [OF r, of t]
    show ?thesis
    proof (cases "n = ''centaur.log''")
      case True
      with p m fold_prune_centaur [of t d'] show ?thesis by (simp add: res)
    next
      case False
      have "log_stem n \<in> set stems" if "suffix ''.log'' n" using p m False that by force
      with False fold_prune show ?thesis by (simp add: res)
    qed
  qed
  then show "list_all (\<lambda>(n, t). if n = ''centaur.log'' then (n, t) \<in> set (rotate_service_logs (\<lambda>_. False) stamp d)
      else if suffix ''.log'' n then length (generations (log_stem n) (rotate_service_logs (\<lambda>_. False) stamp d)) \<le> 3
      else True) d"
    by (auto simp: list_all_iff)
qed code_simp

end
