(* ===== verification/EdgeNode.thy ===== *)
theory EdgeNode
  imports Consensus Telemetry Pqc
begin

text \<open>
  The physical edge node of \<open>mesh/mesh/node_daemon.py\<close>: a consensus node, a telemetry ring and a
  signature engine behind one health report. The event loop and its thread are reduced to whether
  the transport's server came up.
\<close>

section \<open>The node\<close>

record edge_node =
  en_id :: string
  en_consensus :: bft_node
  en_pqc :: pqc_engine
  en_grid :: telemetry
  en_running :: bool

definition new_edge_node :: "crypto_lib \<Rightarrow> string \<Rightarrow> string \<Rightarrow> string option \<Rightarrow> edge_node result" where
  "new_edge_node cl seed node_id provider =
     rbind (new_pqc cl seed provider) (\<lambda>e.
       Ok \<lparr>en_id = node_id, en_consensus = new_node node_id, en_pqc = e,
           en_grid = new_telemetry 4096 VOLT_NOMINAL_V, en_running = False\<rparr>)"

definition record_microgrid ::
    "int \<Rightarrow> pyfloat \<Rightarrow> pyfloat \<Rightarrow> string \<Rightarrow> edge_node \<Rightarrow> (power_sample \<times> edge_node) result" where
  "record_microgrid now v i grid n =
     rbind (record_sample now (en_id n) v i grid (en_grid n)) (\<lambda>(s, t). Ok (s, n\<lparr>en_grid := t\<rparr>))"

text \<open>\<open>served\<close> is the outcome of waiting for the server.\<close>

definition start_heartbeat :: "unit result \<Rightarrow> edge_node \<Rightarrow> edge_node result" where
  "start_heartbeat served n = rbind served (\<lambda>_. Ok (n\<lparr>en_running := True\<rparr>))"

definition stop_heartbeat :: "edge_node \<Rightarrow> edge_node" where
  "stop_heartbeat n = (if \<not> en_running n then n else n\<lparr>en_running := False\<rparr>)"

definition get_algorithm :: "pqc_engine \<Rightarrow> string" where
  "get_algorithm e =
     (if is_post_quantum e then ''CRYSTALS-Dilithium3 (liboqs-crystals-dilithium3)'' else ''PLACEHOLDER-HMAC-SHA3-512'')"

record edge_health =
  eh_node :: string
  eh_healthy :: bool
  eh_secured :: bool
  eh_algorithm :: string
  eh_active :: nat
  eh_reachable :: nat
  eh_rejections :: nat
  eh_entries :: nat
  eh_grid :: telemetry_snapshot

definition health_telemetry :: "edge_node \<Rightarrow> edge_health" where
  "health_telemetry n =
     \<lparr>eh_node = en_id n, eh_healthy = en_running n, eh_secured = is_post_quantum (en_pqc n),
      eh_algorithm = get_algorithm (en_pqc n), eh_active = length (b_peers (en_consensus n)),
      eh_reachable = length (active_peers (en_consensus n)), eh_rejections = b_byzantine (en_consensus n),
      eh_entries = card (dom (b_ledger (en_consensus n))), eh_grid = telemetry_snapshot (en_grid n)\<rparr>"

section \<open>A life of the node\<close>

text \<open>What can happen to a node; an operation that raises leaves it as it was.\<close>

datatype edge_op =
    Register string "string option"
  | SetPolicy string string
  | Inbound "(string \<times> json) list"
  | Propose string string
  | Sample int pyfloat pyfloat string
  | Start bool
  | Stop

definition or_same :: "'a \<Rightarrow> 'a result \<Rightarrow> 'a" where
  "or_same x r = (case r of Inl _ \<Rightarrow> x | Inr y \<Rightarrow> y)"

fun edge_apply :: "(json \<Rightarrow> string) \<Rightarrow> 'w transport option \<Rightarrow> edge_op \<Rightarrow> edge_node \<times> 'w \<Rightarrow> edge_node \<times> 'w" where
  "edge_apply render tr (Register pid uri) (n, w) = (n\<lparr>en_consensus := register_peer pid uri (en_consensus n)\<rparr>, w)"
| "edge_apply render tr (SetPolicy pid policy) (n, w) =
     (n\<lparr>en_consensus := or_same (en_consensus n) (set_peer_policy pid policy (en_consensus n))\<rparr>, w)"
| "edge_apply render tr (Inbound msg) (n, w) =
     (n\<lparr>en_consensus := or_same (en_consensus n) (map_sum id snd (handle_message render msg (en_consensus n)))\<rparr>, w)"
| "edge_apply render tr (Propose key v) (n, w) =
     (case propose tr key v (en_consensus n) w of (_, c, w') \<Rightarrow> (n\<lparr>en_consensus := c\<rparr>, w'))"
| "edge_apply render tr (Sample now v i grid) (n, w) = (or_same n (map_sum id snd (record_microgrid now v i grid n)), w)"
| "edge_apply render tr (Start ok) (n, w) =
     (or_same n (start_heartbeat (if ok then Ok () else Raise RuntimeError) n), w)"
| "edge_apply render tr Stop (n, w) = (stop_heartbeat n, w)"

definition edge_run :: "(json \<Rightarrow> string) \<Rightarrow> 'w transport option \<Rightarrow> edge_op list \<Rightarrow> edge_node \<times> 'w \<Rightarrow> edge_node \<times> 'w" where
  "edge_run render tr ops s = fold (edge_apply render tr) ops s"

text \<open>Whether the server is up after a list of operations.\<close>

fun lifecycle :: "edge_op list \<Rightarrow> bool \<Rightarrow> bool" where
  "lifecycle [] up = up"
| "lifecycle (Start ok # ops) up = lifecycle ops (ok \<or> up)"
| "lifecycle (Stop # ops) up = lifecycle ops False"
| "lifecycle (_ # ops) up = lifecycle ops up"

section \<open>The health report\<close>

definition ledger_counted :: "bft_node \<Rightarrow> bool" where
  "ledger_counted n \<longleftrightarrow> finite (dom (b_ledger n)) \<and> card (dom (b_ledger n)) \<le> b_commits n"

lemma ledger_counted_commit: "ledger_counted n \<Longrightarrow> ledger_counted (commit_local key v n)"
  by (auto simp: ledger_counted_def commit_local_def card_insert_if)

lemma ledger_counted_register [simp]: "ledger_counted (register_peer pid uri n) = ledger_counted n"
  by (simp add: ledger_counted_def register_peer_def)

lemma ledger_counted_propose:
  "ledger_counted n \<Longrightarrow> propose tr key v n w = (ok, n', w') \<Longrightarrow> ledger_counted n'"
  by (auto simp: propose_def collect_votes_def Let_def ledger_counted_def commit_local_def card_insert_if
      split: option.splits if_splits prod.splits)

lemma node_ok_counters [simp]:
  "node_ok (n\<lparr>b_byzantine := k\<rparr>) = node_ok n" "node_ok (n\<lparr>b_rejected := k\<rparr>) = node_ok n"
  by (simp_all add: node_ok_def)

lemma node_ok_propose: "node_ok n \<Longrightarrow> propose tr key v n w = (ok, n', w') \<Longrightarrow> node_ok n'"
  by (auto simp: propose_def collect_votes_def Let_def split: option.splits if_splits prod.splits)

lemma handle_message_inv:
  "node_ok n \<Longrightarrow> ledger_counted n \<Longrightarrow> handle_message render msg n = Ok (r, n') \<Longrightarrow> node_ok n' \<and> ledger_counted n'"
  by (auto simp: handle_message_def apply_commit_def ledger_counted_commit rbind_Inr_iff split: if_splits)

lemma policy_inv:
  "node_ok n \<Longrightarrow> ledger_counted n \<Longrightarrow> set_peer_policy pid policy n = Ok n' \<Longrightarrow> node_ok n' \<and> ledger_counted n'"
  using node_ok_policy [of n pid policy n'] by (auto simp: set_peer_policy_def ledger_counted_def split: if_splits)

definition edge_inv :: "string \<Rightarrow> pqc_engine \<Rightarrow> edge_node \<Rightarrow> bool" where
  "edge_inv i e n \<longleftrightarrow> en_id n = i \<and> en_pqc n = e \<and> node_ok (en_consensus n) \<and> ledger_counted (en_consensus n)"

lemma edge_apply_inv:
  assumes "edge_inv i e n" "edge_apply render tr op (n, w) = (n', w')"
  shows "edge_inv i e n' \<and> (\<forall>ops. lifecycle (op # ops) (en_running n) = lifecycle ops (en_running n'))"
proof (cases op)
  case (Register pid uri)
  with assms show ?thesis by (auto simp: edge_inv_def node_ok_register)
next
  case (SetPolicy pid policy)
  with assms policy_inv [of "en_consensus n" pid policy] show ?thesis
    by (cases "set_peer_policy pid policy (en_consensus n)") (auto simp: edge_inv_def or_same_def)
next
  case (Inbound msg)
  with assms handle_message_inv [of "en_consensus n" render msg] show ?thesis
    by (cases "handle_message render msg (en_consensus n)") (auto simp: edge_inv_def or_same_def)
next
  case (Propose key v)
  with assms show ?thesis
    by (auto simp: edge_inv_def split: prod.splits dest: node_ok_propose ledger_counted_propose)
next
  case (Sample now v i' grid)
  with assms show ?thesis
    by (auto simp: edge_inv_def or_same_def record_microgrid_def rbind_def split: sum.splits)
next
  case (Start ok)
  with assms show ?thesis by (cases ok) (auto simp: edge_inv_def or_same_def start_heartbeat_def)
next
  case Stop
  with assms show ?thesis by (cases "en_running n") (auto simp: edge_inv_def stop_heartbeat_def)
qed

lemma edge_run_inv:
  "edge_inv i e n \<Longrightarrow> edge_run render tr ops (n, w) = (n', w') \<Longrightarrow>
     edge_inv i e n' \<and> en_running n' = lifecycle ops (en_running n)"
proof (induction ops arbitrary: n w)
  case (Cons op ops)
  obtain n1 w1 where s: "edge_apply render tr op (n, w) = (n1, w1)" by fastforce
  have "edge_run render tr ops (n1, w1) = (n', w')" using Cons.prems(2) by (simp add: edge_run_def s)
  with Cons.IH [of n1 w1] edge_apply_inv [OF Cons.prems(1) s] show ?case by simp
qed (simp add: edge_run_def)

text \<open>
  The health report of a node is sound after any sequence of operations, inbound messages and
  proposals over any transport: it is HEALTHY exactly when the last start or stop that took
  effect was a start, its active peers are distinct registered names of which the reachable are
  a part, it never shows more ledger entries than commits, and the signature provider is the
  one chosen at construction.
\<close>

theorem edge_health_sound:
  "(case new_edge_node cl seed node_id provider of
      Inl e \<Rightarrow> e = RuntimeError
    | Inr n0 \<Rightarrow>
        (case edge_run render tr ops (n0, w) of (n, _) \<Rightarrow>
           let h = health_telemetry n in
             eh_node h = node_id \<and> eh_healthy h = lifecycle ops False \<and>
             eh_active h = card (set (map fst (b_peers (en_consensus n)))) \<and> eh_reachable h \<le> eh_active h \<and>
             eh_entries h \<le> b_commits (en_consensus n) \<and>
             eh_secured h = (requested_provider cl provider = PROVIDER_LIBOQS)))"
proof (cases "new_pqc cl seed provider")
  case (Inl e)
  then show ?thesis by (simp add: new_edge_node_def new_pqc_def Let_def split: if_splits)
next
  case (Inr e)
  define n0 where "n0 = \<lparr>en_id = node_id, en_consensus = new_node node_id, en_pqc = e,
           en_grid = new_telemetry 4096 VOLT_NOMINAL_V, en_running = False\<rparr>"
  have new: "new_edge_node cl seed node_id provider = Ok n0" by (simp add: new_edge_node_def Inr n0_def)
  have i0: "edge_inv node_id e n0"
    by (simp add: edge_inv_def n0_def node_ok_new ledger_counted_def) (simp add: new_node_def)
  have sec: "is_post_quantum e = (requested_provider cl provider = PROVIDER_LIBOQS)"
    using Inr by (auto simp: new_pqc_def Let_def is_post_quantum_def PROVIDER_LIBOQS_def PROVIDER_PLACEHOLDER_def split: if_splits)
  obtain n w' where run: "edge_run render tr ops (n0, w) = (n, w')" by fastforce
  from edge_run_inv [OF i0 run] have i: "edge_inv node_id e n" "en_running n = lifecycle ops False"
    by (simp_all add: n0_def)
  have "distinct (map fst (b_peers (en_consensus n)))" using i(1) by (simp add: edge_inv_def node_ok_def)
  then have "length (b_peers (en_consensus n)) = card (set (map fst (b_peers (en_consensus n))))"
    by (metis distinct_card length_map)
  then show ?thesis
    using i sec by (simp add: new run health_telemetry_def Let_def edge_inv_def ledger_counted_def active_peers_def)
qed

end
