(* ===== verification/Drivers.thy ===== *)
theory Drivers
  imports Trading
begin

text \<open>
  The scripts that drive the trading pipeline: the synthetic tick of \<open>market_feed.py\<close> and
  \<open>run_trading.py\<close>, and the end-to-end run of \<open>run_pipeline.py\<close>. The random draws and the kernel's
  answers are parameters.
\<close>

section \<open>The synthetic tick\<close>

definition generate_tick :: "string \<Rightarrow> pyfloat \<Rightarrow> pyfloat \<Rightarrow> bool \<Rightarrow> pyfloat \<Rightarrow> int \<Rightarrow> obj" where
  "generate_tick asset base_price volatility momentum gauss now =
     (let price = base_price * (1 + gauss) in
      [(''asset_id'', JStr asset), (''price'', JFloat (py_round 5 price)),
       (''volatility'', JFloat (py_round 6 volatility)), (''momentum_signal'', JBool momentum),
       (''trend'', JStr (if momentum then ''bullish'' else ''neutral'')), (''timestamp'', JInt now)])"

section \<open>The end-to-end run\<close>

definition pipeline_portfolio :: "pyfloat \<Rightarrow> pyfloat \<Rightarrow> portfolio" where
  "pipeline_portfolio equity hwm =
     \<lparr>pf_equity = py_round 2 equity, pf_cash = py_round 2 (equity * lit (9/10)), pf_high_water = py_round 2 hwm,
      pf_positions = [\<lparr>po_asset = ''EURUSD'', po_notional = JFloat (Fin 5000), po_entry = lit (1082/1000), po_quantity = None\<rparr>]\<rparr>"

definition scenario_tick :: "pyfloat \<Rightarrow> pyfloat \<Rightarrow> bool \<Rightarrow> string \<Rightarrow> obj" where
  "scenario_tick price volatility momentum trend =
     [(''price'', JFloat price), (''volatility'', JFloat volatility), (''momentum_signal'', JBool momentum),
      (''trend'', JStr trend)]"

text \<open>The three scenarios, each with its price.\<close>

definition scenarios :: "(pyfloat \<times> obj) list" where
  "scenarios =
     [(lit (1085/1000), scenario_tick (lit (1085/1000)) (lit (7/1000)) True ''bullish''),
      (lit (1072/1000), scenario_tick (lit (1072/1000)) (lit (28/1000)) True ''bearish''),
      (lit (1080/1000), scenario_tick (lit (1080/1000)) (lit (5/1000)) False ''neutral'')]"

text \<open>\<open>next(iter(verdict.values()))\<close>: an empty dictionary cannot hold the key asked for before.\<close>

definition first_value :: "json \<Rightarrow> json result" where
  "first_value v = (case v of JObj ((_, x) # _) \<Rightarrow> Ok x | _ \<Rightarrow> Raise AttributeError)"

definition pipeline_step ::
    "constitution \<Rightarrow> (string \<Rightarrow> pyfloat option) \<Rightarrow> (json \<Rightarrow> string) \<Rightarrow> string \<Rightarrow> pyfloat \<times> obj \<Rightarrow> portfolio \<Rightarrow> portfolio result" where
  "pipeline_step judge parse render uuid = (\<lambda>(price, kvs) folio.
     rbind (evaluate_market_tick parse render uuid ''EURUSD'' (kvs @ [(''account_equity'', JFloat (pf_equity folio))])) (\<lambda>action.
       case action of
         None \<Rightarrow> Ok folio
       | Some p \<Rightarrow>
           rbind (judge folio p) (\<lambda>resp.
           rbind (item_of ''verdict'' resp) (\<lambda>verdict.
           rbind (item_of ''system_state'' resp) (\<lambda>_.
           rbind (has_key ''Approved'' verdict) (\<lambda>approved.
             if \<not> approved then Ok folio
             else rbind (first_value verdict) (\<lambda>x.
               rbind (item_of ''adjusted_notional'' x) (\<lambda>n.
                 Ok (folio\<lparr>pf_positions := pf_positions folio @
                   [\<lparr>po_asset = ''EURUSD'', po_notional = n, po_entry = price, po_quantity = None\<rparr>]\<rparr>)))))))))"

fun pipeline_loop ::
    "constitution \<Rightarrow> (string \<Rightarrow> pyfloat option) \<Rightarrow> (json \<Rightarrow> string) \<Rightarrow> string \<Rightarrow> (pyfloat \<times> obj) list \<Rightarrow> portfolio \<Rightarrow> portfolio result" where
  "pipeline_loop judge parse render uuid [] folio = Ok folio"
| "pipeline_loop judge parse render uuid (t # ts) folio =
     rbind (pipeline_step judge parse render uuid t folio) (pipeline_loop judge parse render uuid ts)"

definition run_pipeline :: "constitution \<Rightarrow> (string \<Rightarrow> pyfloat option) \<Rightarrow> (json \<Rightarrow> string) \<Rightarrow> string \<Rightarrow> portfolio result" where
  "run_pipeline judge parse render uuid =
     pipeline_loop judge parse render uuid scenarios (pipeline_portfolio (Fin 50000) (Fin 52000))"

section \<open>Properties\<close>

text \<open>
  On the synthetic feed the engine never sells. Whatever is drawn, a tick without momentum
  proposes nothing, and one with momentum is bullish, so that its proposal, when there is one,
  buys the tick's asset with at least one unit of notional.
\<close>

theorem synthetic_feed_only_buys:
  "(case evaluate_market_tick parse render uuid asset (generate_tick asset' base volatility momentum gauss now) of
      Inl e \<Rightarrow> e = ValidationError
    | Inr None \<Rightarrow> True
    | Inr (Some p) \<Rightarrow> momentum \<and> tp_direction p = Buy \<and> tp_asset p = asset \<and> 1 \<le> tp_notional p)"
proof (cases "evaluate_market_tick parse render uuid asset (generate_tick asset' base volatility momentum gauss now)")
  case (Inl e)
  then show ?thesis
    by (auto simp: evaluate_market_tick_def generate_tick_def Let_def obj_get_or_def py_or_def py_float_def danger_zone_def
        validate_proposal_def rbind_def falsy_def split: sum.splits if_splits)
next
  case (Inr r)
  show ?thesis
  proof (cases r)
    case (Some p)
    have "lower (py_str render (obj_get_or (generate_tick asset' base volatility True gauss now) ''trend'' (JStr ''neutral''))) = ''bullish''"
      unfolding generate_tick_def Let_def by code_simp
    with Inr Some show ?thesis
      by (auto simp: evaluate_market_tick_def Let_def rbind_Inr_iff validate_proposal_def target_at_least_1
          generate_tick_def obj_get_or_def falsy_def split: if_splits)
  qed (simp add: Inr)
qed

text \<open>
  The script and the daemon read the kernel differently. On one and the same response, which
  wraps an approval as the kernel does, the end-to-end script records the position and the
  trading daemon changes nothing.
\<close>

theorem pipeline_unwraps_verdict:
  assumes "evaluate_market_tick parse render uuid ''EURUSD'' (kvs @ [(''account_equity'', JFloat (pf_equity folio))]) = Ok (Some p)"
    and "judge folio p = Ok (JObj [(''verdict'', JObj [(''Approved'', JObj [(''adjusted_notional'', n)])]), (''system_state'', st)])"
  shows "pipeline_step judge parse render uuid (price, kvs) folio =
      Ok (folio\<lparr>pf_positions := pf_positions folio @
        [\<lparr>po_asset = ''EURUSD'', po_notional = n, po_entry = price, po_quantity = None\<rparr>]\<rparr>) \<and>
    td_portfolio (fst (handle_verdict ven (JObj [(''verdict'', JObj [(''Approved'', JObj [(''adjusted_notional'', n)])]), (''system_state'', st)]) (dump p) s)) =
      td_portfolio s"
  using assms by (simp add: pipeline_step_def item_of_def has_key_def first_value_def handle_verdict_def)

lemma pipeline_unwraps_verdict_witness:
  "case pipeline_step (\<lambda>_ _. Ok (JObj [(''verdict'', JObj [(''Approved'', JObj [(''adjusted_notional'', JInt 9)])]),
       (''system_state'', JStr ''Normal'')])) (\<lambda>_. None) (\<lambda>_. []) ''u-1''
       (Fin 2, scenario_tick (Fin 2) (Fin 0) True ''bullish'') (pipeline_portfolio (Fin 50000) (Fin 52000)) of
     Inr folio \<Rightarrow> length (pf_positions folio) = 2 | Inl _ \<Rightarrow> False"
proof -
  let ?f = "pipeline_portfolio (Fin 50000) (Fin 52000)"
  let ?t = "scenario_tick (Fin 2) (Fin 0) True ''bullish''"
  have "case evaluate_market_tick (\<lambda>_. None) (\<lambda>_. []) ''u-1'' ''EURUSD'' (?t @ [(''account_equity'', JFloat (pf_equity ?f))]) of
     Inr (Some p) \<Rightarrow> True | _ \<Rightarrow> False"
    by code_simp
  then obtain p where p: "evaluate_market_tick (\<lambda>_. None) (\<lambda>_. []) ''u-1'' ''EURUSD''
      (?t @ [(''account_equity'', JFloat (pf_equity ?f))]) = Ok (Some p)"
    by (auto split: sum.splits option.splits)
  show ?thesis
    by (subst conjunct1 [OF pipeline_unwraps_verdict [OF p, where n = "JInt 9" and st = "JStr ''Normal''" and price = "Fin 2" and
        ven = mock_venue and s = sample_trading]])
      (simp_all add: pipeline_portfolio_def)
qed

end
