(* ===== verification/LiveDrills.thy ===== *)
theory LiveDrills
  imports LiveFeed Learning
begin

text \<open>
  The drills on live data: \<open>run_live_drill\<close> of \<open>cortex/cortex/next_candle.py\<close>, \<open>run_live_ml\<close> and
  \<open>run_scale_ml\<close> of \<open>cortex/cortex/ml.py\<close> with the fetch in front of them. A call that finds too few
  candles answers an error dictionary, here \<open>None\<close>.
\<close>

section \<open>The drills\<close>

definition live_drill ::
    "(string \<Rightarrow> pyfloat option) \<Rightarrow> kline_venue \<Rightarrow> string \<Rightarrow> int \<Rightarrow> nat \<Rightarrow> nat \<Rightarrow> (int \<times> drill_score) option result" where
  "live_drill parse http symbol timeframe history scored_bars =
     rbind (fetch_klines parse http symbol timeframe (int (history + scored_bars)) None) (\<lambda>cs.
       Ok (map_option (\<lambda>d. (int (length cs) - int history, score d)) (run_drill cs history)))"

definition live_ml ::
    "'m library \<Rightarrow> (string \<Rightarrow> pyfloat option) \<Rightarrow> kline_venue \<Rightarrow> string \<Rightarrow> int \<Rightarrow> nat \<Rightarrow> nat \<Rightarrow> (int \<times> ml_report) option result" where
  "live_ml lib parse http symbol timeframe history scored_bars =
     rbind (fetch_klines parse http symbol timeframe (int (history + scored_bars)) None) (\<lambda>cs.
       case run_live_ml lib cs history of
         None \<Rightarrow> Ok None
       | Some (l, r) \<Rightarrow> rbind r (\<lambda>_. Ok (Some (int (length cs) - 300, report l))))"

text \<open>The outer option is the paging loop, as in \<open>fetch_history\<close>.\<close>

definition scale_ml ::
    "'m library \<Rightarrow> (string \<Rightarrow> pyfloat option) \<Rightarrow> kline_venue \<Rightarrow> int \<Rightarrow> string \<Rightarrow> int \<Rightarrow> int \<Rightarrow> nat \<Rightarrow> nat \<Rightarrow> nat
       \<Rightarrow> ('m learner \<times> nat \<times> pyfloat \<times> ml_report) option result option" where
  "scale_ml lib parse http now_ms symbol timeframe history_ms warmup window retrain =
     (case fetch_history parse http now_ms symbol timeframe history_ms 1000 None of
        Some (Done r) \<Rightarrow> Some (rbind r (\<lambda>cs.
          case run_scale_ml lib cs warmup window retrain of
            None \<Rightarrow> Ok None
          | Some ((l, walked), base) \<Rightarrow> rbind walked (\<lambda>_. Ok (Some (l, length cs, base, report l)))))
      | _ \<Rightarrow> None)"

section \<open>The history of the learner\<close>

lemma settle_history [simp]: "ml_history (settle c l) = ml_history l @ [c]"
  by (auto simp: settle_def Let_def split: option.splits)

lemma issue_history: "issue_call lib l = (l', r) \<Longrightarrow> ml_history l' = ml_history l"
  by (auto simp: issue_call_def Let_def split: option.splits sum.splits)

lemma step_history: "step lib c l = (l', r) \<Longrightarrow> ml_history l' = ml_history l @ [c]"
  by (auto simp: step_def Let_def split: if_splits prod.splits bool.splits dest!: refit_frame issue_history)

lemma walk_history: "walk lib cs l = (l', Ok calls) \<Longrightarrow> ml_history l' = ml_history l @ cs"
proof (induction cs arbitrary: l calls)
  case (Cons c cs)
  from Cons.prems obtain l1 call cl where s: "step lib c l = (l1, Ok call)" and w: "walk lib cs l1 = (l', Ok cl)"
    by (auto split: prod.splits sum.splits)
  from Cons.IH [OF w] step_history [OF s] show ?case by simp
qed simp

section \<open>When the first call comes\<close>

text \<open>
  A learner with T training examples to wait for and a warm-up of W has no classifier, no pending
  call and no decision before it has seen W + T + 1 candles, and at most one decision per candle
  after that.
\<close>

definition patient :: "'m learner \<Rightarrow> bool" where
  "patient l \<longleftrightarrow> 0 < ml_min_train l \<and>
     (let first = ml_warmup l + ml_min_train l + 1; n = length (ml_history l) in
       (n < first \<longrightarrow> ml_clf l = None \<and> ml_pending l = None) \<and> length (ml_decisions l) \<le> n - first)"

lemma training_short: "length (fst (training_set l)) \<le> length (ml_history l) - 1 - ml_warmup l"
  by (auto simp: training_set_def Let_def split: option.splits)

lemma settle_parameters [simp]:
  "ml_min_train (settle c l) = ml_min_train l" "ml_clf (settle c l) = ml_clf l"
  by (auto simp: settle_def Let_def split: option.splits)

lemma refit_parameters:
  "refit lib l = (l', b) \<Longrightarrow> ml_min_train l' = ml_min_train l \<and> ml_warmup l' = ml_warmup l"
  by (auto simp: refit_def split: if_splits option.splits prod.splits)

lemma issue_parameters:
  "issue_call lib l = (l', r) \<Longrightarrow> ml_min_train l' = ml_min_train l \<and> ml_warmup l' = ml_warmup l \<and>
     ml_clf l' = ml_clf l \<and> ml_decisions l' = ml_decisions l"
  by (auto simp: issue_call_def Let_def split: option.splits sum.splits)

lemma refit_waits:
  assumes "ml_clf l = None" "length (ml_history l) < ml_warmup l + ml_min_train l + 1" "0 < ml_min_train l"
  shows "refit lib l = (l, False)"
proof -
  obtain X y where t: "training_set l = (X, y)" by fastforce
  have "length X < ml_min_train l" using training_short [of l] assms(2,3) by (simp add: t)
  then show ?thesis using assms(1) by (simp add: refit_def t)
qed

lemma patient_step:
  assumes "patient l" "step lib c l = (l', r)"
  shows "patient l' \<and> ml_min_train l' = ml_min_train l \<and> ml_warmup l' = ml_warmup l"
proof -
  let ?s = "settle c l" let ?first = "ml_warmup l + ml_min_train l + 1" let ?n = "length (ml_history l)"
  have p: "0 < ml_min_train l" "?n < ?first \<longrightarrow> ml_clf l = None \<and> ml_pending l = None"
    "length (ml_decisions l) \<le> ?n - ?first"
    using assms(1) by (simp_all add: patient_def Let_def)
  have d: "length (ml_decisions ?s) \<le> Suc ?n - ?first"
    using p(2,3) by (auto simp: settle_decisions split: option.splits)
  have ps: "patient x" if "ml_history x = ml_history ?s" "ml_decisions x = ml_decisions ?s"
    "ml_warmup x = ml_warmup l" "ml_min_train x = ml_min_train l"
    "Suc ?n < ?first \<Longrightarrow> ml_clf x = None \<and> ml_pending x = None" for x
    using that d p(1) by (simp add: patient_def Let_def)
  show ?thesis
  proof (cases "Suc ?n < ml_warmup l + 2")
    case True
    then have "l' = ?s" using assms(2) by (simp add: step_def Let_def)
    with ps [of ?s] p(2) show ?thesis by simp
  next
    case False
    let ?t = "?s\<lparr>ml_since := ml_since ?s + 1\<rparr>"
    obtain l2 b where rf: "refit lib ?t = (l2, b)" by fastforce
    have s: "step lib c l = (if b then issue_call lib l2 else (l2, Ok None))"
      using False rf by (cases b) (simp_all add: step_def Let_def)
    note f = refit_frame [OF rf, simplified] refit_parameters [OF rf, simplified]
    show ?thesis
    proof (cases "Suc ?n < ?first")
      case True
      have "refit lib ?t = (?t, False)" using True p(1,2) by (intro refit_waits) simp_all
      then have "l' = ?t" using assms(2) s rf by simp
      with ps [of ?t] p(2) True show ?thesis by simp
    next
      case late: False
      show ?thesis
      proof (cases b)
        case True
        then have i: "issue_call lib l2 = (l', r)" using s assms(2) by simp
        from ps [of l'] issue_parameters [OF i] issue_history [OF i] f late show ?thesis by simp
      next
        case False
        then have "l' = l2" using s assms(2) by simp
        with ps [of l2] f late show ?thesis by simp
      qed
    qed
  qed
qed

lemma patient_walk:
  "walk lib cs l = (l', r) \<Longrightarrow> patient l \<Longrightarrow>
     patient l' \<and> ml_min_train l' = ml_min_train l \<and> ml_warmup l' = ml_warmup l"
proof (induction cs arbitrary: l l' r)
  case (Cons c cs)
  obtain l1 r1 where s: "step lib c l = (l1, r1)" by fastforce
  note p = patient_step [OF Cons.prems(2) s]
  show ?case
  proof (cases r1)
    case (Inl e)
    with Cons.prems(1) s p show ?thesis by simp
  next
    case (Inr call)
    obtain l2 r2 where w: "walk lib cs l1 = (l2, r2)" by fastforce
    with Cons.prems(1) s Inr have "l' = l2" by (cases r2) auto
    with Cons.IH [OF w] p show ?thesis by simp
  qed
qed simp

lemma patient_walk_new:
  assumes "walk lib cs (new_learner t w k win) = (l', r)" "0 < t"
  shows "patient l'" "ml_min_train l' = t" "ml_warmup l' = w"
proof -
  have "patient (new_learner t w k win :: 'a learner)" using assms(2) by (simp add: patient_def new_learner_def)
  from patient_walk [OF assms(1) this] show "patient l'" "ml_min_train l' = t" "ml_warmup l' = w"
    by (simp_all add: new_learner_def)
qed

text \<open>
  The live drill scores far fewer candles than it claims. It skips the first 300 candles and
  then hands the learner nothing but what follows, so that the learner waits for another 551 of
  them: of the \<open>scored_candles\<close> reported at least 552 have no call, and of the 580 reported for the
  default request of 880 candles at most 28 are scored.
\<close>

theorem live_ml_scores_few:
  "(case live_ml lib parse http symbol timeframe history scored_bars of
      Inr (Some (claimed, rep)) \<Rightarrow> int (mr_scored rep) \<le> max 0 (claimed - 552)
    | _ \<Rightarrow> True)"
proof (cases "live_ml lib parse http symbol timeframe history scored_bars")
  case (Inr x)
  show ?thesis
  proof (cases x)
    case (Some y)
    obtain claimed rep where y: "y = (claimed, rep)" by (cases y)
    from Inr Some y obtain cs l calls where run: "run_live_ml lib cs history = Some (l, Ok calls)"
      and c: "claimed = int (length cs) - 300" "rep = report l"
      by (auto simp: live_ml_def rbind_Inr_iff split: option.splits)
    then have w: "walk lib (drop 300 (butlast cs)) (new_learner 250 300 1 None) = (l, Ok calls)"
      by (auto simp: run_live_ml_def split: if_splits)
    have "patient l" "ml_min_train l = 250" "ml_warmup l = 300"
      using patient_walk_new [OF w] by simp_all
    moreover have "length (ml_history l) = length cs - 301"
      using walk_history [OF w] by (simp add: new_learner_def)
    ultimately have "length (ml_decisions l) \<le> length cs - 301 - 551" by (simp add: patient_def Let_def)
    then have "int (mr_scored rep) \<le> max 0 (claimed - 552)" unfolding c by (simp add: report_def Let_def)
    then show ?thesis by (simp add: Inr Some y)
  qed (simp add: Inr)
qed simp

text \<open>
  The big drill learns in time order. Against a venue that honours the end time, \<open>run_scale_ml\<close>
  returns or raises, and whatever it reports comes from a learner whose whole history is strictly
  ordered by open time: the fetched candles after the warm-up, without the newest, none of them
  seen twice. Its decisions are at least warm-up plus 201 fewer than the candles it saw.
\<close>

theorem scale_ml_in_time_order:
  assumes "honours_end http"
  shows "case scale_ml lib parse http now_ms symbol timeframe history_ms warmup window retrain of
      None \<Rightarrow> False
    | Some (Inr (Some (l, n, base, rep))) \<Rightarrow>
        sorted_wrt (\<lambda>a b. c_t_open a < c_t_open b) (ml_history l) \<and> length (ml_history l) = n - 1 - warmup \<and>
        mr_seen rep = length (ml_history l) \<and> mr_scored rep \<le> mr_seen rep - (warmup + 201)
    | Some _ \<Rightarrow> True"
proof -
  obtain r where r: "fetch_history parse http now_ms symbol timeframe history_ms 1000 None = Some (Done r)"
    using fetch_returns [OF assms] by blast
  show ?thesis
  proof (cases "\<exists>l n base rep. scale_ml lib parse http now_ms symbol timeframe history_ms warmup window retrain =
      Some (Ok (Some (l, n, base, rep)))")
    case True
    then obtain l n base rep where ok: "scale_ml lib parse http now_ms symbol timeframe history_ms warmup window retrain =
      Some (Ok (Some (l, n, base, rep)))" by blast
    then obtain cs where fetched: "r = Ok cs"
      and run: "\<exists>calls. run_scale_ml lib cs warmup window retrain = Some ((l, Ok calls), base)" and n: "n = length cs"
      and rep: "rep = report l"
      by (auto simp: scale_ml_def r rbind_Inr_iff split: option.splits)
    obtain calls where w: "walk lib (drop warmup (butlast cs)) (new_learner 200 warmup retrain (Some window)) = (l, Ok calls)"
      and len: "warmup + 200 \<le> length cs"
      using run by (auto simp: run_scale_ml_def Let_def split: if_splits)
    have h: "ml_history l = drop warmup (butlast cs)"
      using walk_history [OF w] by (simp add: new_learner_def)
    have "fetch_history parse http now_ms symbol timeframe history_ms 1000 (Some now_ms) = Some (Done (Ok cs))"
      using r fetched by (simp add: fetch_history_def)
    then have ord: "sorted_wrt (\<lambda>a b. c_t_open a < c_t_open b) cs" using fetched_in_order [OF assms] by blast
    have sub: "sorted_wrt (\<lambda>a b. c_t_open a < c_t_open b) (ml_history l)"
      unfolding h butlast_conv_take by (intro sorted_wrt_drop sorted_wrt_take ord)
    have "patient l" "ml_min_train l = 200" "ml_warmup l = warmup"
      using patient_walk_new [OF w] by simp_all
    then have "length (ml_decisions l) \<le> length (ml_history l) - (warmup + 201)"
      by (simp add: patient_def Let_def add.commute)
    with sub h n len rep ok show ?thesis by (simp add: report_def Let_def)
  next
    case False
    then show ?thesis
      by (cases "scale_ml lib parse http now_ms symbol timeframe history_ms warmup window retrain")
        (auto simp: scale_ml_def r split: sum.splits option.splits)
  qed
qed

lemma scale_ml_in_time_order_witness:
  "honours_end minute_venue \<and>
   scale_ml sample_library (\<lambda>_. None) minute_venue 150000 ''BTCUSDT'' 60 150000 10 20000 250 \<noteq> None"
  using minute_venue_honours
    scale_ml_in_time_order [OF minute_venue_honours, where lib = sample_library and parse = "\<lambda>_. None" and now_ms = 150000 and symbol = "''BTCUSDT''" and
      timeframe = 60 and history_ms = 150000 and warmup = 10 and window = 20000 and retrain = 250]
  by (auto split: option.splits)

end
