(* ===== verification/Services.thy ===== *)
theory Services
  imports DoomsdayCli Boot Orchestrator
begin

text \<open>
  The dead-man switch as a service: the script that \<open>centaur_start.py\<close> launches (\<open>_run_doomsday\<close>),
  whose main thread beats the switch while the kernel answers the probe, and \<open>run_doomsday.py\<close>,
  whose main thread beats it unconditionally. The switch's own thread ticks in between. Also the
  command line of the orchestrator.
\<close>

section \<open>The watchdog service\<close>

definition service_config :: dead_man_config where
  "service_config = (default_config (Fin 5))\<lparr>g_plan := (plain_step NOTIFY)\<lparr>s_channels := [''ops'']\<rparr> # tl default_plan\<rparr>"

definition script_config :: dead_man_config where
  "script_config = default_config (Fin 5)"

text \<open>
  The two threads take turns: the main one looks at the kernel (what the connection gives is
  an argument, as in \<open>probe_constitution\<close>), the other ticks. The clock reads the turn's time throughout
  the turn. A tick that raises ends its thread.
\<close>

datatype turn = Probed pyfloat "bytes list option" bool | Ticked pyfloat

record switch_service =
  sw_daemon :: "sim_oracle daemon"
  sw_ticking :: bool

fun switch_turn :: "(bytes list option \<Rightarrow> bool \<Rightarrow> bool) \<Rightarrow> quote_hash \<Rightarrow> turn \<Rightarrow> switch_service \<Rightarrow> switch_service" where
  "switch_turn feed ref_of (Probed t answer stalls) s =
     (if feed answer stalls then s\<lparr>sw_daemon := fst (beat False ((sw_daemon s)\<lparr>d_clock := \<lambda>_. t\<rparr>))\<rparr> else s)"
| "switch_turn feed ref_of (Ticked t) s =
     (if sw_ticking s
      then case tick (sim_ops ref_of) no_hooks ((sw_daemon s)\<lparr>d_clock := \<lambda>_. t\<rparr>) of
          (d, Inl _) \<Rightarrow> \<lparr>sw_daemon = d, sw_ticking = False\<rparr>
        | (d, Inr _) \<Rightarrow> s\<lparr>sw_daemon := d\<rparr>
      else s)"

definition switch_turns :: "(bytes list option \<Rightarrow> bool \<Rightarrow> bool) \<Rightarrow> quote_hash \<Rightarrow> turn list \<Rightarrow> switch_service \<Rightarrow> switch_service" where
  "switch_turns feed ref_of us s = fold (switch_turn feed ref_of) us s"

definition started :: "dead_man_config \<Rightarrow> switch_service result" where
  "started cfg = rbind (new_daemon cfg None (\<lambda>_. 0)) (\<lambda>d. Ok \<lparr>sw_daemon = d, sw_ticking = True\<rparr>)"

definition run_doomsday_service :: "quote_hash \<Rightarrow> turn list \<Rightarrow> switch_service result" where
  "run_doomsday_service ref_of us =
     rbind (started service_config) (\<lambda>s. Ok (switch_turns probe_constitution ref_of us s))"

text \<open>The stand-alone script beats once before its loop and on every turn of it.\<close>

definition run_doomsday_script :: "quote_hash \<Rightarrow> pyfloat \<Rightarrow> turn list \<Rightarrow> switch_service result" where
  "run_doomsday_script ref_of t0 us =
     rbind (started script_config) (\<lambda>s. Ok (switch_turns (\<lambda>_ _. True) ref_of (Probed t0 None False # us) s))"

section \<open>The command line of the orchestrator\<close>

definition wait_for_constitutiond :: "nat \<Rightarrow> (bytes list option \<times> bool) list \<Rightarrow> bool" where
  "wait_for_constitutiond timeout tries = list_ex (\<lambda>(a, s). probe_constitution a s) (take timeout tries)"

definition cmd_status :: "world \<Rightarrow> orch \<Rightarrow> (string \<times> bool) list" where
  "cmd_status w o' =
     map (\<lambda>svc. (sv_name svc, case map_of (oc_procs o') (sv_name svc) of None \<Rightarrow> False | Some p \<Rightarrow> \<not> down w p)) SERVICES"

text \<open>The processes \<open>_cmd_stop\<close> signals, like those of \<open>_stop_all\<close>; an adopted one ignores it.\<close>

definition cmd_stop :: "orch \<Rightarrow> nat list" where
  "cmd_stop o' = concat (map (\<lambda>(_, p). case p of Spawned i \<Rightarrow> [i] | Adopted _ \<Rightarrow> []) (oc_procs o'))"

datatype orch_command = Status | Stop | Logs | Serve

record orch_outcome =
  or_status :: "(string \<times> bool) list"
  or_signalled :: "nat list"
  or_exit :: "nat result"

text \<open>\<open>main\<close> builds a new orchestrator for every command.\<close>

definition orch_main :: "world \<Rightarrow> world \<Rightarrow> cycle_input list \<Rightarrow> orch_command \<Rightarrow> orch_outcome" where
  "orch_main w0 w1 passes cmd =
     (case cmd of
        Status \<Rightarrow> \<lparr>or_status = cmd_status w0 new_orch, or_signalled = [], or_exit = Ok 0\<rparr>
      | Stop \<Rightarrow> \<lparr>or_status = [], or_signalled = cmd_stop new_orch, or_exit = Ok 0\<rparr>
      | Logs \<Rightarrow> \<lparr>or_status = [], or_signalled = [], or_exit = Ok 0\<rparr>
      | Serve \<Rightarrow> (case run_orch w0 w1 passes of (o', r) \<Rightarrow>
          \<lparr>or_status = [], or_signalled = stop_all o', or_exit = r\<rparr>))"

section \<open>Turns\<close>

lemma service_config_ok: "config_ok service_config" "g_enabled service_config" "\<not> g_strict service_config"
    "g_plan service_config \<noteq> []"
  and script_config_ok: "config_ok script_config" "g_enabled script_config" "\<not> g_strict script_config"
  by (simp_all add: service_config_def script_config_def config_ok_def default_config_def default_plan_def
      plain_step_def step_ok_def zero_pyfloat_def)

lemma started_eq:
  "g_oracle cfg = ''simulation_oracle'' \<Longrightarrow>
     started cfg = Ok \<lparr>sw_daemon = init_daemon cfg (new_sim_oracle 0) None (\<lambda>_. 0), sw_ticking = True\<rparr>"
  by (simp add: started_def new_daemon_def oracle_factory_def)

lemma ticked_daemon:
  "sw_ticking s \<Longrightarrow> sw_daemon (switch_turn feed ref_of (Ticked t) s) = tick_at (sim_ops ref_of) no_hooks t (sw_daemon s)"
  by (simp add: tick_at_def split: prod.splits sum.splits)

lemma switch_turns_simps [simp]:
  "switch_turns feed ref_of [] s = s"
  "switch_turns feed ref_of (u # us) s = switch_turns feed ref_of us (switch_turn feed ref_of u s)"
  "switch_turns feed ref_of (us @ vs) s = switch_turns feed ref_of vs (switch_turns feed ref_of us s)"
  by (simp_all add: switch_turns_def)

lemma turn_reachable:
  assumes "reachable (sim_ops ref_of) no_hooks d0 (sw_daemon s)"
  shows "reachable (sim_ops ref_of) no_hooks d0 (sw_daemon (switch_turn feed ref_of u s))"
proof (cases u)
  case (Probed t answer stalls)
  have "reachable (sim_ops ref_of) no_hooks d0 ((sw_daemon s)\<lparr>d_clock := \<lambda>_. t\<rparr>)"
    using assms by (rule reach_step) (rule op_clock)
  with assms show ?thesis by (simp add: Probed reachable_beat)
next
  case (Ticked t)
  show ?thesis
  proof (cases "sw_ticking s")
    case True
    then show ?thesis unfolding Ticked ticked_daemon [OF True] by (intro reachable_tick_at assms)
  qed (simp add: Ticked assms)
qed

lemma turns_reachable:
  "reachable (sim_ops ref_of) no_hooks d0 (sw_daemon s) \<Longrightarrow>
     reachable (sim_ops ref_of) no_hooks d0 (sw_daemon (switch_turns feed ref_of us s))"
  by (induction us arbitrary: s) (simp_all add: turn_reachable del: switch_turn.simps)

section \<open>A fed switch\<close>

text \<open>
  The turns keep up with the grace period: every tick comes within it after the last beat.
\<close>

fun punctual :: "(bytes list option \<Rightarrow> bool \<Rightarrow> bool) \<Rightarrow> dead_man_config \<Rightarrow> pyfloat option \<Rightarrow> turn list \<Rightarrow> bool" where
  "punctual feed cfg prev [] = True"
| "punctual feed cfg prev (Probed t answer stalls # us) =
     punctual feed cfg (if feed answer stalls then Some t else prev) us"
| "punctual feed cfg prev (Ticked t # us) =
     ((case prev of None \<Rightarrow> True | Some t0 \<Rightarrow> t - t0 \<le> grace_period cfg) \<and> punctual feed cfg prev us)"

fun last_answer :: "(bytes list option \<Rightarrow> bool \<Rightarrow> bool) \<Rightarrow> pyfloat option \<Rightarrow> turn list \<Rightarrow> pyfloat option" where
  "last_answer feed prev [] = prev"
| "last_answer feed prev (Probed t answer stalls # us) = last_answer feed (if feed answer stalls then Some t else prev) us"
| "last_answer feed prev (Ticked t # us) = last_answer feed prev us"

definition at_rest :: "dead_man_config \<Rightarrow> pyfloat option \<Rightarrow> switch_service \<Rightarrow> bool" where
  "at_rest cfg prev s \<longleftrightarrow>
     sw_ticking s \<and> d_config (sw_daemon s) = cfg \<and> d_state (sw_daemon s) = ARMED \<and> d_last_beat (sw_daemon s) = prev \<and>
     d_orders (sw_daemon s) = [] \<and> (prev = None \<longrightarrow> d_journal (sw_daemon s) = []) \<and> list_all (\<lambda>t. t_detail t = ArmedHeartbeat) (d_journal (sw_daemon s))"

lemma at_rest_beat:
  assumes "at_rest cfg prev s" "\<not> g_strict cfg" "feed answer stalls"
  shows "at_rest cfg (Some t) (switch_turn feed ref_of (Probed t answer stalls) s)"
  using assms set_lastn
  by (fastforce simp: at_rest_def beat_def Let_def read_clock_def journal_note_def list_all_iff)

lemma at_rest_tick:
  assumes "at_rest cfg prev s" "config_ok cfg" "case prev of None \<Rightarrow> True | Some t0 \<Rightarrow> t - t0 \<le> grace_period cfg"
  shows "at_rest cfg prev (switch_turn feed ref_of (Ticked t) s)"
proof -
  have n: "\<not> grace_period cfg < t - (case prev of None \<Rightarrow> t | Some t0 \<Rightarrow> t0)"
    using assms(3) diff_self_not_above [OF grace_period_nonneg [OF assms(2)]] float_less_asym
    by (auto split: option.splits)
  then show ?thesis using assms(1)
    by (auto simp: at_rest_def tick_def Let_def read_clock_def tick_armed_def split: option.splits)
qed

lemma at_rest_turns:
  "at_rest cfg prev s \<Longrightarrow> config_ok cfg \<Longrightarrow> \<not> g_strict cfg \<Longrightarrow> punctual feed cfg prev us \<Longrightarrow>
     at_rest cfg (last_answer feed prev us) (switch_turns feed ref_of us s)"
proof (induction us arbitrary: prev s)
  case Nil
  then show ?case by auto
next
  case (Cons u us)
  show ?case
  proof (cases u)
    case (Probed t answer stalls)
    show ?thesis
    proof (cases "feed answer stalls")
      case True
      then show ?thesis using Cons.IH [OF at_rest_beat [where t = t and ref_of = ref_of and feed = feed and answer = answer and stalls = stalls, OF Cons.prems(1,3) True]] Cons.prems
        by (simp add: Probed del: switch_turn.simps)
    next
      case False
      then show ?thesis using Cons.IH [OF Cons.prems(1)] Cons.prems by (simp add: Probed)
    qed
  next
    case (Ticked t)
    have "case prev of None \<Rightarrow> True | Some t0 \<Rightarrow> t - t0 \<le> grace_period cfg"
      using Cons.prems(4) by (simp add: Ticked)
    from Cons.IH [OF at_rest_tick [where feed = feed and ref_of = ref_of, OF Cons.prems(1,2) this]] Cons.prems
    show ?thesis by (simp add: Ticked del: switch_turn.simps)
  qed
qed

lemma at_rest_init: "at_rest cfg None \<lparr>sw_daemon = init_daemon cfg ora key clk, sw_ticking = True\<rparr>"
  by (simp add: at_rest_def init_daemon_def)

section \<open>A silent kernel\<close>

fun ticks_of :: "turn list \<Rightarrow> pyfloat list" where
  "ticks_of [] = []"
| "ticks_of (Probed _ _ _ # us) = ticks_of us"
| "ticks_of (Ticked t # us) = t # ticks_of us"

fun unfed :: "(bytes list option \<Rightarrow> bool \<Rightarrow> bool) \<Rightarrow> turn list \<Rightarrow> bool" where
  "unfed feed [] = True"
| "unfed feed (Probed _ answer stalls # us) = (\<not> feed answer stalls \<and> unfed feed us)"
| "unfed feed (Ticked _ # us) = unfed feed us"

lemma unfed_punctual: "unfed feed us \<Longrightarrow> punctual feed cfg None us \<and> last_answer feed None us = None"
  by (induction feed us rule: unfed.induct) simp_all

definition live_rank :: "'o daemon \<Rightarrow> nat" where
  "live_rank d = (case d_state d of ARMED \<Rightarrow> 3 | WATCHING \<Rightarrow> 2 | ESCALATING \<Rightarrow> 1 | _ \<Rightarrow> 0)"

definition alive_or_fired :: "pyfloat set \<Rightarrow> 'o daemon \<Rightarrow> bool" where
  "alive_or_fired T d \<longleftrightarrow> d_state d \<in> {ARMED, WATCHING, ESCALATING} \<or> fired T d"

lemma silent_rank:
  assumes s: "silent_since cfg t0 d" "long_silent cfg t0 t" "quiet_hooks hooks" "g_plan cfg \<noteq> []"
    and "alive_or_fired T d" "t \<in> T"
  shows "alive_or_fired T (tick_at ops hooks t d) \<and> live_rank (tick_at ops hooks t d) \<le> live_rank d - 1"
proof -
  have mono: "fired {t} x \<Longrightarrow> fired T x" for x :: "'a daemon"
    using assms(6) by (auto simp: fired_def split: option.splits)
  have low: "fired T x \<Longrightarrow> live_rank x = 0" for x :: "'a daemon"
    by (auto simp: fired_def live_rank_def)
  consider "d_state d = ARMED" | "d_state d = WATCHING" | "d_state d = ESCALATING" | "fired T d"
    using assms(5) by (auto simp: alive_or_fired_def)
  then show ?thesis
  proof cases
    case 1
    with tick_at_armed [OF s(1,2) 1, of ops hooks] show ?thesis by (simp add: alive_or_fired_def live_rank_def)
  next
    case 2
    with tick_at_watching [OF s(1,2) 2, of ops hooks] show ?thesis by (simp add: alive_or_fired_def live_rank_def)
  next
    case 3
    from mono [OF tick_at_escalating [OF s(1,2) 3 s(3,4), of ops]] low show ?thesis
      by (simp add: alive_or_fired_def)
  next
    case 4
    from tick_at_fired(1) [OF s(1) 4, of t ops hooks] assms(6) have "fired T (tick_at ops hooks t d)"
      by (simp add: insert_absorb)
    with low show ?thesis by (simp add: alive_or_fired_def)
  qed
qed

lemma tick_survives:
  assumes "silent_since cfg t0 d" "d_state d = ESCALATING \<Longrightarrow> long_silent cfg t0 t"
  shows "\<exists>x. snd (tick ops hooks (d\<lparr>d_clock := \<lambda>_. t\<rparr>)) = Ok x"
proof -
  obtain d' r where t: "tick ops hooks (d\<lparr>d_clock := \<lambda>_. t\<rparr>) = (d', r)" by fastforce
  have en: "g_enabled (d_config (d\<lparr>d_clock := \<lambda>_. t\<rparr>))" using assms(1) by (auto simp: silent_since_def daemon_inv_def)
  show ?thesis
    using t en
  proof (cases rule: tick_cases)
    case (escalating r1)
    with assms have "long_silent cfg t0 t" by simp
    then show ?thesis
      using assms(1) escalating t
      by (auto simp: long_silent_def silent_since_def silence_def tick_escalating_def Let_def
          split: sum.splits if_splits prod.splits)
  qed (use t in simp_all)
qed

text \<open>A turn without a heartbeat and with a living thread is a tick, or nothing.\<close>

lemma silent_turn:
  assumes "silent_since cfg t0 (sw_daemon s)" "sw_ticking s" "\<And>t. u = Ticked t \<Longrightarrow> d_state (sw_daemon s) = ESCALATING \<Longrightarrow> long_silent cfg t0 t"
    and "unfed feed [u]"
  shows "sw_ticking (switch_turn feed ref_of u s)"
    "sw_daemon (switch_turn feed ref_of u s) = fold (tick_at (sim_ops ref_of) no_hooks) (ticks_of [u]) (sw_daemon s)"
proof -
  have "sw_ticking (switch_turn feed ref_of u s) \<and>
    sw_daemon (switch_turn feed ref_of u s) = fold (tick_at (sim_ops ref_of) no_hooks) (ticks_of [u]) (sw_daemon s)"
  proof (cases u)
    case (Ticked t)
    with tick_survives [OF assms(1,3), of t "sim_ops ref_of" no_hooks] obtain x d
      where "tick (sim_ops ref_of) no_hooks ((sw_daemon s)\<lparr>d_clock := \<lambda>_. t\<rparr>) = (d, Ok x)"
      by (metis prod.collapse)
    with assms(2) show ?thesis unfolding Ticked by (simp add: tick_at_def)
  qed (use assms in simp_all)
  then show "sw_ticking (switch_turn feed ref_of u s)"
    "sw_daemon (switch_turn feed ref_of u s) = fold (tick_at (sim_ops ref_of) no_hooks) (ticks_of [u]) (sw_daemon s)"
    by simp_all
qed

lemma ticks_of_Cons: "ticks_of (u # us) = ticks_of [u] @ ticks_of us"
  by (cases u) simp_all

lemma unfed_Cons: "unfed feed (u # us) \<longleftrightarrow> unfed feed [u] \<and> unfed feed us"
  by (cases u) simp_all

text \<open>
  The silent part of a run: long silent ticks at the times \<open>ts\<close>, then one at any time \<open>t1\<close>, then one
  that is a liquidation grace later than all of them.
\<close>

definition final_ticks :: "dead_man_config \<Rightarrow> pyfloat \<Rightarrow> pyfloat list \<Rightarrow> pyfloat \<Rightarrow> pyfloat \<Rightarrow> bool" where
  "final_ticks cfg t0 ts t1 t2 \<longleftrightarrow>
     3 \<le> length ts \<and> list_all (\<lambda>t. long_silent cfg t0 t) ts \<and> list_all (\<lambda>t. liquidation_grace cfg < t2 - t) (t1 # ts)"

lemma tick_at_silent:
  "silent_since cfg t0 d \<Longrightarrow> quiet_hooks hooks \<Longrightarrow> silent_since cfg t0 (tick_at ops hooks t d)"
  using tick_at_frame by blast

lemma silent_ticks:
  assumes "quiet_hooks hooks" "g_plan cfg \<noteq> []" "list_all (\<lambda>t. long_silent cfg t0 t) ts" "set ts \<subseteq> T"
  shows "silent_since cfg t0 d \<Longrightarrow> alive_or_fired T d \<Longrightarrow> live_rank d \<le> length ts \<Longrightarrow>
    silent_since cfg t0 (fold (tick_at ops hooks) ts d) \<and> fired T (fold (tick_at ops hooks) ts d)"
  using assms(3,4)
proof (induction ts arbitrary: d)
  case Nil
  then show ?case by (auto simp: alive_or_fired_def live_rank_def)
next
  case (Cons t ts)
  then have "long_silent cfg t0 t" "t \<in> T" by simp_all
  from silent_rank [OF Cons.prems(1) this(1) assms(1,2) Cons.prems(2) this(2), of ops]
  have r: "alive_or_fired T (tick_at ops hooks t d)" "live_rank (tick_at ops hooks t d) \<le> length ts"
    using Cons.prems(3) by auto
  from Cons.IH [OF tick_at_silent [OF Cons.prems(1) assms(1)] r] Cons.prems(4,5) show ?case by simp
qed

lemma silent_end:
  assumes "quiet_hooks hooks" "g_plan cfg \<noteq> []" "final_ticks cfg t0 ts t1 t2" "silent_since cfg t0 d"
    and "d_state d \<in> {ARMED, WATCHING, ESCALATING}"
  shows "d_state (fold (tick_at ops hooks) (ts @ [t1, t2]) d) = DORMANT"
proof -
  let ?k = "tick_at ops hooks" let ?e = "fold ?k ts d"
  have "alive_or_fired (set ts) d" "live_rank d \<le> length ts"
    using assms(3,5) by (auto simp: alive_or_fired_def live_rank_def final_ticks_def)
  with silent_ticks [OF assms(1,2) _ order.refl assms(4)] assms(3)
  have s: "silent_since cfg t0 ?e" and f: "fired (set ts) ?e" by (auto simp: final_ticks_def)
  have s1: "silent_since cfg t0 (?k t1 ?e)" by (rule tick_at_silent [OF s assms(1)])
  note f1 = tick_at_fired(1,2) [OF s f, where t = t1 and ops = ops and hooks = hooks]
  have grace: "liquidation_grace cfg < t2 - x" if "x \<in> insert t1 (set ts)" for x
    using that assms(3) by (auto simp: final_ticks_def list_all_iff)
  have "d_state (?k t2 (?k t1 ?e)) = DORMANT"
  proof (cases "d_state (?k t1 ?e) = DORMANT")
    case True
    then show ?thesis using s1 by (auto intro!: tick_at_dormant simp: silent_since_def daemon_inv_def)
  next
    case False
    then have "d_state (?k t1 ?e) = LIQUIDATING" using f1(1) by (auto simp: fired_def)
    then show ?thesis using tick_at_fired(3) [OF s1 f1(1) _ _ grace] f1(2) by blast
  qed
  then show ?thesis by simp
qed

lemma silent_turns:
  assumes "unfed feed us" "silent_since cfg t0 (sw_daemon s)" "sw_ticking s"
    and "\<And>as t bs. ticks_of us = as @ t # bs \<Longrightarrow>
      d_state (fold (tick_at (sim_ops ref_of) no_hooks) as (sw_daemon s)) = ESCALATING \<Longrightarrow> long_silent cfg t0 t"
  shows "sw_daemon (switch_turns feed ref_of us s) = fold (tick_at (sim_ops ref_of) no_hooks) (ticks_of us) (sw_daemon s)"
  using assms
proof (induction us arbitrary: s)
  case (Cons u us)
  let ?k = "tick_at (sim_ops ref_of) no_hooks" let ?s = "switch_turn feed ref_of u s"
  have u: "unfed feed [u]" "unfed feed us" using Cons.prems(1) unfed_Cons by blast+
  have first: "long_silent cfg t0 t" if "u = Ticked t" "d_state (sw_daemon s) = ESCALATING" for t
    using Cons.prems(4) [of "[]" t "ticks_of us"] that by simp
  have st: "sw_ticking ?s" "sw_daemon ?s = fold ?k (ticks_of [u]) (sw_daemon s)"
    by (rule silent_turn [OF Cons.prems(2,3) _ u(1)], erule (1) first)+
  have "silent_since cfg t0 (sw_daemon ?s)"
    unfolding st(2) using Cons.prems(2) by (cases u) (simp_all add: tick_at_silent quiet_no_hooks)
  moreover have "long_silent cfg t0 t" if "ticks_of us = as @ t # bs" "d_state (fold ?k as (sw_daemon ?s)) = ESCALATING" for as t bs
    using Cons.prems(4) [of "ticks_of [u] @ as" t bs] that st(2) by (simp add: ticks_of_Cons [of u us])
  ultimately have "sw_daemon (switch_turns feed ref_of us ?s) = fold ?k (ticks_of us) (sw_daemon ?s)"
    by (rule Cons.IH [OF u(2) _ st(1)])
  then show ?case by (simp add: st(2) ticks_of_Cons [of u us])
qed simp

lemma silent_run:
  assumes "g_plan cfg \<noteq> []" "silent_since cfg t0 (sw_daemon s)" "sw_ticking s"
    and "d_state (sw_daemon s) \<in> {ARMED, WATCHING, ESCALATING}"
    and "unfed feed vs" "ticks_of vs = ts @ [t1, t2]" "final_ticks cfg t0 ts t1 t2"
  shows "d_state (sw_daemon (switch_turns feed ref_of vs s)) = DORMANT"
proof -
  let ?k = "tick_at (sim_ops ref_of) no_hooks" let ?d = "sw_daemon s" let ?T = "set (ts @ [t1, t2])"
  have ls: "list_all (\<lambda>t. long_silent cfg t0 t) ts" "live_rank ?d \<le> length ts" "alive_or_fired ?T ?d"
    using assms(4,7) by (auto simp: final_ticks_def live_rank_def alive_or_fired_def)
  have over: "silent_since cfg t0 (fold ?k ts ?d) \<and> fired ?T (fold ?k ts ?d)"
    by (rule silent_ticks [OF quiet_no_hooks assms(1) ls(1) _ assms(2) ls(3,2)]) auto
  have "fired ?T (?k t1 (fold ?k ts ?d))"
    using tick_at_fired(1) [of cfg t0 "fold ?k ts ?d" ?T t1 "sim_ops ref_of" no_hooks] over by (simp add: insert_absorb)
  with over have calm: "d_state (fold ?k ts ?d) \<noteq> ESCALATING" "d_state (?k t1 (fold ?k ts ?d)) \<noteq> ESCALATING"
    by (auto simp: fired_def)
  have "long_silent cfg t0 t" if "ticks_of vs = as @ t # bs" "d_state (fold ?k as ?d) = ESCALATING" for as t bs
  proof (cases "length as < length ts")
    case True
    then have "t \<in> set ts"
      using that(1) assms(6) by (metis nth_append nth_append_length nth_mem)
    with ls(1) show ?thesis by (simp add: list_all_iff)
  next
    case False
    moreover have "length as < length ts + 2" using arg_cong [OF that(1), of length] assms(6) by simp
    ultimately have "as = take (length ts) (ts @ [t1, t2]) \<or> as = take (Suc (length ts)) (ts @ [t1, t2])"
      using that(1) assms(6) by (metis append_eq_conv_conj less_SucE linorder_not_less add_2_eq_Suc' less_antisym)
    with calm that(2) show ?thesis by auto
  qed
  then have "sw_daemon (switch_turns feed ref_of vs s) = fold ?k (ticks_of vs) ?d"
    by (rule silent_turns [OF assms(5,2,3)])
  then show ?thesis
    using silent_end [OF quiet_no_hooks assms(1,7,2,4), of "sim_ops ref_of"] by (simp add: assms(6))
qed

section \<open>Properties\<close>

definition alive_reply :: "bytes list option" where
  "alive_reply = Some [[0, 0, 0, 12], alive_needle]"

lemma alive_reply: "probe_constitution alive_reply True"
  by code_simp


text \<open>A run of the watchdog: two answers, a refused connection, silence.\<close>

definition sample_turns :: "turn list" where
  "sample_turns = [Probed (Fin 0) alive_reply True, Ticked (Fin 1), Probed (Fin 2) alive_reply True]"

definition sample_silence :: "turn list" where
  "sample_silence = [Ticked (Fin 300), Probed (Fin 301) None False, Ticked (Fin 302), Ticked (Fin 303),
     Probed (Fin 304) None True, Ticked (Fin 304), Ticked (Fin 400)]"


text \<open>
  A kernel that never answered is not missed. Until the first answer of the probe the watchdog does
  not beat the switch, and an unbeaten switch counts no silence: if the kernel never comes up while
  the watchdog runs, the switch is ARMED with an empty journal, however long that lasts.
\<close>

theorem dead_from_the_start:
  assumes "unfed probe_constitution us"
  shows "case run_doomsday_service ref_of us of
     Inl _ \<Rightarrow> False
   | Inr s \<Rightarrow> d_state (sw_daemon s) = ARMED \<and> d_last_beat (sw_daemon s) = None \<and> d_journal (sw_daemon s) = []"
proof -
  have g: "g_oracle service_config = ''simulation_oracle''" by (simp add: service_config_def default_config_def)
  let ?s0 = "\<lparr>sw_daemon = init_daemon service_config (new_sim_oracle 0) None (\<lambda>_. 0), sw_ticking = True\<rparr>"
  have "at_rest service_config None ?s0" by (rule at_rest_init)
  from at_rest_turns [OF this service_config_ok(1,3), of probe_constitution us ref_of]
    unfed_punctual [OF assms, of service_config]
  show ?thesis by (simp add: run_doomsday_service_def started_eq [OF g] at_rest_def)
qed

lemma dead_from_the_start_witness:
  "case run_doomsday_service plain_hash [Probed (Fin 0) None False, Ticked (Fin 86400)] of
     Inl _ \<Rightarrow> False | Inr s \<Rightarrow> d_journal (sw_daemon s) = []"
proof -
  have "unfed probe_constitution [Probed (Fin 0) None False, Ticked (Fin 86400)]" by (simp add: probe_constitution_def)
  from dead_from_the_start [OF this, of plain_hash] show ?thesis by (simp split: sum.splits)
qed

text \<open>
  The stand-alone script beats the switch whatever the kernel does: with ticks within the grace
  period of the last turn of its own loop, it stays ARMED, whether or not anything answers.
\<close>

theorem script_beats_blindly:
  assumes "punctual (\<lambda>_ _. True) script_config (Some t0) us"
  shows "case run_doomsday_script ref_of t0 us of
     Inl _ \<Rightarrow> False
   | Inr s \<Rightarrow> d_state (sw_daemon s) = ARMED \<and> d_orders (sw_daemon s) = []"
proof -
  have g: "g_oracle script_config = ''simulation_oracle''" by (simp add: script_config_def default_config_def)
  let ?s0 = "\<lparr>sw_daemon = init_daemon script_config (new_sim_oracle 0) None (\<lambda>_. 0), sw_ticking = True\<rparr>"
  have "at_rest script_config None ?s0" by (rule at_rest_init)
  from at_rest_turns [OF this script_config_ok(1,3), of "\<lambda>_ _. True" "Probed t0 None False # us" ref_of] assms
  show ?thesis by (auto simp: run_doomsday_script_def started_eq [OF g] at_rest_def simp del: switch_turns_simps)
qed

lemma script_beats_blindly_witness:
  "case run_doomsday_script plain_hash (Fin 0) [Ticked (Fin 1), Probed (Fin 2) None False, Ticked (Fin 3)] of
     Inl _ \<Rightarrow> False | Inr s \<Rightarrow> d_state (sw_daemon s) = ARMED"
proof -
  have "punctual (\<lambda>_ _. True) script_config (Some (Fin 0)) [Ticked (Fin 1), Probed (Fin 2) None False, Ticked (Fin 3)]"
    by code_simp
  from script_beats_blindly [OF this, of plain_hash] show ?thesis by (simp split: sum.splits)
qed

text \<open>
  The commands of the orchestrator only see their own process: \<open>--status\<close> reports every service
  as stopped and \<open>--stop\<close> signals none, whatever another orchestrator is running.
\<close>

theorem commands_see_nothing:
  "or_status (orch_main w0 w1 passes Status) = map (\<lambda>svc. (sv_name svc, False)) SERVICES \<and>
   or_signalled (orch_main w0 w1 passes Stop) = []"
  by (simp add: orch_main_def cmd_status_def cmd_stop_def new_orch_def)

end
