(* ===== verification/WatcherRun.thy ===== *)
theory WatcherRun
  imports EventWatcher
begin

text \<open>
  What the watcher of \<open>cortex/cortex/event_watcher.py\<close> writes: the dictionaries of its reports, their
  JSON lines with sorted keys, and \<open>run\<close>, the loop over the lines of a stream with its heartbeats.
\<close>

section \<open>Dictionaries\<close>

definition opt_json :: "('a \<Rightarrow> json) \<Rightarrow> 'a option \<Rightarrow> json" where
  "opt_json f x = (case x of None \<Rightarrow> JNull | Some v \<Rightarrow> f v)"

fun side_name :: "side \<Rightarrow> string" where
  "side_name Bull = ''Bull''" | "side_name Bear = ''Bear''"

definition sweep_json :: "sweep \<Rightarrow> json" where
  "sweep_json s = JObj
     [(''side'', JStr (case Detectors.sw_side s of BSL \<Rightarrow> ''BSL'' | SSL \<Rightarrow> ''SSL'')), (''level'', JFloat (sw_level s)),
      (''wick_extreme'', JFloat (sw_extreme s)), (''pierced_atr'', JFloat (sw_pierced s)),
      (''reclaimed'', JBool (sw_reclaimed s)), (''close'', JFloat (sw_close s))]"

definition fakeout_json :: "fakeout \<Rightarrow> json" where
  "fakeout_json f = JObj
     [(''side'', JStr (side_name (fk_side f))), (''level'', JFloat (fk_level f)),
      (''failure_extreme'', JFloat (fk_extreme f)), (''reclaimed'', JBool (fk_reclaimed f))]"

definition squeeze_json :: "squeeze \<Rightarrow> json" where
  "squeeze_json s = JObj
     [(''ratio'', JFloat (sq_ratio s)), (''compressed'', JBool (sq_compressed s)),
      (''duration_bars'', JInt (int (sq_duration s)))]"

definition accel_json :: "accel \<Rightarrow> json" where
  "accel_json a = JObj
     [(''direction'', JStr (side_name (ac_side a))), (''accel_atr'', JFloat (ac_accel a)),
      (''range_atr'', JFloat (ac_range a)), (''absorbed'', JFloat (ac_absorbed a))]"

definition divergence_json :: "divergence \<Rightarrow> json" where
  "divergence_json d = JObj
     [(''kind'', JStr (case dv_kind d of Regular \<Rightarrow> ''regular'' | Hidden \<Rightarrow> ''hidden'')),
      (''side'', JStr (side_name (dv_side d))), (''strength'', JFloat (dv_strength d))]"

definition hit_json :: "hit \<Rightarrow> json" where
  "hit_json h = JObj
     [(''id'', JStr (hit_id h)), (''direction'', JStr (hit_direction h)), (''candles'', JInt (int (hit_candles h)))]"

definition thesis_json :: "string \<times> catalog_entry \<Rightarrow> json" where
  "thesis_json t = (case t of (i, x) \<Rightarrow> JObj
     [(''id'', JStr i), (''mechanism'', JStr (ev_mechanism x)), (''thesis'', JStr (ev_thesis x)),
      (''invalidation'', JStr (ev_invalidation x)), (''conversion'', JStr (ev_conversion x)), (''family'', JStr (ev_family x))])"

definition to_dict :: "event_report \<Rightarrow> (string \<times> json) list" where
  "to_dict r =
     [(''asset_id'', JStr (er_asset r)), (''closed_candles'', JInt (int (er_closed r))),
      (''patterns'', JList (map hit_json (er_patterns r))), (''sweep'', opt_json sweep_json (er_sweep r)),
      (''fakeout'', opt_json fakeout_json (er_fakeout r)), (''squeeze'', opt_json squeeze_json (er_squeeze r)),
      (''accel_reject'', opt_json accel_json (er_accel r)),
      (''divergences'', JList (map divergence_json (er_divergences r))), (''theses'', JList (map thesis_json (er_theses r)))]"

fun pullback_state_name :: "pullback_state \<Rightarrow> string" where
  "pullback_state_name PB_ALIGNED = ''ALIGNED''" | "pullback_state_name PB_ARMED = ''ARMED''"
| "pullback_state_name PB_RESUMED = ''RESUMED''" | "pullback_state_name PB_BROKEN = ''BROKEN''"

fun transition_name :: "pullback_event \<Rightarrow> string" where
  "transition_name Armed = ''armed''" | "transition_name Resumed = ''resumed''" | "transition_name Broken = ''broken''"

definition pullback_json :: "tracker_snapshot \<Rightarrow> pullback_event option \<Rightarrow> json" where
  "pullback_json s transition = JObj
     [(''state'', JStr (pullback_state_name (ps_state s))),
      (''direction'', JStr (if 0 < ps_direction s then ''Bull'' else if ps_direction s < 0 then ''Bear'' else ''Flat'')),
      (''impulse_atr'', case ps_impulse_atr s of None \<Rightarrow> JStr ''n/a'' | Some x \<Rightarrow> JFloat x),
      (''current_depth'', opt_json JFloat (ps_current_depth s)), (''alive_pullbacks'', JInt (int (ps_alive s))),
      (''transition'', opt_json (\<lambda>e. JStr (transition_name e)) transition)]"

fun regime_name :: "regime \<Rightarrow> string" where
  "regime_name R_SEEDING = ''SEEDING''" | "regime_name R_TREND_UP = ''TREND_UP''"
| "regime_name R_TREND_DOWN = ''TREND_DOWN''" | "regime_name R_RANGE = ''RANGE''" | "regime_name R_EXPANSION = ''EXPANSION''"

fun phase_name :: "phase \<Rightarrow> string" where
  "phase_name P_SEEDING = ''SEEDING''" | "phase_name P_COIL = ''COIL''" | "phase_name P_TREND = ''TREND''"
| "phase_name P_EXHAUSTION = ''EXHAUSTION''" | "phase_name P_EXPANSION = ''EXPANSION''"

fun bias_name :: "bias \<Rightarrow> string" where
  "bias_name Long = ''Long''" | "bias_name Short = ''Short''" | "bias_name Flat = ''Flat''"

definition context_dict :: "watch_report \<Rightarrow> json" where
  "context_dict r = JObj
     [(''regime'', JStr (regime_name (wr_regime r))), (''phase'', JStr (phase_name (wr_market_phase r))),
      (''bias'', JStr (bias_name (wr_bias r))), (''integrity'', JBool (wr_integrity r)),
      (''break_level'', opt_json JFloat (wr_break r))]"

text \<open>
  The dictionary of a report: the event report, the pullback snapshot, then what \<open>_analyze_rt\<close> or
  \<open>_analyze_closed\<close> adds. \<open>fired\<close> is the wall clock.
\<close>

definition report_json :: "pyfloat \<Rightarrow> watch_report \<Rightarrow> json" where
  "report_json fired r = JObj (to_dict (wr_events r) @
     [(''pullback'', pullback_json (wr_pullback r) (wr_transition r)),
      (''phase'', JStr (case wr_phase r of RealTime \<Rightarrow> ''rt'' | AtClose \<Rightarrow> ''close'')),
      (''fired_at'', JFloat fired), (''latency_ms'', JFloat (wr_latency r))] @
     (case wr_preview r of None \<Rightarrow> [] | Some x \<Rightarrow> [(''preview_price'', JFloat x)]) @
     [(''context'', context_dict r)])"

definition heartbeat_json :: "pyfloat \<Rightarrow> pyfloat \<Rightarrow> watcher \<Rightarrow> json" where
  "heartbeat_json uptime fired w = JObj
     [(''watcher'', JStr ''alive''), (''asset_id'', JStr (wt_asset w)),
      (''closed_candles'', JInt (int (length (wt_candles w)))), (''uptime_s'', JFloat (py_round 3 uptime)),
      (''fired_at'', JFloat fired)]"

text \<open>\<open>sort_keys=True\<close> sorts the keys of every dictionary inside.\<close>

fun sort_keys :: "json \<Rightarrow> json" where
  "sort_keys (JList vs) = JList (map sort_keys vs)"
| "sort_keys (JObj kvs) = JObj (sort_key fst (map (\<lambda>(k, v). (k, sort_keys v)) kvs))"
| "sort_keys v = v"

section \<open>The loop\<close>

definition truthy :: "json \<Rightarrow> bool" where
  "truthy v = (case v of JNull \<Rightarrow> False | JBool b \<Rightarrow> b | JInt i \<Rightarrow> i \<noteq> 0 | JFloat x \<Rightarrow> \<not> feq x 0
     | JStr s \<Rightarrow> s \<noteq> [] | JList vs \<Rightarrow> vs \<noteq> [] | JObj kvs \<Rightarrow> kvs \<noteq> [])"

text \<open>
  A line of the stream with the clocks that are read while it is handled. Its text is blank
  (\<open>None\<close>), no JSON (\<open>Some None\<close>) or a value.
\<close>

record line_in =
  ln_now :: pyfloat
  ln_tick_now :: pyfloat
  ln_wall :: pyfloat
  ln_fired :: pyfloat
  ln_uptime :: pyfloat
  ln_levels :: "pyfloat list"
  ln_text :: "json option option"

definition line_report ::
    "(string \<Rightarrow> pyfloat option) \<Rightarrow> line_in \<Rightarrow> watcher \<Rightarrow> watcher \<times> watch_report option result" where
  "line_report parse l w =
     (case ln_text l of
        Some (Some v) \<Rightarrow>
          if \<not> truthy v then (w, Ok None)
          else (case v of
              JObj kvs \<Rightarrow> watch_tick parse (ln_tick_now l) (ln_wall l) (ln_levels l) kvs w
            | _ \<Rightarrow> (w, Raise AttributeError))
      | _ \<Rightarrow> (w, Ok None))"

text \<open>The lines written, and whether the loop ended with the stream or with an exception.\<close>

fun run_watcher ::
    "(string \<Rightarrow> pyfloat option) \<Rightarrow> pyfloat \<Rightarrow> line_in list \<Rightarrow> pyfloat \<Rightarrow> watcher \<Rightarrow> watcher \<times> json list \<times> unit result" where
  "run_watcher parse beat_s [] pulse w = (w, [], Ok ())"
| "run_watcher parse beat_s (l # ls) pulse w =
     (case line_report parse l w of
        (w1, Inl e) \<Rightarrow> (w1, [], Raise e)
      | (w1, Inr (Some r)) \<Rightarrow>
          (let (w2, out, x) = run_watcher parse beat_s ls (ln_now l) w1
           in (w2, sort_keys (report_json (ln_fired l) r) # out, x))
      | (w1, Inr None) \<Rightarrow>
          if beat_s \<le> ln_now l - pulse
          then (let (w2, out, x) = run_watcher parse beat_s ls (ln_now l) w1
                in (w2, sort_keys (heartbeat_json (ln_uptime l) (ln_fired l) w1) # out, x))
          else run_watcher parse beat_s ls pulse w1)"

section \<open>Types of dictionaries\<close>

text \<open>
  A small type system for decoded JSON: \<open>conforms t v\<close> says that the value has the type, where an object
  has exactly the fields of its type, in any order.
\<close>

datatype jty =
    TBool
  | TInt
  | TFloat
  | TStr
  | TNames "string list"
  | TList jty
  | TOpt jty
  | TOr jty jty
  | TObj "(string \<times> jty) list"

fun conforms :: "jty \<Rightarrow> json \<Rightarrow> bool" where
  "conforms TBool v = (case v of JBool _ \<Rightarrow> True | _ \<Rightarrow> False)"
| "conforms TInt v = (case v of JInt _ \<Rightarrow> True | _ \<Rightarrow> False)"
| "conforms TFloat v = (case v of JFloat _ \<Rightarrow> True | _ \<Rightarrow> False)"
| "conforms TStr v = (case v of JStr _ \<Rightarrow> True | _ \<Rightarrow> False)"
| "conforms (TNames ns) v = (case v of JStr s \<Rightarrow> s \<in> set ns | _ \<Rightarrow> False)"
| "conforms (TList t) v = (case v of JList vs \<Rightarrow> list_all (conforms t) vs | _ \<Rightarrow> False)"
| "conforms (TOpt t) v = (v = JNull \<or> conforms t v)"
| "conforms (TOr t u) v = (conforms t v \<or> conforms u v)"
| "conforms (TObj ts) v = (case v of
      JObj kvs \<Rightarrow> distinct (map fst kvs) \<and> set (map fst kvs) = set (map fst ts) \<and>
        list_all (\<lambda>(k, t). case map_of kvs k of None \<Rightarrow> False | Some x \<Rightarrow> conforms t x) ts
    | _ \<Rightarrow> False)"

text \<open>Objects with strictly sorted keys, all the way down.\<close>

fun keys_sorted :: "json \<Rightarrow> bool" where
  "keys_sorted (JList vs) = list_all keys_sorted vs"
| "keys_sorted (JObj kvs) = (sorted (map fst kvs) \<and> list_all (\<lambda>(k, v). keys_sorted v) kvs)"
| "keys_sorted v = True"

abbreviation sides :: jty where "sides \<equiv> TNames [''Bull'', ''Bear'']"

definition sweep_type :: jty where
  "sweep_type = TObj [(''side'', TNames [''BSL'', ''SSL'']), (''level'', TFloat), (''wick_extreme'', TFloat),
     (''pierced_atr'', TFloat), (''reclaimed'', TBool), (''close'', TFloat)]"

definition fakeout_type :: jty where
  "fakeout_type = TObj [(''side'', sides), (''level'', TFloat), (''failure_extreme'', TFloat), (''reclaimed'', TBool)]"

definition squeeze_type :: jty where
  "squeeze_type = TObj [(''ratio'', TFloat), (''compressed'', TBool), (''duration_bars'', TInt)]"

definition accel_type :: jty where
  "accel_type = TObj [(''direction'', sides), (''accel_atr'', TFloat), (''range_atr'', TFloat), (''absorbed'', TFloat)]"

definition divergence_type :: jty where
  "divergence_type = TObj [(''kind'', TNames [''regular'', ''hidden'']), (''side'', sides), (''strength'', TFloat)]"

definition hit_type :: jty where
  "hit_type = TObj [(''id'', TStr), (''direction'', TStr), (''candles'', TInt)]"

definition thesis_type :: jty where
  "thesis_type = TObj [(''id'', TStr), (''mechanism'', TStr), (''thesis'', TStr), (''invalidation'', TStr),
     (''conversion'', TStr), (''family'', TStr)]"

definition pullback_type :: jty where
  "pullback_type = TObj [(''state'', TNames [''ALIGNED'', ''ARMED'', ''RESUMED'', ''BROKEN'']),
     (''direction'', TNames [''Bull'', ''Bear'', ''Flat'']), (''impulse_atr'', TOr TFloat (TNames [''n/a''])),
     (''current_depth'', TOpt TFloat), (''alive_pullbacks'', TInt),
     (''transition'', TOpt (TNames [''armed'', ''resumed'', ''broken'']))]"

definition context_type :: jty where
  "context_type = TObj [(''regime'', TNames [''SEEDING'', ''TREND_UP'', ''TREND_DOWN'', ''RANGE'', ''EXPANSION'']),
     (''phase'', TNames [''SEEDING'', ''COIL'', ''TREND'', ''EXHAUSTION'', ''EXPANSION'']),
     (''bias'', TNames [''Long'', ''Short'', ''Flat'']), (''integrity'', TBool), (''break_level'', TOpt TFloat)]"

definition report_fields :: "string \<Rightarrow> (string \<times> jty) list" where
  "report_fields phase_tag =
     [(''asset_id'', TStr), (''closed_candles'', TInt), (''patterns'', TList hit_type), (''sweep'', TOpt sweep_type),
      (''fakeout'', TOpt fakeout_type), (''squeeze'', TOpt squeeze_type), (''accel_reject'', TOpt accel_type),
      (''divergences'', TList divergence_type), (''theses'', TList thesis_type), (''pullback'', pullback_type),
      (''phase'', TNames [phase_tag]), (''fired_at'', TFloat), (''latency_ms'', TFloat), (''context'', context_type)]"

definition heartbeat_type :: jty where
  "heartbeat_type = TObj [(''watcher'', TNames [''alive'']), (''asset_id'', TStr), (''closed_candles'', TInt),
     (''uptime_s'', TFloat), (''fired_at'', TFloat)]"

text \<open>A line of the watcher: a closing report, a real-time report with its preview price, or a heartbeat.\<close>

definition line_type :: jty where
  "line_type = TOr (TObj (report_fields ''close''))
     (TOr (TObj (report_fields ''rt'' @ [(''preview_price'', TFloat)])) heartbeat_type)"

section \<open>Sorting keys\<close>

lemma map_fst_values: "map fst (map (\<lambda>(k, v). (k, f v)) kvs) = map fst kvs"
  by (induction kvs) auto

lemma map_of_values: "map_of (map (\<lambda>(k, v). (k, f v)) kvs) k = map_option f (map_of kvs k)"
  by (induction kvs) auto

lemma map_of_sorted:
  assumes "distinct (map fst kvs)"
  shows "map_of (sort_key fst kvs) = map_of kvs"
proof -
  have "inj_on fst (set kvs)" using assms by (simp add: distinct_map)
  then have "distinct (map fst (sort_key fst kvs))" using assms by (simp add: distinct_map)
  moreover have "set (sort_key fst kvs) = set kvs" by simp
  ultimately show ?thesis using assms map_of_inject_set by blast
qed

lemma conforms_sort_keys: "conforms t v \<Longrightarrow> conforms t (sort_keys v)"
proof (induction t arbitrary: v)
  case (TList t)
  then show ?case by (auto simp: list_all_iff split: json.splits)
next
  case (TObj ts)
  from TObj.prems obtain kvs where v: "v = JObj kvs" and d: "distinct (map fst kvs)" "set (map fst kvs) = set (map fst ts)"
    and f: "\<And>k t. (k, t) \<in> set ts \<Longrightarrow> \<exists>x. map_of kvs k = Some x \<and> conforms t x"
    by (fastforce simp: list_all_iff split: json.splits option.splits)
  let ?kvs = "map (\<lambda>(k, v). (k, sort_keys v)) kvs"
  have keys: "map fst ?kvs = map fst kvs" by (rule map_fst_values)
  have "map_of (sort_key fst ?kvs) = map_of ?kvs" by (rule map_of_sorted) (simp only: keys d(1))
  then have m: "map_of (sort_key fst ?kvs) k = map_option sort_keys (map_of kvs k)" for k
    by (simp only: map_of_values)
  have "distinct (map fst (sort_key fst ?kvs))"
    using keys d(1) by (metis distinct_map distinct_sort set_sort)
  moreover have "set (map fst (sort_key fst ?kvs)) = set (map fst ts)"
    using keys d(2) by (metis set_map set_sort)
  moreover have "case map_of (sort_key fst ?kvs) k of None \<Rightarrow> False | Some x \<Rightarrow> conforms t x" if "(k, t) \<in> set ts" for k t
    using f [OF that] TObj.IH [OF that] unfolding m by auto
  ultimately show ?case
    unfolding v by (simp add: list_all_iff del: set_map set_sort) (auto simp: m)
qed (auto split: json.splits)

lemma keys_sorted_sort_keys: "keys_sorted (sort_keys v)"
proof (induction v)
  case (JObj kvs)
  then show ?case
    by (auto simp: list_all_iff map_fst_values snds.simps split: prod.splits)
qed (auto simp: list_all_iff)

section \<open>Reports conform\<close>

lemma conforms_opt: "(\<And>x. conforms t (f x)) \<Longrightarrow> conforms (TOpt t) (opt_json f o')"
  by (cases o') (simp_all add: opt_json_def)

lemma conforms_list: "(\<And>x. conforms t (f x)) \<Longrightarrow> conforms (TList t) (JList (map f xs))"
  by (simp add: list_all_iff)

lemma names:
  "conforms sides (JStr (side_name x))"
  "conforms (TNames [''ALIGNED'', ''ARMED'', ''RESUMED'', ''BROKEN'']) (JStr (pullback_state_name p))"
  "conforms (TNames [''armed'', ''resumed'', ''broken'']) (JStr (transition_name e))"
  "conforms (TNames [''SEEDING'', ''TREND_UP'', ''TREND_DOWN'', ''RANGE'', ''EXPANSION'']) (JStr (regime_name r))"
  "conforms (TNames [''SEEDING'', ''COIL'', ''TREND'', ''EXHAUSTION'', ''EXPANSION'']) (JStr (phase_name m))"
  "conforms (TNames [''Long'', ''Short'', ''Flat'']) (JStr (bias_name b))"
  by ((cases x; simp), (cases p; simp), (cases e; simp), (cases r; simp), (cases m; simp), (cases b; simp))

lemma detector_types:
  "conforms sweep_type (sweep_json s)" "conforms fakeout_type (fakeout_json f)" "conforms squeeze_type (squeeze_json q)"
  "conforms accel_type (accel_json a)" "conforms divergence_type (divergence_json d)"
  "conforms hit_type (hit_json h)" "conforms thesis_type (thesis_json t)"
  using names(1)
  by (simp_all add: sweep_type_def sweep_json_def fakeout_type_def fakeout_json_def squeeze_type_def squeeze_json_def
      accel_type_def accel_json_def divergence_type_def divergence_json_def hit_type_def hit_json_def thesis_type_def
      thesis_json_def split: pool.splits div_kind.splits prod.splits)

lemma pullback_conforms: "conforms pullback_type (pullback_json s transition)"
  using names(2,3) by (simp add: pullback_type_def pullback_json_def opt_json_def split: option.splits)

lemma context_conforms: "conforms context_type (context_dict r)"
  using names(4,5,6) by (simp add: context_type_def context_dict_def opt_json_def split: option.splits)

text \<open>Real-time reports and only they have a preview price.\<close>

definition tagged :: "watch_report \<Rightarrow> bool" where
  "tagged r \<longleftrightarrow> (wr_phase r = RealTime) = (wr_preview r \<noteq> None)"

lemma field_types:
  "conforms (TOpt sweep_type) (opt_json sweep_json s)" "conforms (TOpt fakeout_type) (opt_json fakeout_json f)"
  "conforms (TOpt squeeze_type) (opt_json squeeze_json q)" "conforms (TOpt accel_type) (opt_json accel_json a)"
  "conforms (TList divergence_type) (JList (map divergence_json ds))" "conforms (TList hit_type) (JList (map hit_json hs))"
  "conforms (TList thesis_type) (JList (map thesis_json ts))"
  by (intro conforms_opt conforms_list detector_types)+

lemmas to_fields = report_fields_def report_json_def to_dict_def field_types pullback_conforms context_conforms

lemma report_conforms:
  assumes "tagged r"
  shows "conforms line_type (report_json fired r)"
proof (cases "wr_phase r")
  case RealTime
  then obtain x where "wr_preview r = Some x" using assms by (auto simp: tagged_def)
  with RealTime have "conforms (TObj (report_fields ''rt'' @ [(''preview_price'', TFloat)])) (report_json fired r)"
    by (simp add: to_fields insert_commute del: conforms.simps(6,7))
  then show ?thesis by (simp add: line_type_def)
next
  case AtClose
  then have "wr_preview r = None" using assms by (auto simp: tagged_def)
  with AtClose have "conforms (TObj (report_fields ''close'')) (report_json fired r)"
    by (simp add: to_fields insert_commute del: conforms.simps(6,7))
  then show ?thesis by (simp add: line_type_def)
qed

lemma heartbeat_conforms: "conforms line_type (heartbeat_json uptime fired w)"
  by (simp add: line_type_def heartbeat_type_def heartbeat_json_def)

section \<open>The lines of a run\<close>

lemma analyze_candles_tagged:
  "analyze_candles ph lat pv levels cs c w = (w', Ok r) \<Longrightarrow> (ph = RealTime) = (pv \<noteq> None) \<Longrightarrow> tagged r"
  by (auto simp: analyze_candles_def tagged_def Let_def split: sum.splits prod.splits)

lemma analyze_rt_tagged: "analyze_rt ts levels w = (w', Ok (Some r)) \<Longrightarrow> tagged r"
  by (auto simp: analyze_rt_def dest!: analyze_candles_tagged split: if_splits sum.splits option.splits prod.splits)

lemma rt_report_tagged: "rt_report now ts levels w = (w', Ok (Some r)) \<Longrightarrow> tagged r"
  by (auto simp: rt_report_def dest!: analyze_rt_tagged split: if_splits sum.splits option.splits prod.splits)

lemma watch_price_tagged: "watch_price now wall levels price ts w = (w', Ok (Some r)) \<Longrightarrow> tagged r"
  by (auto simp: watch_price_def analyze_closed_def dest!: rt_report_tagged analyze_candles_tagged
      split: if_splits sum.splits option.splits prod.splits)

lemma line_report_tagged: "line_report parse l w = (w', Ok (Some r)) \<Longrightarrow> tagged r"
  by (auto simp: line_report_def watch_tick_def dest!: watch_price_tagged
      split: if_splits sum.splits option.splits prod.splits json.splits)

lemma run_watcher_lines:
  "run_watcher parse beat_s ls pulse w = (w', out, x) \<Longrightarrow> list_all (\<lambda>v. conforms line_type v \<and> keys_sorted v) out"
proof (induction ls arbitrary: pulse w w' out x)
  case (Cons l ls)
  let ?P = "\<lambda>v. conforms line_type v \<and> keys_sorted v"
  obtain w1 r where r: "line_report parse l w = (w1, r)" by fastforce
  obtain wa oa xa where a: "run_watcher parse beat_s ls (ln_now l) w1 = (wa, oa, xa)"
    by (cases "run_watcher parse beat_s ls (ln_now l) w1") auto
  have line: "?P (sort_keys v)" if "conforms line_type v" for v
    using conforms_sort_keys [OF that] keys_sorted_sort_keys by blast
  consider e where "r = Raise e" | rep where "r = Ok (Some rep)" | "r = Ok None"
    by (metis sum.exhaust option.exhaust)
  then show ?case
  proof cases
    case 1
    with Cons.prems r show ?thesis by simp
  next
    case (2 rep)
    then have "out = sort_keys (report_json (ln_fired l) rep) # oa" using Cons.prems a r by (simp add: Let_def)
    moreover have "tagged rep" using line_report_tagged r 2 by blast
    ultimately show ?thesis using Cons.IH [OF a] line [OF report_conforms] by simp
  next
    case 3
    show ?thesis
    proof (cases "beat_s \<le> ln_now l - pulse")
      case True
      then have "out = sort_keys (heartbeat_json (ln_uptime l) (ln_fired l) w1) # oa"
        using Cons.prems a r 3 by (simp add: Let_def)
      then show ?thesis using Cons.IH [OF a] line [OF heartbeat_conforms] by simp
    next
      case False
      then show ?thesis using Cons.IH Cons.prems r 3 by simp
    qed
  qed
qed simp

section \<open>Properties\<close>

text \<open>
  C11: Everything the watcher writes is well typed. Whatever lines come in, each line that \<open>run\<close> writes
  before it ends, by the end of the stream or by an exception, is an object with sorted keys and exactly
  the fields, of the right types and with the documented words, of a closing report, of a real-time
  report (which alone has a preview price) or of a heartbeat.
\<close>

theorem watcher_output_typed:
  "case run_watcher parse beat_s ls pulse w of (w', out, x) \<Rightarrow>
     list_all (\<lambda>v. conforms line_type v \<and> keys_sorted v) out"
  using run_watcher_lines [of parse beat_s ls pulse w] by (auto split: prod.splits)

text \<open>
  One stray line ends the watch. A line with a JSON value that is truthy but no object, such as a
  bare number, raises \<open>AttributeError\<close> out of the loop (only undecodable text is caught): after it nothing is
  read or written, and the heartbeats cease.
\<close>

theorem stray_value_ends_watch:
  assumes "ln_text l = Some (Some v)" "truthy v" "\<forall>kvs. v \<noteq> JObj kvs"
  shows "run_watcher parse beat_s (ls @ l # ls') pulse w =
    (case run_watcher parse beat_s ls pulse w of
       (w', out, Inl e) \<Rightarrow> (w', out, Raise e) | (w', out, Inr _) \<Rightarrow> (w', out, Raise AttributeError))"
proof (induction ls arbitrary: pulse w)
  case Nil
  have "line_report parse l w = (w, Raise AttributeError)"
    using assms by (simp add: line_report_def split: json.splits)
  then show ?case by simp
next
  case (Cons k ks)
  obtain w1 r where r: "line_report parse k w = (w1, r)" by fastforce
  consider e where "r = Raise e" | rep where "r = Ok (Some rep)" | "r = Ok None"
    by (metis sum.exhaust option.exhaust)
  then show ?case
    by cases (use r Cons in \<open>simp_all add: Let_def split: prod.splits sum.splits\<close>)
qed

text \<open>A line with a JSON value, all clocks at \<open>t\<close>.\<close>

definition line_at :: "pyfloat \<Rightarrow> json option option \<Rightarrow> line_in" where
  "line_at t text = \<lparr>ln_now = t, ln_tick_now = t, ln_wall = t, ln_fired = t, ln_uptime = t, ln_levels = [], ln_text = text\<rparr>"

theorem stray_value_ends_watch_witness:
  "snd (snd (run_watcher (\<lambda>_. None) (Fin 10) ([line_at (Fin 20) None] @ line_at (Fin 21) (Some (Some (JInt 5))) # [line_at (Fin 40) None]) 0 sample_watcher))
     = Raise AttributeError"
proof -
  have "ln_text (line_at (Fin 21) (Some (Some (JInt 5)))) = Some (Some (JInt 5))" "truthy (JInt 5)" "\<forall>kvs. JInt 5 \<noteq> JObj kvs"
    by (simp_all add: line_at_def truthy_def)
  from stray_value_ends_watch [OF this, of "\<lambda>_. None" "Fin 10" "[line_at (Fin 20) None]" "[line_at (Fin 40) None]" 0 sample_watcher]
  show ?thesis by (simp add: line_report_def line_at_def Let_def)
qed

end
