(* ===== verification/TradingCli.thy ===== *)
theory TradingCli
  imports Drivers
begin

text \<open>
  The command lines around the trading pipeline: \<open>main\<close> of \<open>cortex/cortex/trading_daemon.py\<close> with the
  reading of ticks from a replay file or from standard input, the loop of \<open>run_trading.py\<close>, and \<open>main\<close> of
  \<open>cortex/cortex/engine.py\<close>. Arguments are parsed; the text of a line is a decoded value, or is none.
\<close>

section \<open>Ticks from outside\<close>

text \<open>
  \<open>dict(market_tick)\<close>: an object is copied; another iterable must consist of pairs. A key that is no
  string (the \<open>None\<close> of \<open>pair_of\<close>) is kept by Python but looked up by nobody.
\<close>

definition pair_of :: "json \<Rightarrow> (string \<times> json) option result" where
  "pair_of v =
     (case v of
        JList [k, x] \<Rightarrow> (case k of
            JStr s \<Rightarrow> Ok (Some (s, x))
          | JList _ \<Rightarrow> Raise TypeError
          | JObj _ \<Rightarrow> Raise TypeError
          | _ \<Rightarrow> Ok None)
      | JList _ \<Rightarrow> Raise ValueError
      | JStr [a, b] \<Rightarrow> Ok (Some ([a], JStr [b]))
      | JStr _ \<Rightarrow> Raise ValueError
      | JObj [(k, _), (k', _)] \<Rightarrow> Ok (Some (k, JStr k'))
      | JObj _ \<Rightarrow> Raise ValueError
      | _ \<Rightarrow> Raise TypeError)"

fun pairs_of :: "json list \<Rightarrow> obj \<Rightarrow> obj result" where
  "pairs_of [] kvs = Ok kvs"
| "pairs_of (v # vs) kvs =
     rbind (pair_of v) (\<lambda>p. pairs_of vs (case p of None \<Rightarrow> kvs | Some (k, x) \<Rightarrow> AList.update k x kvs))"

text \<open>What iterating over a decoded value yields: list elements, keys, characters.\<close>

definition elements_of :: "json \<Rightarrow> json list result" where
  "elements_of v =
     (case v of
        JList vs \<Rightarrow> Ok vs
      | JObj kvs \<Rightarrow> Ok (map (\<lambda>kv. JStr (fst kv)) kvs)
      | JStr s \<Rightarrow> Ok (map (\<lambda>c. JStr [c]) s)
      | _ \<Rightarrow> Raise TypeError)"

definition as_dict :: "json \<Rightarrow> obj result" where
  "as_dict v = (case v of JObj kvs \<Rightarrow> Ok kvs | _ \<Rightarrow> rbind (elements_of v) (\<lambda>vs. pairs_of vs []))"

text \<open>
  What happens to the loop: a tick arrives, an undecodable or a blank line is read, or the thread of the
  switch ticks. A time, where given, is what the switch's clock then reads.
\<close>

datatype input = Arrives string json | Garbled | Blank | Pulses

definition at_time :: "pyfloat option \<Rightarrow> ('a, 'o) trading \<Rightarrow> ('a, 'o) trading" where
  "at_time now s = (case now of None \<Rightarrow> s | Some t \<Rightarrow> s\<lparr>td_switch := (td_switch s)\<lparr>d_clock := \<lambda>_. t\<rparr>\<rparr>)"

fun run_inputs ::
    "'o oracle_ops \<Rightarrow> 'o hooks \<Rightarrow> 'a venue \<Rightarrow> constitution \<Rightarrow> (string \<Rightarrow> pyfloat option) \<Rightarrow> (json \<Rightarrow> string) \<Rightarrow>
      (pyfloat option \<times> input) list \<Rightarrow> ('a, 'o) trading \<Rightarrow> ('a, 'o) trading \<times> unit result" where
  "run_inputs ops hooks ven judge parse render [] s = (s, Ok ())"
| "run_inputs ops hooks ven judge parse render ((now, Pulses) # is) s =
     run_inputs ops hooks ven judge parse render is (switch_tick ops hooks (at_time now s))"
| "run_inputs ops hooks ven judge parse render ((now, Blank) # is) s =
     run_inputs ops hooks ven judge parse render is (at_time now s)"
| "run_inputs ops hooks ven judge parse render ((now, Garbled) # is) s = (at_time now s, Raise ValueError)"
| "run_inputs ops hooks ven judge parse render ((now, Arrives uuid v) # is) s =
     (let s0 = at_time now s in
      if \<not> td_running s0 then (s0, Ok ())
      else case as_dict v of
          Inl e \<Rightarrow> (s0, Raise e)
        | Inr kvs \<Rightarrow>
            (case process_tick ven judge parse render uuid kvs s0 of
               (s', Inl e) \<Rightarrow> (s', Raise e)
             | (s', Inr _) \<Rightarrow> run_inputs ops hooks ven judge parse render is s'))"

definition run_source ::
    "'o oracle_ops \<Rightarrow> 'o hooks \<Rightarrow> 'a venue \<Rightarrow> constitution \<Rightarrow> (string \<Rightarrow> pyfloat option) \<Rightarrow> (json \<Rightarrow> string) \<Rightarrow>
      (pyfloat option \<times> input) list \<Rightarrow> ('a, 'o) trading \<Rightarrow> ('a, 'o) trading \<times> unit result" where
  "run_source ops hooks ven judge parse render is s =
     (let (s', r) = run_inputs ops hooks ven judge parse render is s in (s'\<lparr>td_ticking := False\<rparr>, r))"

section \<open>Starting\<close>

record trading_args =
  ta_asset :: string
  ta_equity :: pyfloat
  ta_heartbeat :: pyfloat
  ta_tick :: pyfloat
  ta_data :: "string option"

definition default_trading_args :: trading_args where
  "default_trading_args =
     \<lparr>ta_asset = ''EURUSD'', ta_equity = Fin 100000, ta_heartbeat = Fin 5, ta_tick = Fin 60, ta_data = None\<rparr>"

text \<open>
  \<open>main\<close> up to the loop: the daemon, the replay file (\<open>file\<close>: what is decoded from it, or why not), the
  session (\<open>reach\<close>). A replay of \<open>null\<close> is no replay, so that the loop reads standard input. The result is
  the running daemon and the values of the replay.
\<close>

definition trading_main ::
    "(string \<Rightarrow> json result) \<Rightarrow> unit result \<Rightarrow> (nat \<Rightarrow> pyfloat) \<Rightarrow> trading_args \<Rightarrow>
      ((order_intent list, sim_oracle) trading \<times> json list option) result" where
  "trading_main file reach clk args =
     rbind (new_trading (ta_asset args) (ta_equity args) (ta_heartbeat args) None clk) (\<lambda>s.
     rbind (case ta_data args of
         None \<Rightarrow> Ok JNull
       | Some path \<Rightarrow> if path = [] then Ok JNull else file path) (\<lambda>ticks.
     rbind reach (\<lambda>_.
     if ticks = JNull then Ok (start_trading s, None)
     else rbind (elements_of ticks) (\<lambda>vs. Ok (start_trading s, Some vs)))))"

text \<open>\<open>run_trading.py\<close>: the loop over generated ticks.\<close>

definition run_trading_script ::
    "'o oracle_ops \<Rightarrow> 'o hooks \<Rightarrow> 'a venue \<Rightarrow> constitution \<Rightarrow> (string \<Rightarrow> pyfloat option) \<Rightarrow> (json \<Rightarrow> string) \<Rightarrow>
      (string \<times> pyfloat \<times> bool \<times> pyfloat \<times> int) option list \<Rightarrow> ('a, 'o) trading \<Rightarrow> ('a, 'o) trading \<times> unit result" where
  "run_trading_script ops hooks ven judge parse render draws s =
     run_loop ops hooks ven judge parse render
       (map (\<lambda>d. case d of
           None \<Rightarrow> SwitchTick
         | Some (uuid, volatility, momentum, gauss, now) \<Rightarrow>
             Market uuid (generate_tick ''EURUSD'' (lit (108 / 100)) volatility momentum gauss now)) draws)
       s"

text \<open>\<open>main\<close> of the engine: one proposal from command-line values.\<close>

definition engine_main ::
    "(string \<Rightarrow> pyfloat option) \<Rightarrow> (json \<Rightarrow> string) \<Rightarrow> string \<Rightarrow> string \<Rightarrow> pyfloat \<Rightarrow> pyfloat \<Rightarrow> string \<Rightarrow> int \<Rightarrow> pyfloat \<Rightarrow>
      trade_proposal option result" where
  "engine_main parse render uuid asset price equity trend momentum volatility =
     evaluate_market_tick parse render uuid asset
       [(''price'', JFloat price), (''account_equity'', JFloat equity), (''trend'', JStr trend),
        (''momentum_signal'', JBool (momentum \<noteq> 0)), (''volatility'', JFloat volatility)]"

section \<open>Lemmas\<close>

lemma handle_dump_running: "td_running (fst (handle_verdict ven verdict (dump p) s)) = td_running s"
  by (auto simp: handle_verdict_def handle_approved_def route_dump split: sum.splits bool.splits option.splits)

lemma process_tick_running:
  "td_running (fst (process_tick ven judge parse render uuid kvs s)) = td_running s"
proof -
  have "td_running (fst (adjudicate ven judge p s)) = td_running s" for p
    by (auto simp: adjudicate_def handle_dump_running split: sum.splits)
  then show ?thesis
    by (auto simp: process_tick_def split: sum.splits option.splits prod.splits) (metis fst_conv)+
qed

lemma at_time_running [simp]: "td_running (at_time now s) = td_running s" "td_ticking (at_time now s) = td_ticking s"
  by (simp_all add: at_time_def split: option.splits)

lemma switch_tick_running [simp]: "td_running (switch_tick ops hooks s) = td_running s"
  by (simp add: switch_tick_def)

lemma run_inputs_append:
  assumes "run_inputs ops hooks ven judge parse render is s = (s', Ok ())" "td_running s"
  shows "run_inputs ops hooks ven judge parse render (is @ js) s = run_inputs ops hooks ven judge parse render js s'"
  using assms
proof (induction "is" arbitrary: s)
  case (Cons i "is")
  obtain now x where i: "i = (now, x)" by (cases i)
  show ?case
  proof (cases x)
    case (Arrives uuid v)
    from Cons.prems obtain kvs where kvs: "as_dict v = Ok kvs"
      by (auto simp: i Arrives Let_def split: sum.splits)
    obtain s1 r where p: "process_tick ven judge parse render uuid kvs (at_time now s) = (s1, r)" by fastforce
    have "td_running s1" using process_tick_running [of ven judge parse render uuid kvs "at_time now s"] p Cons.prems(2) by simp
    with Cons p kvs show ?thesis by (cases r) (simp_all add: i Arrives)
  qed (use Cons in \<open>simp_all add: i\<close>)
qed simp

text \<open>Inputs that are events of the loop: dictionaries, pulses and blank lines, without times.\<close>

fun event_of :: "pyfloat option \<times> input \<Rightarrow> trading_event list option" where
  "event_of (None, Arrives uuid (JObj kvs)) = Some [Market uuid kvs]"
| "event_of (None, Pulses) = Some [SwitchTick]"
| "event_of (None, Blank) = Some []"
| "event_of _ = None"

fun events_of :: "(pyfloat option \<times> input) list \<Rightarrow> trading_event list option" where
  "events_of [] = Some []"
| "events_of (i # is) = (case (event_of i, events_of is) of (Some e, Some es) \<Rightarrow> Some (e @ es) | _ \<Rightarrow> None)"

lemma run_inputs_events:
  "events_of is = Some es \<Longrightarrow>
     run_inputs ops hooks ven judge parse render is s = run_events ops hooks ven judge parse render es s"
proof (induction "is" arbitrary: es s)
  case (Cons i "is")
  from Cons.prems obtain e es' where e: "event_of i = Some e" "events_of is = Some es'" "es = e @ es'"
    by (auto split: option.splits)
  note ih = Cons.IH [OF e(2)]
  from e(1) show ?case
    by (cases rule: event_of.cases [of i])
      (use e(3) ih in \<open>auto simp: at_time_def as_dict_def split: sum.splits prod.splits\<close>)
qed simp

text \<open>A switch that was beaten at \<open>t0\<close>, one tick after the grace period and one after the escalation period.\<close>

lemma late_ticks:
  assumes "g_enabled (d_config d)" "d_last_beat d = Some t0"
  shows "d_state d = ARMED \<Longrightarrow> grace_period (d_config d) < t - t0 \<Longrightarrow>
      d_state (tick_at ops hooks t d) = WATCHING \<and> d_config (tick_at ops hooks t d) = d_config d \<and>
      d_last_beat (tick_at ops hooks t d) = Some t0"
    and "d_state d = WATCHING \<Longrightarrow> \<not> t - t0 \<le> grace_period (d_config d) \<Longrightarrow>
      grace_period (d_config d) + escalation_period (d_config d) < t - t0 \<Longrightarrow>
      d_state (tick_at ops hooks t d) = ESCALATING"
  using assms by (simp_all add: tick_at_def tick_def read_clock_def tick_armed_def tick_watching_def)

section \<open>Properties\<close>

text \<open>
  Reading ticks from lines or from a replay is the trading loop: on inputs that decode to objects, with
  blank lines and pulses of the switch in between, the run from outside is the loop over the same events,
  so that all that holds of the loop holds of it.
\<close>

theorem source_refines_loop:
  assumes "events_of is = Some es"
  shows "run_source ops hooks ven judge parse render is s = run_loop ops hooks ven judge parse render es s"
  using run_inputs_events [OF assms, of ops hooks ven judge parse render s] by (simp add: run_source_def run_loop_def)

lemma source_refines_loop_witness:
  "\<forall>ops hooks. run_source ops hooks mock_venue (\<lambda>_ _. Raise ConnectionError) (\<lambda>_. None) (\<lambda>_. [])
     [(None, Blank), (None, Arrives ''u'' (JObj [])), (None, Pulses)] sample_trading =
   run_loop ops hooks mock_venue (\<lambda>_ _. Raise ConnectionError) (\<lambda>_. None) (\<lambda>_. []) [Market ''u'' [], SwitchTick] sample_trading"
  by (intro allI source_refines_loop) simp

text \<open>
  One garbled line ends trading and disarms its guard: after any run that has gone well so far, an
  undecodable line raises out of the loop, whose cleanup stops the thread of the switch, whatever would
  have come after it.
\<close>

theorem garbled_line_ends_trading:
  assumes "run_inputs ops hooks ven judge parse render is s = (s', Ok ())" "td_running s"
  shows "run_source ops hooks ven judge parse render (is @ (None, Garbled) # js) s =
    (s'\<lparr>td_ticking := False\<rparr>, Raise ValueError)"
  using run_inputs_append [OF assms] by (simp add: run_source_def at_time_def)

lemma garbled_line_ends_trading_witness:
  "\<forall>ops hooks. run_source ops hooks mock_venue (\<lambda>_ _. Raise ConnectionError) (\<lambda>_. None) (\<lambda>_. [])
     ([(None, Blank)] @ (None, Garbled) # [(None, Pulses)]) sample_trading =
   (sample_trading\<lparr>td_ticking := False\<rparr>, Raise ValueError)"
  by (intro allI garbled_line_ends_trading) (simp_all add: at_time_def sample_trading_def)



end
