(* ===== verification/MeshService.thy ===== *)
theory MeshService
  imports Mesh EdgeNode Boot
begin

text \<open>
  The mesh in service: the server side of \<open>mesh/mesh/peer_transport.py\<close>, the synchronous facade
  \<open>propose_state_update\<close> with the time its peers take, and the mesh nodes that the orchestrator of
  \<open>centaur_start.py\<close> launches.
\<close>

section \<open>The server of a node\<close>

record endpoint =
  ep_host :: string
  ep_port :: nat
  ep_serving :: bool

definition new_endpoint :: "string \<Rightarrow> nat \<Rightarrow> endpoint" where
  "new_endpoint host port = \<lparr>ep_host = host, ep_port = port, ep_serving = False\<rparr>"

definition endpoint_url :: "endpoint \<Rightarrow> string" where
  "endpoint_url ep = ''ws://'' @ ep_host ep @ '':'' @ digits_of (ep_port ep)"

text \<open>What binding an address gives: the port the system chose, or the exception.\<close>

type_synonym listen_call = "string \<Rightarrow> nat \<Rightarrow> nat result"

definition serve :: "listen_call \<Rightarrow> endpoint \<Rightarrow> endpoint result" where
  "serve bind ep =
     (if ep_serving ep then Ok ep
      else rbind (bind (ep_host ep) (ep_port ep)) (\<lambda>p. Ok (ep\<lparr>ep_port := p, ep_serving := True\<rparr>)))"

definition close_endpoint :: "endpoint \<Rightarrow> endpoint" where
  "close_endpoint ep = (if ep_serving ep then ep\<lparr>ep_serving := False\<rparr> else ep)"

datatype endpoint_op = Serve listen_call | Close

fun endpoint_step :: "endpoint_op \<Rightarrow> endpoint \<Rightarrow> endpoint" where
  "endpoint_step (Serve bind) ep = or_same ep (serve bind ep)"
| "endpoint_step Close ep = close_endpoint ep"

text \<open>Listening gives the port it was asked for, or a free one when asked for port 0.\<close>

definition binds :: "listen_call \<Rightarrow> bool" where
  "binds bind \<longleftrightarrow> (\<forall>h p q. bind h p = Ok q \<longrightarrow> 0 < q \<and> (0 < p \<longrightarrow> q = p))"

fun op_binds :: "endpoint_op \<Rightarrow> bool" where
  "op_binds (Serve bind) = binds bind"
| "op_binds Close = True"

lemma endpoint_step_url:
  assumes "op_binds op" "0 < ep_port ep"
  shows "ep_port (endpoint_step op ep) = ep_port ep \<and> ep_host (endpoint_step op ep) = ep_host ep"
proof (cases op)
  case (Serve bind)
  then show ?thesis
    using assms by (cases "bind (ep_host ep) (ep_port ep)") (auto simp: serve_def or_same_def binds_def)
qed (simp add: close_endpoint_def)

lemma endpoint_fold_url:
  "list_all op_binds ops \<Longrightarrow> 0 < ep_port ep \<Longrightarrow>
     ep_port (fold endpoint_step ops ep) = ep_port ep \<and> ep_host (fold endpoint_step ops ep) = ep_host ep"
  by (induction ops arbitrary: ep) (simp_all add: endpoint_step_url)

text \<open>
  A node keeps its address: once its server has been up, on whatever free port the system
  chose, any sequence of closing and serving again, failed attempts included, leaves the address
  that its peers have registered.
\<close>

theorem address_stable:
  assumes "binds bind" "serve bind (new_endpoint host port) = Ok ep" "list_all op_binds ops"
  shows "endpoint_url (fold endpoint_step ops ep) = endpoint_url ep"
proof -
  have "0 < ep_port ep"
    using assms(1,2) by (auto simp: serve_def new_endpoint_def binds_def rbind_Inr_iff)
  then show ?thesis using endpoint_fold_url [OF assms(3)] by (simp add: endpoint_url_def)
qed

definition next_free :: "nat \<Rightarrow> listen_call" where
  "next_free q h p = (if p = 0 then Ok (Suc q) else Ok p)"

lemma address_stable_witness:
  "let ep = \<lparr>ep_host = ''127.0.0.1'', ep_port = 4001, ep_serving = True\<rparr> in
     serve (next_free 4000) (new_endpoint ''127.0.0.1'' 0) = Ok ep \<and>
     endpoint_url (fold endpoint_step [Close, Serve (\<lambda>_ _. Raise OSError), Serve (next_free 5000)] ep) = endpoint_url ep"
proof -
  have b: "binds (next_free q)" "binds (\<lambda>_ _. Raise OSError)" for q by (auto simp: binds_def next_free_def)
  have s: "serve (next_free 4000) (new_endpoint ''127.0.0.1'' 0) =
      Ok \<lparr>ep_host = ''127.0.0.1'', ep_port = 4001, ep_serving = True\<rparr>"
    by (simp add: serve_def new_endpoint_def next_free_def)
  show ?thesis
    using address_stable [OF b(1) s, of "[Close, Serve (\<lambda>_ _. Raise OSError), Serve (next_free 5000)]"] s b by simp
qed

section \<open>Proposals take time\<close>

text \<open>
  The time (in milliseconds) until a peer has been connected to and has answered; requests and
  sends give up after three seconds. The second component of the world is the time spent.
\<close>

definition timed :: "(string \<Rightarrow> nat) \<Rightarrow> 'w transport \<Rightarrow> ('w \<times> nat) transport" where
  "timed lat tr =
     \<lparr>tr_request = (\<lambda>uri payload (w, t).
        if lat uri < 3000 then (case tr_request tr uri payload w of (r, w') \<Rightarrow> (r, (w', t + lat uri)))
        else (None, (w, t + 3000))),
      tr_send = (\<lambda>uri payload (w, t).
        if lat uri < 3000 then (tr_send tr uri payload w, t + lat uri) else (w, t + 3000))\<rparr>"

text \<open>
  \<open>propose_state_update\<close>: outside an event loop it runs the proposal; inside one it lets a thread
  do so and waits ten seconds for it. The state is the one the proposal leaves once it ends.
\<close>

definition propose_state_update ::
    "bool \<Rightarrow> (string \<Rightarrow> nat) \<Rightarrow> 'w transport option \<Rightarrow> string \<Rightarrow> string \<Rightarrow> bft_node \<Rightarrow> 'w \<Rightarrow>
     bool \<times> bft_node \<times> 'w \<times> nat" where
  "propose_state_update in_loop lat transport key val n w =
     (case propose (map_option (timed lat) transport) key val n (w, 0) of
        (ok, n', w', t) \<Rightarrow> ((if in_loop then t \<le> 10000 \<and> ok else ok), n', w', t))"

text \<open>Who is asked, and who of them does not answer in time.\<close>

definition asked :: "bft_node \<Rightarrow> (string \<times> string option) list \<Rightarrow> string list" where
  "asked n ps = map (\<lambda>(pid, uri). the uri) (filter (\<lambda>(pid, uri). \<not> is_faulty n pid \<and> usable uri) ps)"

definition unresponsive :: "(string \<Rightarrow> nat) \<Rightarrow> bft_node \<Rightarrow> nat" where
  "unresponsive lat n = length (filter (\<lambda>uri. 3000 \<le> lat uri) (asked n (b_peers n)))"

definition time_of :: "(string \<Rightarrow> nat) \<Rightarrow> string list \<Rightarrow> nat" where
  "time_of lat us = sum_list (map (\<lambda>u. min (lat u) 3000) us)"

lemma collect_loop_time:
  "collect_loop (timed lat tr) n payload ps votes byz (w, t) = (v, b, w', t') \<Longrightarrow> t' = t + time_of lat (asked n ps)"
proof (induction ps arbitrary: votes byz w t)
  case (Cons p ps)
  obtain pid uri where p: "p = (pid, uri)" by fastforce
  obtain r w1 t1 where r: "tr_request (timed lat tr) (the uri) payload (w, t) = (r, w1, t1)" using prod_cases3 by blast
  then have "t1 = t + min (lat (the uri)) 3000" by (auto simp: timed_def split: if_splits prod.splits)
  then show ?case
    using Cons.IH Cons.prems p r by (fastforce simp: asked_def time_of_def split: if_splits)
qed (simp add: asked_def time_of_def)

lemma broadcast_time:
  "snd (fold (\<lambda>(pid, uri) w. if usable uri then tr_send (timed lat tr) (the uri) payload w else w) ps wt) =
     snd wt + time_of lat (map (\<lambda>(pid, uri). the uri) (filter (\<lambda>(pid, uri). usable uri) ps))"
proof (induction ps arbitrary: wt)
  case (Cons p ps)
  obtain pid uri w t where p: "p = (pid, uri)" "wt = (w, t)" by fastforce
  then show ?case by (auto simp: Cons.IH time_of_def timed_def)
qed (simp add: time_of_def)

text \<open>A proposal takes the time of its requests, and that of its broadcast when it commits.\<close>

lemma propose_time:
  assumes "propose (Some (timed lat tr)) key val n (w, 0) = (ok, n', w', t)"
  shows "t = time_of lat (asked n (b_peers n)) + (if ok then time_of lat (targets n) else 0)"
  using assms
proof (cases rule: propose_cases)
  case (committed votes n1 w1)
  obtain v0 t0 where w1: "w1 = (v0, t0)" by fastforce
  have b: "b_peers n' = b_peers n" using committed(1,4) collect_votes_node by fastforce
  have "t0 = time_of lat (asked n (b_peers n))"
    using committed(1) w1 collect_loop_time by (fastforce simp: collect_votes_def split: prod.splits)
  then show ?thesis
    using committed(3,5) w1 b broadcast_time [of lat tr "commit_payload n' key val" "b_peers n'" w1]
    by (auto simp: broadcast_commit_def targets_def dest: arg_cong [of _ _ snd])
next
  case (rejected votes n1 w1)
  then show ?thesis
    using collect_loop_time by (fastforce simp: collect_votes_def split: prod.splits)
qed

lemma time_of_bounds: "3000 * length (filter (\<lambda>u. 3000 \<le> lat u) us) \<le> time_of lat us"
  "time_of lat us \<le> 3000 * length us"
  by (induction us) (auto simp: time_of_def)

text \<open>
  The facade outside an event loop is exact, and always returns in time: its answer is True
  exactly when the proposal has committed, and it takes at most six seconds for each peer.
  With at most one peer the waiting time of ten seconds suffices and the answer inside a loop is
  the same.
\<close>

theorem facade_exact_and_bounded:
  "case propose_state_update in_loop lat (Some tr) key val n w of (ok, n', w', t) \<Rightarrow>
     t \<le> 6000 * length (b_peers n) \<and>
     b_commits n' = b_commits n + (if fst (propose_state_update False lat (Some tr) key val n w) then 1 else 0) \<and>
     (if in_loop \<and> 1 < length (b_peers n) then True else ok = (b_commits n' = b_commits n + 1))"
proof -
  obtain ok n' w' t where p: "propose (Some (timed lat tr)) key val n (w, 0) = (ok, n', w', t)"
    using prod_cases4 by blast
  have "length (asked n (b_peers n)) \<le> length (b_peers n)" "length (targets n) \<le> length (b_peers n)"
    by (simp_all add: asked_def targets_def)
  then have t: "t \<le> 6000 * length (b_peers n)"
    using propose_time [OF p] time_of_bounds(2) [of lat "asked n (b_peers n)"] time_of_bounds(2) [of lat "targets n"]
    by (simp split: if_splits)
  have "b_commits n' = b_commits n + (if ok then 1 else 0)"
    using p by (elim propose_cases) (auto simp: commit_local_def dest!: collect_votes_node)
  then show ?thesis using t p by (auto simp: propose_state_update_def)
qed

text \<open>
  A transport with these delays still fulfils the transport contract, for the nodes that answer
  in time.
\<close>

locale slow_transport = vote_transport tr node_at render
  for tr :: "'w transport" and node_at and render +
  fixes lat :: "string \<Rightarrow> nat"
begin

definition prompt_node :: "'w \<times> nat \<Rightarrow> string \<Rightarrow> bft_node option" where
  "prompt_node wt uri = (if lat uri < 3000 then node_at (fst wt) uri else None)"

end

sublocale slow_transport \<subseteq> slow: vote_transport "timed lat tr" prompt_node render
proof unfold_locales
  fix kvs uri wt
  assume "obj_get kvs ''op'' = JStr OP_VOTE_REQUEST"
  then show "prompt_node (snd (tr_request (timed lat tr) uri (JObj kvs) wt)) = prompt_node wt"
    using request_frame [of kvs uri "fst wt"]
    by (cases wt) (auto simp: timed_def prompt_node_def fun_eq_iff split: prod.splits)
next
  fix kvs n r n' wt uri
  assume "handle_message render kvs n = Ok (r, n')" "prompt_node wt uri = Some n"
  then show "prompt_node (tr_send (timed lat tr) uri (JObj kvs) wt) = (prompt_node wt)(uri \<mapsto> n')"
    using send_delivers [of kvs n r n' "fst wt" uri]
    by (cases wt) (auto simp: timed_def prompt_node_def fun_eq_iff split: if_splits)
next
  fix wt uri msg
  assume "prompt_node wt uri = None"
  then show "prompt_node (tr_send (timed lat tr) uri msg wt) = prompt_node wt"
    using send_lost [of "fst wt" uri msg]
    by (cases wt) (auto simp: timed_def prompt_node_def fun_eq_iff split: if_splits)
qed

context vote_transport
begin

lemma propose_replicates:
  assumes "propose (Some tr) key val n w = (True, n', w')" "(pid, Some uri) \<in> set (b_peers n)" "uri \<noteq> []"
    "node_at w uri = Some m" "b_id n \<in> set (map fst (b_peers m))"
  shows "\<exists>m'. node_at w' uri = Some m' \<and> b_ledger m' key = Some val"
proof -
  from assms(1) obtain votes n1 w1 where c: "collect_votes tr key val n w = (votes, n1, w1)"
    and n': "n' = commit_local key val n1" and w': "w' = broadcast_commit tr key val n' w1"
    by (elim propose_cases) auto
  have w1: "node_at w1 uri = Some m" using votes_frame [OF c] assms(4) by simp
  have p: "b_peers n' = b_peers n" "b_id n' = b_id n" using n' collect_votes_node [OF c] by simp_all
  from broadcast_syncs [where w = w1 and uri = uri and m = m and m0 = m and ps = "b_peers n" and n = n'
      and key = key and val = val] w1 assms(2,3)
  obtain m' where "node_at w' uri = Some m'" "synced key val (b_id n') m m'"
    unfolding w' broadcast_commit_def p(1) by blast
  then show ?thesis using assms(5) p by (auto simp: synced_def)
qed

end

interpretation slow_net: slow_transport "cluster_transport render" "\<lambda>w. w" render lat for render lat
  by unfold_locales

text \<open>
  C22: Inside an event loop the facade may deny what it did: when four of the peers asked do not
  answer, the caller is told False after ten seconds, although the proposal, where it has its
  quorum, commits all the same, at the proposer and at every peer that answers in time and
  knows the proposer.
\<close>

theorem facade_denies_commits:
  assumes "4 \<le> unresponsive lat n"
    and "propose_state_update False lat (Some (cluster_transport render)) key val n w = (True, n', w', t)"
  shows "propose_state_update True lat (Some (cluster_transport render)) key val n w = (False, n', w', t) \<and>
    b_ledger n' key = Some val \<and>
    (\<forall>pid uri m. (pid, Some uri) \<in> set (b_peers n) \<and> uri \<noteq> [] \<and> lat uri < 3000 \<and> w uri = Some m \<and>
       b_id n \<in> set (map fst (b_peers m)) \<longrightarrow> (\<exists>m'. w' uri = Some m' \<and> b_ledger m' key = Some val))"
proof -
  have p: "propose (Some (timed lat (cluster_transport render))) key val n (w, 0) = (True, n', w', t)"
    using assms(2) by (auto simp: propose_state_update_def split: prod.splits)
  have "10000 < t"
    using propose_time [OF p] time_of_bounds(1) [of lat "asked n (b_peers n)"] assms(1)
    by (simp add: unresponsive_def)
  moreover have "b_ledger n' key = Some val" using p by (elim propose_cases) auto
  moreover have "\<exists>m'. w' uri = Some m' \<and> b_ledger m' key = Some val"
    if "(pid, Some uri) \<in> set (b_peers n)" "uri \<noteq> []" "lat uri < 3000" "w uri = Some m"
      "b_id n \<in> set (map fst (b_peers m))" for pid uri m
    using slow_net.slow.propose_replicates [OF p that(1,2) _ that(5)] that(3,4)
    by (auto simp: slow_net.prompt_node_def)
  ultimately show ?thesis using p by (simp add: propose_state_update_def) blast
qed

text \<open>Nine nodes, of which four do not answer.\<close>

definition nine :: bft_node where
  "nine = fold (\<lambda>pid. register_peer pid (Some pid))
     [''1'', ''2'', ''3'', ''4'', ''b'', ''c'', ''d'', ''e''] (new_node ''a'')"

definition live_four :: cluster where
  "live_four = (\<lambda>u. if u \<in> {''b'', ''c'', ''d'', ''e''} then Some (register_peer ''a'' (Some ''a'') (new_node u)) else None)"

definition dead_four :: "string \<Rightarrow> nat" where
  "dead_four u = (if u \<in> {''1'', ''2'', ''3'', ''4''} then 60000 else 20)"

lemma facade_denies_commits_witness:
  "\<exists>n' w' t m'. propose_state_update True dead_four (Some (cluster_transport blank)) ''k'' ''v'' nine live_four =
      (False, n', w', t) \<and> b_ledger n' ''k'' = Some ''v'' \<and> w' ''b'' = Some m' \<and> b_ledger m' ''k'' = Some ''v''"
proof -
  let ?tr = "timed dead_four (cluster_transport blank)"
  obtain ok n' w' t where p: "propose (Some ?tr) ''k'' ''v'' nine (live_four, 0) = (ok, n', w', t)"
    using prod_cases4 by blast
  have f: "4 \<le> unresponsive dead_four nine" "b_id nine = ''a''" "(''b'', Some ''b'') \<in> set (b_peers nine)"
    by (simp_all add: unresponsive_def asked_def nine_def register_peer_def new_node_def is_faulty_def POLICY_HONEST_def
        POLICY_FAULTY_def dead_four_def)
  have h: "handle_message blank [(''op'', JStr OP_VOTE_REQUEST), (''proposer'', JStr ''a''), (''key'', JStr ''k''),
      (''value'', JStr ''v''), (''protocol_version'', JInt 1)] (register_peer ''a'' (Some ''a'') (new_node u)) =
      Ok (Some (vote_response True), register_peer ''a'' (Some ''a'') (new_node u))" for u
    by (simp add: handle_message_def obj_get_def proposer_faulty_def is_faulty_def register_peer_def new_node_def
        POLICY_HONEST_def POLICY_FAULTY_def)
  have r: "tr_request ?tr u (vote_request_payload nine ''k'' ''v'') (live_four, s) =
      (if u \<in> {''b'', ''c'', ''d'', ''e''} then Some (vote_response True) else None, live_four, s + min (dead_four u) 3000)" for u s
    by (auto simp: timed_def dead_four_def cluster_transport_def request_vote_def live_four_def dispatch_def
        vote_request_payload_def f(2) h vote_response_def fun_upd_idem)
  have b: "live_four ''b'' = Some (register_peer ''a'' (Some ''a'') (new_node ''b''))" "dead_four ''b'' < 3000"
    by (simp_all add: live_four_def dead_four_def)
  have peers: "b_peers nine = map (\<lambda>i. (i, Some i)) [''1'', ''2'', ''3'', ''4'', ''b'', ''c'', ''d'', ''e'']"
    by (simp add: nine_def register_peer_def new_node_def)
  have honest: "\<not> is_faulty nine pid" for pid
    by (simp add: nine_def register_peer_def new_node_def is_faulty_def POLICY_HONEST_def POLICY_FAULTY_def)
  have "quorum_for nine \<le> fst (collect_votes ?tr ''k'' ''v'' nine (live_four, 0))"
    by (simp add: collect_votes_def quorum_for_def peers honest r vote_response_def obj_get_def)
  then have "ok" using p by (elim propose_cases) auto
  then have "propose_state_update False dead_four (Some (cluster_transport blank)) ''k'' ''v'' nine live_four = (True, n', w', t)"
    using p by (simp add: propose_state_update_def)
  from facade_denies_commits [OF f(1) this] f(2,3) b show ?thesis
    by (fastforce simp: register_peer_def new_node_def)
qed

section \<open>The mesh nodes the orchestrator launches\<close>

text \<open>
  \<open>_run_mesh_node\<close>: a node with a name and no further configuration; the port it is called with is not
  passed on. It starts its server and then reports its health once a minute, while messages
  come in. A message the handler refuses with an exception changes nothing.
\<close>

datatype mesh_event = Message "(string \<times> json) list" | Minute

fun mesh_events :: "(json \<Rightarrow> string) \<Rightarrow> mesh_event list \<Rightarrow> edge_node \<Rightarrow> edge_health list \<times> edge_node" where
  "mesh_events render [] n = ([], n)"
| "mesh_events render (Message msg # es) n =
     mesh_events render es (fst (edge_apply render None (Inbound msg) (n, ())))"
| "mesh_events render (Minute # es) n =
     (case mesh_events render es n of (hs, n') \<Rightarrow> (health_telemetry n # hs, n'))"

definition run_mesh_node ::
    "(json \<Rightarrow> string) \<Rightarrow> crypto_lib \<Rightarrow> string \<Rightarrow> unit result \<Rightarrow> string \<Rightarrow> nat \<Rightarrow> mesh_event list \<Rightarrow>
     (edge_health list \<times> edge_node) result" where
  "run_mesh_node render cl seed served node_id port es =
     rbind (new_edge_node cl seed node_id None) (\<lambda>n.
     rbind (start_heartbeat served n) (\<lambda>n. Ok (mesh_events render es n)))"

lemma stranger_changes_nothing:
  "b_peers n = [] \<Longrightarrow> or_same n (map_sum id snd (handle_message render msg n)) = n"
  by (cases "handle_message render msg n")
    (auto simp: or_same_def handle_message_def apply_commit_def rbind_Inr_iff split: if_splits)

lemma mesh_events_alone:
  "b_peers (en_consensus n) = [] \<Longrightarrow> mesh_events render es n = (replicate (length (filter ((=) Minute) es)) (health_telemetry n), n)"
proof (induction es)
  case (Cons e es)
  then show ?case by (cases e) (simp_all add: stranger_changes_nothing)
qed simp

text \<open>
  The mesh services form no mesh. Whatever port it is given and whatever messages arrive, a
  service that comes up reports minute by minute that it is healthy, with no peer, no
  rejection and no entry: no peer is ever registered, so no commit is ever taken over.
\<close>

theorem mesh_services_alone:
  assumes "run_mesh_node render cl seed served node_id port es = Ok (hs, n)"
  shows "length hs = length (filter ((=) Minute) es) \<and> en_consensus n = new_node node_id \<and>
    (\<forall>h \<in> set hs. eh_node h = node_id \<and> eh_healthy h \<and> eh_active h = 0 \<and> eh_rejections h = 0 \<and> eh_entries h = 0)"
proof -
  from assms obtain n1 where n1: "new_edge_node cl seed node_id None = Ok n1"
    "mesh_events render es (n1\<lparr>en_running := True\<rparr>) = (hs, n)"
    by (auto simp: run_mesh_node_def rbind_Inr_iff start_heartbeat_def)
  from n1(1) have n0: "en_consensus n1 = new_node node_id" "en_id n1 = node_id"
    by (auto simp: new_edge_node_def rbind_Inr_iff)
  have "b_peers (en_consensus (n1\<lparr>en_running := True\<rparr>)) = []" using n0(1) by (simp add: new_node_def)
  from mesh_events_alone [OF this] n0 n1(2) show ?thesis
    by (auto simp: health_telemetry_def new_node_def)
qed

lemma mesh_services_alone_witness:
  "case run_mesh_node blank toy_lib ''s'' (Ok ()) ''mesh-0'' 8765
      [Minute, Message [(''op'', JStr ''commit''), (''sender'', JStr ''mesh-1''), (''key'', JStr ''k''), (''value'', JStr ''v'')], Minute] of
     Inl _ \<Rightarrow> False | Inr (hs, n) \<Rightarrow> length hs = 2 \<and> list_all (\<lambda>h. eh_active h = 0 \<and> eh_entries h = 0) hs"
proof -
  let ?es = "[Minute, Message [(''op'', JStr ''commit''), (''sender'', JStr ''mesh-1''), (''key'', JStr ''k''), (''value'', JStr ''v'')], Minute]"
  obtain e where "new_pqc toy_lib ''s'' None = Ok e"
    by (simp add: new_pqc_def requested_provider_def toy_lib_def)
  then obtain hs n where r: "run_mesh_node blank toy_lib ''s'' (Ok ()) ''mesh-0'' 8765 ?es = Ok (hs, n)"
    using surj_pair by (auto simp: run_mesh_node_def new_edge_node_def start_heartbeat_def)
  from mesh_services_alone [OF r] r show ?thesis by (simp add: list_all_iff)
qed

end
