(* ===== verification/HealingLog.thy ===== *)
theory HealingLog
  imports Evolution Json
begin

text \<open>
  The healing log of \<open>evolution/evolution/code_agent.py\<close> as a file: \<open>_log_healing\<close> appends one line of
  JSON for an entry, \<open>healing_history\<close> reads the file back, and the orchestrator prints the newest
  three entries. JSON encoding and decoding are parameters (\<open>None\<close> is a \<open>JSONDecodeError\<close>).
\<close>

section \<open>Writing and reading\<close>

record healing_entry =
  he_time :: pyfloat
  he_file :: string
  he_action :: string
  he_detail :: string

definition entry_json :: "healing_entry \<Rightarrow> json" where
  "entry_json e =
     JObj [(''timestamp'', JFloat (he_time e)), (''file'', JStr (he_file e)), (''action'', JStr (he_action e)),
           (''detail'', JStr (he_detail e))]"

definition append_entry :: "(json \<Rightarrow> string) \<Rightarrow> healing_entry \<Rightarrow> string option \<Rightarrow> string option" where
  "append_entry dumps e file =
     Some ((case file of None \<Rightarrow> [] | Some text \<Rightarrow> text) @ dumps (entry_json e) @ [newline])"

definition history_line :: "(string \<Rightarrow> json option) \<Rightarrow> string \<Rightarrow> json list" where
  "history_line loads l = (if l = [] then [] else case loads l of None \<Rightarrow> [] | Some v \<Rightarrow> [v])"

definition healing_history :: "(string \<Rightarrow> json option) \<Rightarrow> string option \<Rightarrow> json list" where
  "healing_history loads file =
     (case file of
        None \<Rightarrow> []
      | Some text \<Rightarrow> concat (map (history_line loads) (split_lines (strip text))))"

text \<open>What the orchestrator prints of an entry, or the exception that reading the fields raises.\<close>

definition entry_field :: "json \<Rightarrow> string \<Rightarrow> json result" where
  "entry_field v k =
     (case v of
        JObj kvs \<Rightarrow> (case map_of kvs k of None \<Rightarrow> Raise KeyError | Some x \<Rightarrow> Ok x)
      | _ \<Rightarrow> Raise TypeError)"

definition cut_detail :: "json \<Rightarrow> json result" where
  "cut_detail v =
     (case v of
        JStr s \<Rightarrow> Ok (JStr (take 60 s))
      | JList vs \<Rightarrow> Ok (JList (take 60 vs))
      | _ \<Rightarrow> Raise TypeError)"

definition print_entry :: "json \<Rightarrow> (json \<times> json \<times> json) result" where
  "print_entry v =
     rbind (entry_field v ''action'') (\<lambda>a. rbind (entry_field v ''file'') (\<lambda>f.
     rbind (entry_field v ''detail'') (\<lambda>d. rbind (cut_detail d) (\<lambda>c. Ok (a, f, c)))))"

fun print_entries :: "json list \<Rightarrow> (json \<times> json \<times> json) list result" where
  "print_entries [] = Ok []"
| "print_entries (v # vs) = rbind (print_entry v) (\<lambda>l. rbind (print_entries vs) (\<lambda>ls. Ok (l # ls)))"

definition print_history :: "json list \<Rightarrow> (json \<times> json \<times> json) list result" where
  "print_history history = print_entries (lastn 3 history)"

section \<open>Lines\<close>

text \<open>A line without newlines that \<open>strip\<close> leaves alone, and a file of such lines.\<close>

definition clean_line :: "string \<Rightarrow> bool" where
  "clean_line l \<longleftrightarrow> newline \<notin> set l \<and> (l = [] \<or> \<not> is_space (hd l) \<and> \<not> is_space (last l))"

definition unlines :: "string list \<Rightarrow> string" where
  "unlines ls = concat (map (\<lambda>l. l @ [newline]) ls)"

lemma unlines_simps [simp]:
  "unlines [] = []" "unlines (l # ls) = l @ newline # unlines ls" "unlines (ls @ ks) = unlines ls @ unlines ks"
  by (simp_all add: unlines_def)

lemma space_newline [simp]: "is_space newline"
  by (simp add: is_space_def newline_def)

lemma split_lines_line: "newline \<notin> set l \<Longrightarrow> split_lines (l @ newline # r) = l # split_lines r"
  by (induction l) auto

lemma split_lines_single: "newline \<notin> set l \<Longrightarrow> split_lines l = [l]"
  by (induction l) auto

lemma split_unlines:
  "list_all clean_line ls \<Longrightarrow> split_lines (unlines ls @ r) = ls @ split_lines r"
  by (induction ls) (auto simp: clean_line_def split_lines_line)

lemma strip_left: "list_all clean_line ls \<Longrightarrow> dropWhile is_space (unlines ls) = unlines (dropWhile (\<lambda>l. l = []) ls)"
proof (induction ls)
  case (Cons l ls)
  then show ?case by (cases l) (auto simp: clean_line_def)
qed simp

definition rstrip :: "string \<Rightarrow> string" where
  "rstrip s = rev (dropWhile is_space (rev s))"

lemma strip_right:
  assumes "g [] = []" "list_all clean_line ls"
  shows "concat (map g (split_lines (rstrip (unlines ls)))) = concat (map g ls)"
  using assms(2)
proof (induction ls rule: rev_induct)
  case (snoc l ls)
  show ?case
  proof (cases "l = []")
    case True
    then show ?thesis using snoc assms(1) by (simp add: rstrip_def)
  next
    case False
    have c: "list_all clean_line ls" "newline \<notin> set l" using snoc.prems by (simp, simp add: clean_line_def)
    from False have "is_space (hd (rev l)) = False" "rev l \<noteq> []"
      using snoc.prems by (simp_all add: clean_line_def hd_rev)
    then have "dropWhile is_space (rev l @ rev (unlines ls)) = rev l @ rev (unlines ls)"
      by (cases "rev l") auto
    then have "rstrip (unlines (ls @ [l])) = unlines ls @ l" by (simp add: rstrip_def)
    moreover have "split_lines (unlines ls @ l) = ls @ [l]"
      using split_unlines [OF c(1), of l] split_lines_single [OF c(2)] by simp
    ultimately show ?thesis by simp
  qed
qed (simp add: rstrip_def assms(1))

lemma history_of_lines:
  assumes "list_all clean_line ls"
  shows "healing_history loads (Some (unlines ls)) = concat (map (history_line loads) ls)"
proof -
  have "strip (unlines ls) = rstrip (unlines (dropWhile (\<lambda>l. l = []) ls))"
    using strip_left [OF assms] by (simp add: strip_def rstrip_def)
  moreover have "list_all clean_line (dropWhile (\<lambda>l. l = []) ls)"
    using assms set_dropWhileD by (fastforce simp: list_all_iff)
  moreover have "concat (map (history_line loads) (dropWhile (\<lambda>l. l = []) ls)) = concat (map (history_line loads) ls)"
    by (induction ls) (auto simp: history_line_def)
  ultimately show ?thesis
    by (simp add: healing_history_def strip_right [of "history_line loads"] history_line_def)
qed

section \<open>The history is what was logged\<close>

text \<open>
  What happened to the file: entries of the agent, and lines of others that are no JSON (such as
  a write that was cut off and closed with a newline), or empty.
\<close>

datatype log_write = Healed healing_entry | Foreign string

fun write_line :: "(json \<Rightarrow> string) \<Rightarrow> log_write \<Rightarrow> string option \<Rightarrow> string option" where
  "write_line dumps (Healed e) file = append_entry dumps e file"
| "write_line dumps (Foreign l) file = Some ((case file of None \<Rightarrow> [] | Some text \<Rightarrow> text) @ l @ [newline])"

fun legible :: "(json \<Rightarrow> string) \<Rightarrow> (string \<Rightarrow> json option) \<Rightarrow> log_write \<Rightarrow> bool" where
  "legible dumps loads (Healed e) \<longleftrightarrow>
     dumps (entry_json e) \<noteq> [] \<and> clean_line (dumps (entry_json e)) \<and> loads (dumps (entry_json e)) = Some (entry_json e)"
| "legible dumps loads (Foreign l) \<longleftrightarrow> clean_line l \<and> loads l = None"

fun written :: "(json \<Rightarrow> string) \<Rightarrow> log_write \<Rightarrow> string" where
  "written dumps (Healed e) = dumps (entry_json e)"
| "written dumps (Foreign l) = l"

fun healed :: "log_write list \<Rightarrow> healing_entry list" where
  "healed [] = []"
| "healed (Healed e # ws) = e # healed ws"
| "healed (Foreign l # ws) = healed ws"

lemma fold_writes:
  "fold (write_line dumps) ws (Some s) = Some (s @ unlines (map (written dumps) ws))"
proof (induction ws arbitrary: s)
  case (Cons w ws)
  then show ?case by (cases w) (simp_all add: append_entry_def)
qed simp

lemma legible_lines: "list_all (legible dumps loads) ws \<Longrightarrow> list_all clean_line (map (written dumps) ws)"
proof (induction ws)
  case (Cons w ws)
  then show ?case by (cases w) simp_all
qed simp

lemma legible_history:
  "list_all (legible dumps loads) ws \<Longrightarrow>
     concat (map (history_line loads) (map (written dumps) ws)) = map entry_json (healed ws)"
proof (induction ws)
  case (Cons w ws)
  then show ?case by (cases w) (simp_all add: history_line_def)
qed simp

lemma history_of_writes:
  assumes "list_all (legible dumps loads) ws"
  shows "healing_history loads (fold (write_line dumps) ws None) = map entry_json (healed ws)"
proof (cases ws)
  case (Cons w ws')
  have "fold (write_line dumps) ws None = fold (write_line dumps) ws (Some [])"
    using Cons by (cases w) (simp_all add: append_entry_def)
  then show ?thesis
    using history_of_lines [OF legible_lines [OF assms], of loads] legible_history [OF assms] fold_writes [of dumps ws "[]"]
    by simp
qed (simp add: healing_history_def)

text \<open>
  C31: The healing history is the list of logged entries, in order, whatever undecodable or empty
  lines stand between, before or after them, and the orchestrator's report of it never raises:
  it shows the newest three with their details cut to sixty characters.
\<close>

theorem history_roundtrip:
  assumes "list_all (legible dumps loads) ws"
  shows "healing_history loads (fold (write_line dumps) ws None) = map entry_json (healed ws) \<and>
    print_history (healing_history loads (fold (write_line dumps) ws None)) =
      Ok (map (\<lambda>e. (JStr (he_action e), JStr (he_file e), JStr (take 60 (he_detail e)))) (lastn 3 (healed ws)))"
proof -
  have p: "print_entry (entry_json e) = Ok (JStr (he_action e), JStr (he_file e), JStr (take 60 (he_detail e)))" for e
    by (simp add: print_entry_def entry_json_def entry_field_def cut_detail_def)
  have "print_entries (map entry_json es) =
      Ok (map (\<lambda>e. (JStr (he_action e), JStr (he_file e), JStr (take 60 (he_detail e)))) es)" for es
    by (induction es) (simp_all add: p)
  moreover have "lastn 3 (map entry_json es) = map entry_json (lastn 3 es)" for es by (simp add: lastn_def drop_map)
  ultimately show ?thesis using history_of_writes [OF assms] by (simp add: print_history_def)
qed

definition one_entry :: healing_entry where
  "one_entry = \<lparr>he_time = Fin 1, he_file = ''a.py'', he_action = ''APPLIED'', he_detail = ''Patch applied successfully''\<rparr>"

lemma history_roundtrip_witness:
  "print_history (healing_history (\<lambda>s. if s = ''{}'' then Some (entry_json one_entry) else None)
     (fold (write_line (\<lambda>_. ''{}'')) [Foreign '''', Healed one_entry, Foreign ''{\"time'', Healed one_entry] None)) =
   Ok [(JStr ''APPLIED'', JStr ''a.py'', JStr ''Patch applied successfully''),
       (JStr ''APPLIED'', JStr ''a.py'', JStr ''Patch applied successfully'')]"
proof -
  let ?ws = "[Foreign '''', Healed one_entry, Foreign ''{\"time'', Healed one_entry]"
  have "list_all (legible (\<lambda>_. ''{}'') (\<lambda>s. if s = ''{}'' then Some (entry_json one_entry) else None)) ?ws"
    by code_simp
  moreover have "healed ?ws = [one_entry, one_entry]" by simp
  moreover have "(JStr (he_action one_entry), JStr (he_file one_entry), JStr (take 60 (he_detail one_entry))) =
      (JStr ''APPLIED'', JStr ''a.py'', JStr ''Patch applied successfully'')" by (simp add: one_entry_def)
  ultimately show ?thesis
    by (subst conjunct2 [OF history_roundtrip]) (assumption, simp only: lastn_def list.map, simp)
qed

end
