(* ===== verification/SyntheticWalk.thy ===== *)
theory SyntheticWalk
  imports EventWatcher
begin

text \<open>
  The synthetic market of the demonstrations: \<open>_synthetic_candles\<close> and the table of \<open>_demo\<close> in
  \<open>cortex/cortex/market_context.py\<close>, and the ticks \<open>_demo_ticks\<close> of \<open>event_watcher.py\<close> derived from
  them. The random draws (\<open>random()\<close> and \<open>randint\<close> of the seeded generators) are parameters.
\<close>

section \<open>The walk\<close>

text \<open>\<open>uniform(a, b)\<close> from a draw of \<open>random()\<close>.\<close>

definition uniform :: "pyfloat \<Rightarrow> pyfloat \<Rightarrow> pyfloat \<Rightarrow> pyfloat" where
  "uniform a b r = a + (b - a) * r"

definition regime_script :: "(nat \<times> pyfloat) list" where
  "regime_script =
     [(70, to_f64 (6 / 100)), (50, to_f64 (- 4 / 1000)), (2, to_f64 (- 8 / 100)), (40, to_f64 (- 12 / 1000)),
      (45, to_f64 (- 4 / 1000)), (15, to_f64 (5 / 1000))]"

definition walk_candle :: "pyfloat \<Rightarrow> pyfloat \<Rightarrow> pyfloat \<Rightarrow> pyfloat \<Rightarrow> pyfloat \<Rightarrow> pyfloat \<Rightarrow> candle" where
  "walk_candle drift price t r1 r2 r3 =
     (let gap = uniform (to_f64 (- 15 / 100)) (to_f64 (15 / 100)) r1;
          c = py_max (price + drift * price + gap) (to_f64 (1 / 2));
          h = py_max price c * (1 + uniform (to_f64 (5 / 10000)) (to_f64 (4 / 1000)) r2);
          l = py_min price c * (1 - uniform (to_f64 (5 / 10000)) (to_f64 (4 / 1000)) r3)
      in \<lparr>c_open = price, c_high = h, c_low = l, c_close = c, c_t_open = t, c_t_close = t + 1, c_volume = 0\<rparr>)"

text \<open>Three draws for each candle, in the order of the calls.\<close>

fun price_walk :: "(nat \<Rightarrow> pyfloat) \<Rightarrow> nat \<Rightarrow> pyfloat list \<Rightarrow> pyfloat \<Rightarrow> pyfloat \<Rightarrow> candle list" where
  "price_walk R k [] price t = []"
| "price_walk R k (drift # ds) price t =
     (let b = walk_candle drift price t (R k) (R (k + 1)) (R (k + 2)) in b # price_walk R (k + 3) ds (c_close b) (t + 1))"

text \<open>The argument \<open>total\<close> is not used.\<close>

definition synthetic_candles :: "(nat \<Rightarrow> pyfloat) \<Rightarrow> nat \<Rightarrow> candle list" where
  "synthetic_candles R n_total =
     price_walk R 0 (concat (map (\<lambda>(n, drift). replicate n drift) regime_script)) (Fin 100) (Fin 1700000000)"

section \<open>Ranges of floats\<close>

definition ranged :: "pyfloat \<Rightarrow> rat \<Rightarrow> rat \<Rightarrow> bool" where
  "ranged x a b \<longleftrightarrow> is_double x \<and> (\<exists>q. x = Fin q \<and> a \<le> q \<and> q \<le> b)"

lemma rangedE:
  assumes "ranged x a b"
  obtains q where "x = Fin q" "a \<le> q" "q \<le> b" "is_double (Fin q)"
  using assms by (auto simp: ranged_def)

lemma ranged_weaken: "ranged x a b \<Longrightarrow> a' \<le> a \<Longrightarrow> b \<le> b' \<Longrightarrow> ranged x a' b'"
  unfolding ranged_def by (metis order_trans)

lemma ranged_to_f64:
  assumes "a \<le> x" "x \<le> b" "is_double (Fin a)" "is_double (Fin b)"
  shows "ranged (to_f64 x) a b"
proof -
  have "Fin a \<le> to_f64 x" "to_f64 x \<le> Fin b" using assms by (auto intro: to_f64_ge_double to_f64_le_double)
  then show ?thesis by (cases "to_f64 x") (auto simp: ranged_def simp del: is_double.simps dest: sym intro: is_double_to_f64)
qed

lemma ranged_plus:
  assumes "ranged x a b" "ranged y c d" "lo \<le> a + c" "b + d \<le> hi" "is_double (Fin lo)" "is_double (Fin hi)"
  shows "ranged (x + y) lo hi"
  using assms(1,2)
proof (elim rangedE)
  fix p q assume "x = Fin p" "y = Fin q" "a \<le> p" "p \<le> b" "c \<le> q" "q \<le> d"
  then show ?thesis using ranged_to_f64 [of lo "p + q" hi] assms(3-6) by simp
qed

lemma ranged_minus:
  assumes "ranged x a b" "ranged y c d" "lo \<le> a - d" "b - c \<le> hi" "is_double (Fin lo)" "is_double (Fin hi)"
  shows "ranged (x - y) lo hi"
  using assms(1,2)
proof (elim rangedE)
  fix p q assume "x = Fin p" "y = Fin q" "a \<le> p" "p \<le> b" "c \<le> q" "q \<le> d"
  then show ?thesis using ranged_to_f64 [of lo "p - q" hi] assms(3-6) by (simp add: Fin_minus_Fin)
qed

text \<open>Powers of two and small halves are doubles.\<close>

lemma double_p2: "k \<le> 1000 \<Longrightarrow> is_double (Fin (2 ^ k))"
proof -
  assume k: "k \<le> 1000"
  have "(2 ^ k :: int) \<le> 2 ^ 1000" using k by (rule power_increasing) simp
  also have "\<dots> \<le> (2 ^ 53 - 1) * 2 ^ 971" by simp
  finally have "(of_int (2 ^ k) :: rat) \<le> f64_max" unfolding f64_max_def by (subst of_int_le_iff)
  moreover have "rnd (2 ^ k) = 2 ^ k" using rnd_exact [of 1 "int k"] by (simp add: p2_nat)
  ultimately show ?thesis by simp
qed

lemma double_eighths: "\<bar>n\<bar> \<le> 2 ^ 40 \<Longrightarrow> is_double (Fin (of_int n / 8))"
proof -
  assume n: "\<bar>n\<bar> \<le> 2 ^ 40"
  have "rnd (of_int n * p2 (- 3)) = of_int n * p2 (- 3)" using n by (intro rnd_exact) auto
  moreover have "p2 (- 3) = 1 / 8" by (simp add: power_int_minus)
  moreover have "\<bar>of_int n / 8 :: rat\<bar> \<le> f64_max"
  proof -
    have "(of_int \<bar>n\<bar> :: rat) \<le> of_int (2 ^ 40)" using n by (subst of_int_le_iff)
    then show ?thesis using f64_max_ge by simp
  qed
  ultimately show ?thesis by simp
qed

lemma small_doubles [simp]:
  "is_double (Fin (- 1))" "is_double (Fin (1 / 2))" "is_double (Fin (1 / 4))" "is_double (Fin (1 / 8))" "is_double (Fin (- 1 / 8))"
  "is_double (Fin (- (1 / 4)))" "is_double (Fin 2)"
  using double_eighths [of "- 8"] double_eighths [of 4] double_eighths [of 2] double_eighths [of 1] double_eighths [of "- 1"]
    double_eighths [of "- 2"] double_eighths [of 16] by (simp_all del: is_double.simps)

declare is_double.simps [simp del]

section \<open>One candle\<close>

text \<open>A draw of \<open>random()\<close>: a double from 0 to 1 (which it never reaches).\<close>

definition unit_draw :: "pyfloat \<Rightarrow> bool" where
  "unit_draw r \<longleftrightarrow> is_double r \<and> 0 \<le> r \<and> r < 1"

lemma unit_ranged: "unit_draw r \<Longrightarrow> ranged r 0 1"
  by (cases r) (auto simp: unit_draw_def ranged_def zero_pyfloat_def one_pyfloat_def)

lemma ranged_times_unit:
  assumes "ranged x 0 b" "ranged r 0 1" "is_double (Fin b)"
  shows "ranged (x * r) 0 b"
  using assms(1,2)
proof (elim rangedE)
  fix p q assume "x = Fin p" "r = Fin q" "0 \<le> p" "p \<le> b" "0 \<le> q" "q \<le> 1"
  moreover from this have "p * q \<le> p * 1" by (intro mult_left_mono) auto
  ultimately show ?thesis using ranged_to_f64 [of 0 "p * q" b] assms(3) by simp
qed

text \<open>The amount by which a candle exceeds its body, and the gap.\<close>

lemma wick_ranged:
  assumes "unit_draw r"
  shows "ranged (uniform (to_f64 (5 / 10000)) (to_f64 (4 / 1000)) r) 0 (1 / 4)"
proof -
  have a: "ranged (to_f64 (5 / 10000)) 0 (1 / 8)" "ranged (to_f64 (4 / 1000)) 0 (1 / 8)"
    by (rule ranged_to_f64; simp)+
  obtain p q where pq: "to_f64 (5 / 10000) = Fin p" "to_f64 (4 / 1000) = Fin q" "0 \<le> p" "q \<le> 1 / 8"
    using a by (auto elim!: rangedE)
  have "to_f64 (5 / 10000) \<le> to_f64 (4 / 1000)" by (rule to_f64_mono) simp
  then have "p \<le> q" using pq by simp
  then have "ranged (to_f64 (4 / 1000) - to_f64 (5 / 10000)) 0 (1 / 8)"
    using pq ranged_to_f64 [of 0 "q - p" "1 / 8"] by (simp add: Fin_minus_Fin)
  then have "ranged ((to_f64 (4 / 1000) - to_f64 (5 / 10000)) * r) 0 (1 / 8)"
    using unit_ranged [OF assms] by (intro ranged_times_unit) simp_all
  from ranged_plus [OF a(1) this] show ?thesis by (simp add: uniform_def)
qed

lemma gap_ranged:
  assumes "unit_draw r"
  shows "ranged (uniform (to_f64 (- 15 / 100)) (to_f64 (15 / 100)) r) (- 1) 1"
proof -
  have a: "ranged (to_f64 (- 15 / 100)) (- (1 / 4)) 0" "ranged (to_f64 (15 / 100)) 0 (1 / 4)"
    using ranged_to_f64 [of "- (1 / 4)" "- 15 / 100" 0] ranged_to_f64 [of 0 "15 / 100" "1 / 4"] by simp_all
  have "ranged (to_f64 (15 / 100) - to_f64 (- 15 / 100)) 0 (1 / 2)"
    using ranged_minus [OF a(2,1)] by simp
  then have "ranged ((to_f64 (15 / 100) - to_f64 (- 15 / 100)) * r) 0 (1 / 2)"
    using unit_ranged [OF assms] by (intro ranged_times_unit) simp_all
  from ranged_plus [OF a(1) this] show ?thesis by (simp add: uniform_def)
qed

text \<open>
  From a price between a half and \<open>2 ^ m\<close> the next one lies between a half and \<open>2 ^ (m + 2)\<close>,
  and the candle is well formed.
\<close>

lemma next_price_ranged:
  assumes "ranged price (1 / 2) (2 ^ m)" "ranged drift (- 1) 1" "unit_draw r" "m \<le> 900"
  shows "ranged (price + drift * price + uniform (to_f64 (- 15 / 100)) (to_f64 (15 / 100)) r) (- (2 ^ (m + 2))) (2 ^ (m + 2))"
proof -
  have d: "is_double (Fin (2 ^ k))" "is_double (Fin (- (2 ^ k)))" if "k \<le> m + 2" for k
    using double_p2 [of k] is_double_uminus [of "Fin (2 ^ k)"] that assms(4) by simp_all
  obtain p q where pq: "price = Fin p" "drift = Fin q" "1 / 2 \<le> p" "p \<le> 2 ^ m" "\<bar>q\<bar> \<le> 1"
    using assms(1,2) by (auto elim!: rangedE simp: abs_le_iff)
  have "\<bar>q * p\<bar> \<le> 1 * 2 ^ m" unfolding abs_mult using pq by (intro mult_mono) auto
  then have "ranged (drift * price) (- (2 ^ m)) (2 ^ m)"
    using ranged_to_f64 [of "- (2 ^ m)" "q * p" "2 ^ m"] d pq by (simp add: abs_le_iff)
  from ranged_plus [OF assms(1) this, of "- (2 ^ (m + 1))" "2 ^ (m + 1)"]
  have s: "ranged (price + drift * price) (- (2 ^ (m + 1))) (2 ^ (m + 1))"
    using d [of "m + 1"] by simp
  have "(1 :: rat) \<le> 2 ^ (m + 1)" by (rule one_le_power) simp
  then show ?thesis
    using ranged_plus [OF s gap_ranged [OF assms(3)], of "- (2 ^ (m + 2))" "2 ^ (m + 2)"] d [of "m + 2"] by simp
qed

lemma stretch: "1 / 2 \<le> a \<Longrightarrow> a \<le> c \<Longrightarrow> 1 \<le> x \<Longrightarrow> x \<le> 2 \<Longrightarrow> a \<le> a * x \<and> a * x \<le> c * (2 :: rat)"
  using mult_left_mono [of 1 x a] mult_mono [of a c x 2] by simp

lemma shrink: "1 / 2 \<le> a \<Longrightarrow> 1 / 2 \<le> y \<Longrightarrow> y \<le> 1 \<Longrightarrow> a * y \<le> a \<and> (1 / 4 :: rat) \<le> a * y"
  using mult_left_mono [of y 1 a] mult_mono [of "1 / 2" a "1 / 2" y] by simp

lemma walk_candle_ranged:
  fixes t :: pyfloat
  assumes "ranged price (1 / 2) (2 ^ m)" "ranged drift (- 1) 1" "unit_draw r1" "unit_draw r2" "unit_draw r3" "m \<le> 900"
  defines "b \<equiv> walk_candle drift price t r1 r2 r3"
  shows "candle_ok b" "ranged (c_close b) (1 / 2) (2 ^ (m + 2))"
proof -
  let ?raw = "price + drift * price + uniform (to_f64 (- 15 / 100)) (to_f64 (15 / 100)) r1"
  let ?u = "uniform (to_f64 (5 / 10000)) (to_f64 (4 / 1000))"
  have d: "is_double (Fin (2 ^ (m + 2)))" "is_double (Fin (2 ^ (m + 3)))" using double_p2 [of "m + 2"] double_p2 [of "m + 3"] assms(6) by simp_all
  have half: "to_f64 (1 / 2) = Fin (1 / 2)" by (rule to_f64_double) simp
  have "(1 / 2 :: rat) \<le> 2 ^ (m + 2)"
    by (rule order_trans [OF _ one_le_power]) simp_all
  then have h: "ranged (Fin (1 / 2)) (1 / 2) (2 ^ (m + 2))"
    unfolding ranged_def by (intro conjI exI [of _ "1 / 2"]) simp_all
  have cb: "c_close b = (if ?raw < Fin (1 / 2) then Fin (1 / 2) else ?raw)"
    by (simp add: b_def walk_candle_def Let_def py_max_def half)
  have c: "ranged (c_close b) (1 / 2) (2 ^ (m + 2))"
    using next_price_ranged [OF assms(1-3,6)] h unfolding cb
    by (elim rangedE [where x = ?raw]) (simp add: ranged_def)
  obtain o' c' where oc: "price = Fin o'" "c_close b = Fin c'" "1 / 2 \<le> o'" "o' \<le> 2 ^ m" "1 / 2 \<le> c'" "c' \<le> 2 ^ (m + 2)"
    "is_double (Fin o')" "is_double (Fin c')"
    using assms(1) c by (auto elim!: rangedE)
  have "(2 ^ m :: rat) \<le> 2 ^ (m + 2)" by (rule power_increasing) simp_all
  with oc(4) have o: "o' \<le> 2 ^ (m + 2)" by linarith
  let ?M = "max o' c'" and ?m = "min o' c'"
  have M: "py_max price (c_close b) = Fin ?M" "py_min price (c_close b) = Fin ?m"
    using oc(1,2) by (auto simp: py_max_def py_min_def)
  have u: "ranged (1 + ?u r2) 1 2" "ranged (1 - ?u r3) (1 / 2) 1"
    using ranged_plus [OF _ wick_ranged [OF assms(4)], of 1 1 1 1 2] ranged_minus [OF _ wick_ranged [OF assms(5)], of 1 1 1 "1 / 2" 1]
    by (simp_all add: ranged_def one_pyfloat_def)
  obtain x y where xy: "1 + ?u r2 = Fin x" "1 \<le> x" "x \<le> 2" "1 - ?u r3 = Fin y" "1 / 2 \<le> y" "y \<le> 1"
    using u by (auto elim!: rangedE)
  have "c_high b = py_max price (c_close b) * (1 + ?u r2)" "c_low b = py_min price (c_close b) * (1 - ?u r3)"
    by (simp_all add: b_def walk_candle_def Let_def)
  then have hl: "c_high b = to_f64 (?M * x)" "c_low b = to_f64 (?m * y)"
    by (simp_all only: M xy times_pyfloat.simps)
  have bnd: "1 / 2 \<le> ?M" "?M \<le> 2 ^ (m + 2)" "1 / 2 \<le> ?m" using oc(3,5,6) o by simp_all
  have dM: "is_double (Fin ?M)" "is_double (Fin ?m)" using oc(7,8) by (simp_all add: max_def min_def)
  have "ranged (c_high b) ?M (2 ^ (m + 2) * 2)"
    unfolding hl using stretch [OF bnd(1,2) xy(2,3)] d(2) dM(1)
    by (intro ranged_to_f64) (simp_all add: power_add mult.commute)
  moreover have "ranged (c_low b) (1 / 4) ?m"
    unfolding hl using shrink [OF bnd(3) xy(5,6)] dM(2) by (intro ranged_to_f64) simp_all
  ultimately show "candle_ok b" "ranged (c_close b) (1 / 2) (2 ^ (m + 2))"
    using oc c by (auto elim!: rangedE simp: candle_ok_def b_def walk_candle_def Let_def zero_pyfloat_def)
qed

section \<open>The whole walk\<close>

text \<open>The candles follow each other: in price, and second by second.\<close>

fun chained :: "candle list \<Rightarrow> bool" where
  "chained (a # b # cs) \<longleftrightarrow> c_open b = c_close a \<and> c_t_open b = c_t_close a \<and> chained (b # cs)"
| "chained _ = True"

lemma walk_length [simp]: "length (price_walk R k ds price t) = length ds"
  by (induction ds arbitrary: k price t) (simp_all add: Let_def)

lemma walk_chained: "chained (price_walk R k ds price t)"
proof (induction ds arbitrary: k price t)
  case (Cons d ds)
  show ?case
    using Cons.IH [of "k + 3" "c_close (walk_candle d price t (R k) (R (k + 1)) (R (k + 2)))" "t + 1"]
    by (cases ds) (simp_all add: Let_def, simp_all add: walk_candle_def Let_def)
qed simp

lemma walk_ok:
  assumes "\<And>k. unit_draw (R k)" "\<And>d. d \<in> set ds \<Longrightarrow> ranged d (- 1) 1"
    "ranged price (1 / 2) (2 ^ m)" "m + 2 * length ds \<le> 900" "b \<in> set (price_walk R k ds price t)"
  shows "candle_ok b \<and> Fin (1 / 2) \<le> c_close b"
  using assms(2-5)
proof (induction ds arbitrary: k price t m)
  case (Cons d ds)
  let ?b = "walk_candle d price t (R k) (R (k + 1)) (R (k + 2))"
  have b: "candle_ok ?b" "ranged (c_close ?b) (1 / 2) (2 ^ (m + 2))"
    using walk_candle_ranged [OF Cons.prems(2) _ assms(1) assms(1) assms(1)] Cons.prems(1,3) by simp_all
  consider "b = ?b" | "b \<in> set (price_walk R (k + 3) ds (c_close ?b) (t + 1))"
    using Cons.prems(4) by (auto simp: Let_def)
  then show ?case
  proof cases
    case 1
    then show ?thesis using b by (auto elim!: rangedE)
  next
    case 2
    then show ?thesis using Cons.IH [OF _ b(2)] Cons.prems(1,3) by simp
  qed
qed simp

lemma script_ranged: "d \<in> set (concat (map (\<lambda>(n, drift). replicate n drift) regime_script)) \<Longrightarrow> ranged d (- 1) 1"
proof -
  have r: "ranged (to_f64 x) (- 1) 1" if "\<bar>x\<bar> \<le> 1" for x
    using that by (intro ranged_to_f64) (auto simp: abs_le_iff)
  assume "d \<in> set (concat (map (\<lambda>(n, drift). replicate n drift) regime_script))"
  then show ?thesis by (auto simp: regime_script_def intro: r)
qed

text \<open>
  C40: Whatever the generator draws, the synthetic market is a market: always 222 candles, whatever
  length was asked for, every one of them well formed (finite, positive, low and high around
  open and close), never closing below a half, each opening where and when the last one closed.
\<close>

theorem synthetic_market_ok:
  assumes "\<And>k. unit_draw (R k)"
  shows "length (synthetic_candles R n) = 222 \<and> chained (synthetic_candles R n) \<and>
    (\<forall>b \<in> set (synthetic_candles R n). candle_ok b \<and> Fin (1 / 2) \<le> c_close b)"
proof -
  let ?ds = "concat (map (\<lambda>(n, drift). replicate n drift) regime_script)"
  have l: "length ?ds = 222" by (simp add: regime_script_def)
  have "is_double (Fin 100)" using double_eighths [of 800] by simp
  then have p: "ranged (Fin 100) (1 / 2) (2 ^ 7)" by (simp add: ranged_def)
  have "candle_ok b \<and> Fin (1 / 2) \<le> c_close b" if "b \<in> set (synthetic_candles R n)" for b
    using walk_ok [OF assms script_ranged p _ that [unfolded synthetic_candles_def]] l by simp
  then show ?thesis by (simp add: synthetic_candles_def walk_chained l del: concat.simps)
qed

lemma synthetic_market_ok_witness:
  "length (synthetic_candles (\<lambda>k. if even k then Fin (1 / 2) else 0) 10) = 222 \<and>
   list_all candle_ok (synthetic_candles (\<lambda>k. if even k then Fin (1 / 2) else 0) 10)"
proof -
  have "unit_draw (if even k then Fin (1 / 2) else 0)" for k :: nat
    by (auto simp: unit_draw_def zero_pyfloat_def one_pyfloat_def)
  from synthetic_market_ok [OF this, of "\<lambda>k. k" 10] show ?thesis by (simp add: list_all_iff)
qed

section \<open>The demonstrations\<close>

text \<open>The rows of the table: the bars at which regime, phase or bias change.\<close>

definition context_key :: "market_context \<Rightarrow> regime \<times> phase \<times> bias" where
  "context_key ctx = (x_regime ctx, x_phase ctx, x_bias ctx)"

fun demo_rows :: "params \<Rightarrow> candle list \<Rightarrow> nat list \<Rightarrow> (regime \<times> phase \<times> bias) option \<Rightarrow> (nat \<times> market_context) list" where
  "demo_rows p candles [] key = []"
| "demo_rows p candles (i # bars) key =
     (let ctx = build_context (take i candles) p ''SYNTH'' in
      if Some (context_key ctx) = key then demo_rows p candles bars key
      else (i, ctx) # demo_rows p candles bars (Some (context_key ctx)))"

definition market_demo :: "params \<Rightarrow> (nat \<Rightarrow> pyfloat) \<Rightarrow> (nat \<times> market_context) list" where
  "market_demo p R = (let candles = synthetic_candles R 220 in demo_rows p candles [1 ..< length candles + 1] None)"

text \<open>
  \<open>_demo_ticks\<close>: a candle becomes a few ticks on the way from open to close, one a minute, and a
  last one at the close, at the time of the first tick of the next candle.
\<close>

definition candle_price :: "candle \<Rightarrow> nat \<Rightarrow> nat \<Rightarrow> pyfloat \<Rightarrow> pyfloat" where
  "candle_price b n k r =
     c_open b + (c_close b - c_open b) * (float_of_nat (k + 1) / float_of_nat n) +
     uniform (to_f64 (- 2 / 100)) (to_f64 (2 / 100)) r * (c_high b - c_low b)"

fun demo_walk :: "(nat \<Rightarrow> pyfloat) \<Rightarrow> (nat \<Rightarrow> nat) \<Rightarrow> nat \<Rightarrow> nat \<Rightarrow> pyfloat \<Rightarrow> candle list \<Rightarrow> (pyfloat \<times> pyfloat) list" where
  "demo_walk U S j i t [] = []"
| "demo_walk U S j i t (b # bs) =
     (let n = S i; t' = t + Fin 60 * float_of_nat n in
      map (\<lambda>k. (candle_price b n k (U (j + k)), t + float_of_nat k * Fin 60)) [0 ..< n] @
      (c_close b, t') # demo_walk U S (j + n) (Suc i) t' bs)"

definition demo_ticks :: "(nat \<Rightarrow> pyfloat) \<Rightarrow> (nat \<Rightarrow> pyfloat) \<Rightarrow> (nat \<Rightarrow> nat) \<Rightarrow> nat \<Rightarrow> (pyfloat \<times> pyfloat) list" where
  "demo_ticks R U S n_total = demo_walk U S 0 0 (Fin 1700000000) (synthetic_candles R 220)"

lemma float_of_nat_Fin: "int n \<le> 2 ^ 53 \<Longrightarrow> float_of_nat n = Fin (of_nat n)"
  using to_f64_int [of "int n"] by (simp add: float_of_int_def)

lemma demo_times:
  assumes "\<And>i. S i \<le> 5" "n + 300 * length bs \<le> 2 ^ 50"
  shows "sorted_wrt (\<lambda>x y. snd x \<le> snd y) (demo_walk U S j i (Fin (of_nat n)) bs) \<and>
    (\<forall>x \<in> set (demo_walk U S j i (Fin (of_nat n)) bs). Fin (of_nat n) \<le> snd x) \<and>
    (\<forall>b \<in> set bs. c_close b \<in> fst ` set (demo_walk U S j i (Fin (of_nat n)) bs))"
  using assms(2)
proof (induction bs arbitrary: j i n)
  case (Cons b bs)
  have at: "Fin (of_nat n) + float_of_nat k * Fin 60 = Fin (of_nat (n + 60 * k))"
    "Fin (of_nat n) + Fin 60 * float_of_nat k = Fin (of_nat (n + 60 * k))" if "k \<le> 5" for k
  proof -
    have "int k * 60 \<le> 2 ^ 53" "int n + int k * 60 \<le> 2 ^ 53" using that Cons.prems by simp_all
    then show "Fin (of_nat n) + float_of_nat k * Fin 60 = Fin (of_nat (n + 60 * k))"
      "Fin (of_nat n) + Fin 60 * float_of_nat k = Fin (of_nat (n + 60 * k))"
      using to_f64_int [of "int k * 60"] to_f64_int [of "int n + int k * 60"]
      by (simp_all add: float_of_nat_Fin algebra_simps)
  qed
  have s: "S i \<le> 5" by (rule assms(1))
  have "(n + 60 * S i) + 300 * length bs \<le> 2 ^ 50" using Cons.prems s by simp
  from Cons.IH [OF this, of "j + S i" "Suc i"]
  have ih: "sorted_wrt (\<lambda>x y. snd x \<le> snd y) (demo_walk U S (j + S i) (Suc i) (Fin (of_nat (n + 60 * S i))) bs)"
    "\<And>x. x \<in> set (demo_walk U S (j + S i) (Suc i) (Fin (of_nat (n + 60 * S i))) bs) \<Longrightarrow> Fin (of_nat (n + 60 * S i)) \<le> snd x"
    "\<And>b. b \<in> set bs \<Longrightarrow> c_close b \<in> fst ` set (demo_walk U S (j + S i) (Suc i) (Fin (of_nat (n + 60 * S i))) bs)"
    by blast+
  have late: "Fin (of_nat (n + 60 * k)) \<le> snd x"
    if "x \<in> set (demo_walk U S (j + S i) (Suc i) (Fin (of_nat (n + 60 * S i))) bs)" "k \<le> S i" for x k
  proof -
    have "Fin (of_nat (n + 60 * k)) \<le> Fin (of_nat (n + 60 * S i) :: rat)" using that(2)
      by (simp only: less_eq_pyfloat.simps of_nat_le_iff)
    then show ?thesis using ih(2) [OF that(1)] by (rule float_trans)
  qed
  define rest where "rest = demo_walk U S (j + S i) (Suc i) (Fin (of_nat (n + 60 * S i))) bs"
  have w: "demo_walk U S j i (Fin (of_nat n)) (b # bs) =
      map (\<lambda>k. (candle_price b (S i) k (U (j + k)), Fin (of_nat (n + 60 * k)))) [0 ..< S i] @
      (c_close b, Fin (of_nat (n + 60 * S i))) # rest"
    using s by (simp add: Let_def at rest_def del: of_nat_add of_nat_mult)
  have start: "Fin (of_nat n) \<le> Fin (of_nat (n + 60 * k) :: rat)" for k
    by (simp only: less_eq_pyfloat.simps of_nat_le_iff)
  have sorted: "sorted_wrt (\<lambda>x y. snd x \<le> snd y)
      (map (\<lambda>k. (candle_price b (S i) k (U (j + k)), Fin (of_nat (n + 60 * k)))) [0 ..< S i])"
    by (auto simp: sorted_wrt_map sorted_wrt_iff_nth_less)
  let ?now = "map (\<lambda>k. (candle_price b (S i) k (U (j + k)), Fin (of_nat (n + 60 * k)))) [0 ..< S i]"
  let ?close = "(c_close b, Fin (of_nat (n + 60 * S i)))"
  note ih = ih [folded rest_def] and late = late [folded rest_def]
  have close_last: "snd x \<le> snd ?close" if "x \<in> set ?now" for x
    using that by auto
  have "snd x \<le> snd y" if "x \<in> set ?now" "y \<in> set rest" for x y
    using late [OF that(2)] that(1) by auto
  moreover have "snd ?close \<le> snd y" if "y \<in> set rest" for y using ih(2) [OF that] by simp
  ultimately have "sorted_wrt (\<lambda>x y. snd x \<le> snd y) (?now @ ?close # rest)"
    unfolding sorted_wrt_append using sorted ih(1) close_last by fastforce
  moreover have "Fin (of_nat n) \<le> snd x" if "x \<in> set (?now @ ?close # rest)" for x
  proof -
    from that consider "x \<in> set ?now" | "x = ?close" | "x \<in> set rest" by auto
    then show ?thesis
    proof cases
      case 3
      then show ?thesis using float_trans(1) [OF start ih(2)] by blast
    qed (use start in auto)
  qed
  moreover have "c_close x \<in> fst ` set (?now @ ?close # rest)" if "x \<in> set (b # bs)" for x
    using that ih(3) by auto
  ultimately show ?case unfolding w by blast
qed simp

text \<open>
  The demonstration feed runs forward in time and shows every close: whatever is drawn, the
  timestamps never decrease, none is before the start, and the close of every synthetic candle is
  the price of a tick.
\<close>

theorem demo_ticks_forward:
  assumes "\<And>i. S i \<le> 5"
  shows "sorted_wrt (\<lambda>x y. snd x \<le> snd y) (demo_ticks R U S n) \<and>
    (\<forall>x \<in> set (demo_ticks R U S n). Fin 1700000000 \<le> snd x) \<and>
    (\<forall>b \<in> set (synthetic_candles R 220). c_close b \<in> fst ` set (demo_ticks R U S n))"
proof -
  have "length (synthetic_candles R 220) = 222"
    by (simp add: synthetic_candles_def regime_script_def)
  then show ?thesis
    using demo_times [where n = 1700000000 and bs = "synthetic_candles R 220" and U = U and j = 0 and i = 0, OF assms] by (simp add: demo_ticks_def)
qed

lemma demo_ticks_forward_witness:
  "\<forall>R U n. list_all (\<lambda>x. Fin 1700000000 \<le> snd x) (demo_ticks R U (\<lambda>i. 2 + i mod 4) n)"
proof (intro allI)
  fix R U n
  have "2 + i mod 4 \<le> 5" for i :: nat using mod_less_divisor [of 4 i] by linarith
  from demo_ticks_forward [where R = R and U = U and n = n, OF this]
  show "list_all (\<lambda>x. Fin 1700000000 \<le> snd x) (demo_ticks R U (\<lambda>i. 2 + i mod 4) n)"
    by (simp add: list_all_iff)
qed

text \<open>The rows of the table name changes only: no two neighbours show the same key.\<close>

lemma demo_rows_head: "demo_rows p candles bars key = (i, ctx) # rows \<Longrightarrow> Some (context_key ctx) \<noteq> key"
  by (induction bars) (auto simp: Let_def split: if_splits)

lemma demo_rows_differ:
  "successively (\<lambda>a b. context_key (snd a) \<noteq> context_key (snd b)) (demo_rows p candles bars key)"
proof (induction bars arbitrary: key)
  case (Cons i bars)
  let ?ctx = "build_context (take i candles) p ''SYNTH''"
  show ?case
    using Cons.IH demo_rows_head [of p candles bars "Some (context_key ?ctx)"]
    by (cases "demo_rows p candles bars (Some (context_key ?ctx))") (fastforce simp: Let_def)+
qed simp

end
