(* ===== verification/VenueSchemas.thy ===== *)
theory VenueSchemas
  imports VenueAdapters "HOL-Library.List_Lexorder" "HOL-Library.Char_ord"
begin

text \<open>
  The schema side of the plugin loader (\<open>adapters/adapters/discovery_agent.py\<close>): the registry of the two
  schema files and the validation of a manifest against them. The validator of the \<open>jsonschema\<close>
  package is a parameter: from a schema, a registry and a manifest it yields error messages.
\<close>

definition ORDER_TYPES_SCHEMA :: string where "ORDER_TYPES_SCHEMA = ''order_types.jsonschema''"
definition VENUE_CONTRACT_SCHEMA :: string where "VENUE_CONTRACT_SCHEMA = ''venue_contract.jsonschema''"

text \<open>\<open>doc[''$id'']\<close> of a decoded schema.\<close>

definition schema_id :: "json \<Rightarrow> json result" where
  "schema_id doc =
     (case doc of
        JObj kvs \<Rightarrow> (case map_of kvs ''$id'' of None \<Rightarrow> Raise KeyError | Some i \<Rightarrow> Ok i)
      | _ \<Rightarrow> Raise TypeError)"

type_synonym registry = "(json \<times> json) list"

fun add_schemas :: "(string \<Rightarrow> json result) \<Rightarrow> string list \<Rightarrow> registry \<Rightarrow> registry result" where
  "add_schemas read [] reg = Ok reg"
| "add_schemas read (f # fs) reg =
     rbind (read f) (\<lambda>doc. rbind (schema_id doc) (\<lambda>i. add_schemas read fs (AList.update i doc reg)))"

definition schema_registry :: "(string \<Rightarrow> json result) \<Rightarrow> registry result" where
  "schema_registry read = add_schemas read [ORDER_TYPES_SCHEMA, VENUE_CONTRACT_SCHEMA] []"

definition validate_manifest ::
    "(json \<Rightarrow> registry \<Rightarrow> json \<Rightarrow> string list) \<Rightarrow> (string \<Rightarrow> json result) \<Rightarrow> json \<Rightarrow> string list result" where
  "validate_manifest iter_errors read manifest =
     rbind (read VENUE_CONTRACT_SCHEMA) (\<lambda>doc.
     rbind (schema_registry read) (\<lambda>reg. Ok (sorted_list_of_set (set (iter_errors doc reg manifest)))))"

text \<open>The agent: its directories, read anew for every manifest.\<close>

definition discover ::
    "(json \<Rightarrow> registry \<Rightarrow> json \<Rightarrow> string list) \<Rightarrow> (string \<Rightarrow> json result) \<Rightarrow> 'a plugin list option \<Rightarrow>
     (string \<times> 'a) list result \<times> string list" where
  "discover iter_errors read dir = load_active_plugins (validate_manifest iter_errors read) dir"

section \<open>Lemmas\<close>

text \<open>Reading a schema file fails only in the ways the agent catches.\<close>

definition file_errors :: "(string \<Rightarrow> json result) \<Rightarrow> bool" where
  "file_errors read \<longleftrightarrow> (\<forall>g e. read g = Raise e \<longrightarrow> manifest_error e)"

lemma validate_unreadable:
  assumes "f \<in> {ORDER_TYPES_SCHEMA, VENUE_CONTRACT_SCHEMA}" "read f = Raise e" "file_errors read"
  shows "\<exists>e. validate_manifest iter_errors read m = Raise e \<and> manifest_error e"
proof (cases "read VENUE_CONTRACT_SCHEMA")
  case (Inl e)
  then show ?thesis using assms(3) by (auto simp: validate_manifest_def file_errors_def)
next
  case (Inr d)
  then have "read ORDER_TYPES_SCHEMA = Raise e" using assms(1,2) by auto
  then show ?thesis using Inr assms(3) by (auto simp: validate_manifest_def schema_registry_def file_errors_def)
qed

lemma load_rejects_all:
  "(\<And>m. \<exists>e. validate m = Raise e \<and> manifest_error e) \<Longrightarrow> load_plugins validate ps loaded executed = (Ok loaded, executed)"
proof (induction ps)
  case (Cons p ps)
  show ?case
  proof (cases "pl_manifest p")
    case (Some m)
    obtain e where "validate m = Raise e" "manifest_error e" using Cons.prems by blast
    then show ?thesis using Cons Some by simp
  qed (simp add: Cons)
qed simp

text \<open>
  Without its schemas the agent loads nothing: when one of the two schema files is missing,
  unreadable or no JSON (the other may be fine), every plugin is turned away, none of their code
  runs, and the load still returns.
\<close>

theorem no_schema_no_plugin:
  assumes "f \<in> {ORDER_TYPES_SCHEMA, VENUE_CONTRACT_SCHEMA}" "read f = Raise e" "file_errors read"
  shows "discover iter_errors read dir = (Ok [], [])"
  using load_rejects_all [OF validate_unreadable [where iter_errors = iter_errors, OF assms]]
  by (auto simp: discover_def load_active_plugins_def split: option.splits)

lemma no_schema_no_plugin_witness:
  "\<forall>iter_errors. discover iter_errors
     (\<lambda>f. if f = ORDER_TYPES_SCHEMA then Raise OSError else Ok (JObj [(''$id'', JStr ''venue'')]))
     (Some [sample_plugin ''a'' (Ok ())]) = (Ok [], [])"
proof
  fix iter_errors
  let ?read = "\<lambda>f. if f = ORDER_TYPES_SCHEMA then Raise OSError else Ok (JObj [(''$id'', JStr ''venue'')])"
  have "file_errors ?read" by (auto simp: file_errors_def manifest_error_def is_os_error_def)
  then show "discover iter_errors ?read (Some [sample_plugin ''a'' (Ok ())]) = (Ok [], [])"
    by (intro no_schema_no_plugin [where f = ORDER_TYPES_SCHEMA and e = OSError]) simp_all
qed

text \<open>
  A manifest passes exactly when the validator reports nothing; otherwise the messages are
  reported sorted and without repetition.
\<close>

theorem validate_manifest_reports:
  assumes "read VENUE_CONTRACT_SCHEMA = Ok doc" "schema_registry read = Ok reg"
  shows "\<exists>msgs. validate_manifest iter_errors read m = Ok msgs \<and> sorted msgs \<and> distinct msgs \<and>
    set msgs = set (iter_errors doc reg m) \<and> (msgs = [] \<longleftrightarrow> iter_errors doc reg m = [])"
  using assms by (auto simp: validate_manifest_def)

end
