(* ===== verification/PipelineRun.thy ===== *)
theory PipelineRun
  imports Drivers ConstitutionClient
begin

text \<open>
  \<open>main\<close> of \<open>run_pipeline.py\<close> around its scenarios: connecting to the kernel, launching one when
  none answers, the scenarios over the session, the final status, and the cleanup. What the
  connections and the launch give are arguments.
\<close>

definition new_client :: kernel_client where
  "new_client = \<lparr>kc_session = None\<rparr>"

text \<open>The client and whether a kernel was launched, and the outcome.\<close>

type_synonym pipeline_state = "kernel_client \<times> bool"

definition launch_kernel :: "unit result \<Rightarrow> sock result \<Rightarrow> kernel_client \<Rightarrow> pipeline_state \<times> unit result" where
  "launch_kernel popen connect2 old =
     (case popen of
        Inl e \<Rightarrow> ((old, False), Raise e)
      | Inr _ \<Rightarrow> (case open_session connect2 new_client of (r, c) \<Rightarrow> ((c, True), r)))"

definition connect_kernel :: "codec \<Rightarrow> sock result \<Rightarrow> unit result \<Rightarrow> sock result \<Rightarrow> pipeline_state \<times> unit result" where
  "connect_kernel C connect1 popen connect2 =
     (case open_session connect1 new_client of
        (Inl e, c) \<Rightarrow> if is_os_error e then launch_kernel popen connect2 c else ((c, False), Raise e)
      | (Inr _, c) \<Rightarrow>
          (case heartbeat_call C c of
             (Inl e, c1) \<Rightarrow> if is_os_error e then launch_kernel popen connect2 c1 else ((c1, False), Raise e)
           | (Inr _, c1) \<Rightarrow> ((c1, False), Ok ())))"

text \<open>One scenario over the session: its tick may ask the kernel once.\<close>

definition session_step ::
    "codec \<Rightarrow> (portfolio \<Rightarrow> json) \<Rightarrow> (trade_proposal \<Rightarrow> json) \<Rightarrow> (string \<Rightarrow> pyfloat option) \<Rightarrow> (json \<Rightarrow> string) \<Rightarrow> string \<Rightarrow>
     pyfloat \<times> obj \<Rightarrow> portfolio \<Rightarrow> kernel_client \<Rightarrow> portfolio result \<times> kernel_client" where
  "session_step C enc encp parse render uuid t folio c =
     (pipeline_step (\<lambda>folio p. fst (evaluate C (enc folio) (encp p) c)) parse render uuid t folio,
      case evaluate_market_tick parse render uuid ''EURUSD'' (snd t @ [(''account_equity'', JFloat (pf_equity folio))]) of
        Inr (Some p) \<Rightarrow> snd (evaluate C (enc folio) (encp p) c)
      | _ \<Rightarrow> c)"

fun session_loop ::
    "codec \<Rightarrow> (portfolio \<Rightarrow> json) \<Rightarrow> (trade_proposal \<Rightarrow> json) \<Rightarrow> (string \<Rightarrow> pyfloat option) \<Rightarrow> (json \<Rightarrow> string) \<Rightarrow> string \<Rightarrow>
     (pyfloat \<times> obj) list \<Rightarrow> portfolio \<Rightarrow> kernel_client \<Rightarrow> portfolio result \<times> kernel_client" where
  "session_loop C enc encp parse render uuid [] folio c = (Ok folio, c)"
| "session_loop C enc encp parse render uuid (t # ts) folio c =
     (case session_step C enc encp parse render uuid t folio c of
        (Inl e, c1) \<Rightarrow> (Raise e, c1)
      | (Inr folio1, c1) \<Rightarrow> session_loop C enc encp parse render uuid ts folio1 c1)"

definition pipeline_main ::
    "codec \<Rightarrow> (portfolio \<Rightarrow> json) \<Rightarrow> (trade_proposal \<Rightarrow> json) \<Rightarrow> (string \<Rightarrow> pyfloat option) \<Rightarrow> (json \<Rightarrow> string) \<Rightarrow> string \<Rightarrow>
     sock result \<Rightarrow> unit result \<Rightarrow> sock result \<Rightarrow> pipeline_state \<times> (json \<times> json \<times> json) result" where
  "pipeline_main C enc encp parse render uuid connect1 popen connect2 =
     (case connect_kernel C connect1 popen connect2 of
        (st, Inl e) \<Rightarrow> (st, Raise e)
      | ((c, launched), Inr _) \<Rightarrow>
          (case session_loop C enc encp parse render uuid scenarios (pipeline_portfolio (Fin 50000) (Fin 52000)) c of
             (Inl e, c1) \<Rightarrow> ((close_session c1, False), Raise e)
           | (Inr _, c1) \<Rightarrow> (case get_status C c1 of (r, c2) \<Rightarrow> ((close_session c2, False), r))))"

text \<open>The first attempt to talk to a running kernel.\<close>

definition first_attempt :: "codec \<Rightarrow> sock result \<Rightarrow> json result" where
  "first_attempt C connect1 = rbind connect1 (\<lambda>s. fst (heartbeat_call C \<lparr>kc_session = Some s\<rparr>))"

text \<open>
  The script cleans up after itself except where connecting fails: a kernel it launched is
  left running exactly when nobody answered, the launch succeeded and the second connection
  failed, which happens outside the block that cleans up; and once connected, it closes its
  session on every path.
\<close>

theorem pipeline_orphans_kernel:
  "case pipeline_main C enc encp parse render uuid connect1 popen connect2 of ((c, running), r) \<Rightarrow>
     (running = ((\<exists>e. first_attempt C connect1 = Raise e \<and> is_os_error e) \<and> is_ok popen \<and> \<not> is_ok connect2)) \<and>
     (if running then \<exists>e. connect2 = Raise e \<and> r = Raise e else True) \<and>
     (if is_ok (first_attempt C connect1) then kc_session c = None else True)"
proof (cases "first_attempt C connect1")
  case (Inr x)
  then obtain s where s: "connect1 = Ok s" "fst (heartbeat_call C \<lparr>kc_session = Some s\<rparr>) = Ok x"
    by (auto simp: first_attempt_def rbind_Inr_iff)
  have "\<exists>c. connect_kernel C connect1 popen connect2 = ((c, False), Ok ())"
    using s by (cases "heartbeat_call C \<lparr>kc_session = Some s\<rparr>")
      (auto simp: connect_kernel_def open_session_def new_client_def)
  then show ?thesis
    using Inr by (auto simp: pipeline_main_def close_session_def split: prod.splits sum.splits)
next
  case (Inl e)
  have k: "\<exists>c. connect_kernel C connect1 popen connect2 =
      (if is_os_error e then launch_kernel popen connect2 c else ((c, False), Raise e))"
  proof (cases connect1)
    case (Inl e')
    then show ?thesis using \<open>first_attempt C connect1 = Inl e\<close>
      by (auto simp: first_attempt_def connect_kernel_def open_session_def new_client_def)
  next
    case (Inr s)
    then have "fst (heartbeat_call C \<lparr>kc_session = Some s\<rparr>) = Inl e" using Inl by (simp add: first_attempt_def)
    then show ?thesis using Inr
      by (cases "heartbeat_call C \<lparr>kc_session = Some s\<rparr>")
        (auto simp: connect_kernel_def open_session_def new_client_def)
  qed
  then obtain c where c: "connect_kernel C connect1 popen connect2 =
      (if is_os_error e then launch_kernel popen connect2 c else ((c, False), Raise e))" by blast
  consider (stop) "\<not> is_os_error e" "connect_kernel C connect1 popen connect2 = ((c, False), Raise e)"
    | (refused) e1 where "is_os_error e" "popen = Raise e1" "connect_kernel C connect1 popen connect2 = ((c, False), Raise e1)"
    | (orphan) e2 where "is_os_error e" "popen = Ok ()" "connect2 = Raise e2"
        "connect_kernel C connect1 popen connect2 = ((new_client, True), Raise e2)"
    | (up) s where "is_os_error e" "popen = Ok ()" "connect2 = Ok s"
        "connect_kernel C connect1 popen connect2 = ((\<lparr>kc_session = Some s\<rparr>, True), Ok ())"
    using c by (cases popen; cases connect2) (auto simp: launch_kernel_def open_session_def new_client_def split: if_splits)
  then show ?thesis
    by cases (simp_all add: pipeline_main_def Inl close_session_def split: prod.splits sum.splits)
qed

end
