(* ===== verification/FeedService.thy ===== *)
theory FeedService
  imports TradingCli Services
begin

text \<open>
  Trading as the orchestrator runs it (\<open>_run_trading_daemon\<close> of \<open>centaur_start.py\<close>): the synthetic feed
  \<open>market_feed.py\<close> writes one line per interval into a pipe, and a trading daemon configured from the
  environment reads them, while the thread of its switch pulses in between.
\<close>

section \<open>The two processes\<close>

text \<open>
  \<open>main\<close> of \<open>market_feed.py\<close>: one tick a line, on the draws of the generator. Decoding a line gives back
  the object that was encoded.
\<close>

type_synonym draw = "pyfloat \<times> bool \<times> pyfloat \<times> int"

definition feed_line :: "draw \<Rightarrow> json" where
  "feed_line = (\<lambda>(volatility, momentum, gauss, now).
     JObj (generate_tick ''EURUSD'' (lit (108 / 100)) volatility momentum gauss now))"

record service_env =
  env_asset :: "string option"
  env_port :: "string option"
  env_equity :: "string option"

text \<open>\<open>os.environ.get(name, default)\<close>.\<close>

definition env_or :: "string option \<Rightarrow> string \<Rightarrow> string" where
  "env_or v d = (case v of None \<Rightarrow> d | Some s \<Rightarrow> s)"

text \<open>
  The script of the daemon: \<open>int\<close> and \<open>float\<close> of the variables (\<open>None\<close> is their \<open>ValueError\<close>), the daemon
  with intervals of five seconds, and its start, which needs the kernel to answer (\<open>reach\<close>).
\<close>

definition trading_service ::
    "(string \<Rightarrow> int option) \<Rightarrow> (string \<Rightarrow> pyfloat option) \<Rightarrow> unit result \<Rightarrow> (nat \<Rightarrow> pyfloat) \<Rightarrow> service_env \<Rightarrow>
      ('a, sim_oracle) trading result" where
  "trading_service parse_int parse reach clk env =
     (case parse_int (env_or (env_port env) ''15565'') of
        None \<Rightarrow> Raise ValueError
      | Some _ \<Rightarrow>
          (case parse (env_or (env_equity env) ''100000'') of
             None \<Rightarrow> Raise ValueError
           | Some equity \<Rightarrow>
               rbind (new_trading (env_or (env_asset env) ''EURUSD'') equity (Fin 5) None clk) (\<lambda>s.
               rbind reach (\<lambda>_. Ok (start_trading s)))))"

text \<open>
  A line of the feed that the daemon reads at a time (with the identifier its proposal would get), or
  a pulse of the switch's thread.
\<close>

datatype service_event = Line pyfloat string draw | Pulse pyfloat

fun service_input :: "service_event \<Rightarrow> pyfloat option \<times> input" where
  "service_input (Line t uuid d) = (Some t, Arrives uuid (feed_line d))"
| "service_input (Pulse t) = (Some t, Pulses)"

definition run_trading_service ::
    "quote_hash \<Rightarrow> 'a venue \<Rightarrow> constitution \<Rightarrow> (string \<Rightarrow> int option) \<Rightarrow> (string \<Rightarrow> pyfloat option) \<Rightarrow> (json \<Rightarrow> string) \<Rightarrow>
      unit result \<Rightarrow> (nat \<Rightarrow> pyfloat) \<Rightarrow> service_env \<Rightarrow> service_event list \<Rightarrow> (('a, sim_oracle) trading \<times> unit result) result" where
  "run_trading_service ref_of ven judge parse_int parse render reach clk env es =
     rbind (trading_service parse_int parse reach clk env) (\<lambda>s.
       Ok (run_source (sim_ops ref_of) no_hooks ven judge parse render (map service_input es) s))"

text \<open>
  The switch's configuration is written out again in \<open>_default_doomsday_config\<close> of \<open>trading_daemon.py\<close>; it is
  the one of \<open>doomsday/daemon.py\<close>, which \<open>new_trading\<close> uses.
\<close>

definition trading_config :: "pyfloat \<Rightarrow> dead_man_config" where
  "trading_config interval =
     \<lparr>g_interval = interval, g_grace_mult = 3, g_escalation_mult = 6, g_enabled = True, g_abortable = 2, g_liq_mult = 4,
      g_plan =
        [(plain_step NOTIFY)\<lparr>s_channels := [''ops-slack'']\<rparr>,
         plain_step HALT_PLACEMENTS,
         (plain_step REDUCE_EXPOSURE)\<lparr>s_target := Some (Fin 50)\<rparr>,
         (plain_step ACQUIRE_ASSETS)\<lparr>s_asset_out := Some ''USDC'', s_via := Some ''simulation_oracle''\<rparr>,
         plain_step SEAL],
      g_oracle = ''simulation_oracle'', g_strict = False, g_max_journal = 2048\<rparr>"

lemma trading_config_default: "trading_config = default_config"
  by (simp add: fun_eq_iff trading_config_def default_config_def default_plan_def)

section \<open>Keeping pace\<close>

text \<open>Every pulse comes within fifteen seconds after the last line.\<close>

fun on_pace :: "pyfloat option \<Rightarrow> service_event list \<Rightarrow> bool" where
  "on_pace prev [] = True"
| "on_pace prev (Line t uuid d # es) = on_pace (Some t) es"
| "on_pace prev (Pulse t # es) = ((case prev of None \<Rightarrow> True | Some t0 \<Rightarrow> t - t0 \<le> Fin 15) \<and> on_pace prev es)"

definition rested :: "pyfloat option \<Rightarrow> ('a, sim_oracle) trading \<Rightarrow> bool" where
  "rested prev s \<longleftrightarrow> td_ticking s \<and> d_key (td_switch s) = None \<and>
     at_rest (default_config (Fin 5)) prev \<lparr>sw_daemon = td_switch s, sw_ticking = True\<rparr>"

lemma five_second_grace: "grace_period (default_config (Fin 5)) = Fin 15"
  by (simp add: grace_period_def default_config_def) code_simp

lemma five_second_ok: "config_ok (default_config (Fin 5))" "\<not> g_strict (default_config (Fin 5))"
  by (simp_all add: default_config_ok) (simp add: default_config_def)

lemma disarm_without_key: "d_key d = None \<Longrightarrow> disarm k d = (d, Raise PermissionError)"
  by (simp add: disarm_def)

lemma verdict_keeps_switch:
  "d_key (td_switch s) = None \<Longrightarrow> td_switch (fst (handle_verdict ven v pd s)) = td_switch s"
  using handle_verdict_switch [of ven v pd s] by (auto simp: disarm_without_key)

lemma approved_keeps_ticking [simp]: "td_ticking (fst (apply_approved_proposal asset x n s)) = td_ticking s"
  by (auto simp: apply_approved_proposal_def split: sum.splits)

lemma route_keeps_ticking [simp]: "td_ticking (fst (route_order ven verdict n pd a s)) = td_ticking s"
  by (simp add: route_order_def apply_execution_def split: sum.splits option.splits prod.splits)

lemma handle_approved_keeps_ticking [simp]: "td_ticking (fst (handle_approved ven verdict pd s)) = td_ticking s"
  by (simp add: handle_approved_def split: sum.split option.split)

lemma on_switch_keeps_ticking [simp]: "td_ticking (fst (on_switch dr s)) = td_ticking s"
  by (simp add: on_switch_def)

lemma verdict_keeps_ticking: "td_ticking (fst (handle_verdict ven v pd s)) = td_ticking s"
  unfolding handle_verdict_def by (simp split: sum.split bool.split)

lemma adjudicate_keeps:
  assumes "d_key (td_switch s) = None"
  shows "td_switch (fst (adjudicate ven judge p s)) = td_switch s \<and> td_ticking (fst (adjudicate ven judge p s)) = td_ticking s"
  using assms by (auto simp: adjudicate_def verdict_keeps_switch verdict_keeps_ticking split: sum.splits)

lemma refused_beat_keeps: "snd (beat b d) = Raise e \<Longrightarrow> fst (beat b d) = d"
  by (auto simp: beat_def Let_def split: if_splits prod.splits)

text \<open>A tick beats the switch, or fails and leaves it alone.\<close>

lemma process_tick_beats:
  assumes "d_key (td_switch s) = None"
  shows "(case process_tick ven judge parse render uuid kvs s of
      (s', Inl _) \<Rightarrow> td_switch s' = td_switch s
    | (s', Inr _) \<Rightarrow> td_switch s' = fst (beat False (td_switch s)) \<and> td_ticking s' = td_ticking s)"
proof (cases "evaluate_market_tick parse render uuid (td_asset s) (prepare_tick s kvs)")
  case (Inr action)
  obtain s1 r where s1: "(case action of None \<Rightarrow> (s, Ok ()) | Some p \<Rightarrow> adjudicate ven judge p s) = (s1, r)" by fastforce
  then have "td_switch s1 = td_switch s \<and> td_ticking s1 = td_ticking s"
    using adjudicate_keeps [OF assms, of ven judge] by (cases action) (auto, (metis fst_conv)+)
  then show ?thesis
    by (cases r) (auto simp: process_tick_def Inr s1 on_switch_def split: sum.split dest: refused_beat_keeps)
qed (simp add: process_tick_def)

lemma rested_time: "rested prev s \<Longrightarrow> rested prev (at_time (Some t) s)"
  by (simp add: rested_def at_rest_def at_time_def)

lemma armed_tick_keeps_key: "d_state d = ARMED \<Longrightarrow> d_key (fst (tick ops hooks d)) = d_key d"
  by (simp add: tick_def read_clock_def tick_armed_def Let_def)

lemma rested_pulse:
  assumes "rested prev s" "case prev of None \<Rightarrow> True | Some t0 \<Rightarrow> t - t0 \<le> Fin 15"
  shows "rested prev (switch_tick (sim_ops ref_of) no_hooks (at_time (Some t) s))"
proof -
  let ?s = "\<lparr>sw_daemon = td_switch s, sw_ticking = True\<rparr>"
  have r: "at_rest (default_config (Fin 5)) prev (switch_turn (\<lambda>_ _. True) ref_of (Ticked t) ?s)"
    using at_rest_tick [where feed = "\<lambda>_ _. True" and ref_of = ref_of, OF _ five_second_ok(1), of prev ?s t] assms
    by (simp only: rested_def five_second_grace)
  have d: "td_switch (switch_tick (sim_ops ref_of) no_hooks (at_time (Some t) s)) =
      sw_daemon (switch_turn (\<lambda>_ _. True) ref_of (Ticked t) ?s)"
    using assms(1) by (simp add: switch_tick_def at_time_def rested_def split: prod.splits sum.splits)
  have "d_key (sw_daemon (switch_turn (\<lambda>_ _. True) ref_of (Ticked t) ?s)) = None"
    unfolding d [symmetric] using assms(1)
    by (simp add: switch_tick_def at_time_def rested_def at_rest_def armed_tick_keeps_key)
  then show ?thesis
    using r d assms(1) by (simp add: rested_def at_rest_def switch_tick_def at_time_def)
qed

lemma rested_beat:
  assumes "rested prev s"
  shows "rested (Some t) ((at_time (Some t) s)\<lparr>td_switch := fst (beat False (td_switch (at_time (Some t) s)))\<rparr>)"
proof -
  let ?s = "\<lparr>sw_daemon = td_switch s, sw_ticking = True\<rparr>"
  have "at_rest (default_config (Fin 5)) (Some t) (switch_turn (\<lambda>_ _. True) ref_of (Probed t None False) ?s)" for ref_of
    using assms by (intro at_rest_beat [where prev = prev, OF _ five_second_ok(2)]) (simp_all add: rested_def)
  then show ?thesis
    using assms
    by (simp add: rested_def at_time_def beat_def Let_def read_clock_def journal_note_def journal_append_def)
qed

text \<open>What a run leaves behind: a switch that has never left its first state.\<close>

definition untroubled :: "'o daemon \<Rightarrow> bool" where
  "untroubled d \<longleftrightarrow> d_state d = ARMED \<and> d_orders d = [] \<and> list_all (\<lambda>t. t_detail t = ArmedHeartbeat) (d_journal d)"

lemma rested_untroubled: "rested prev s \<Longrightarrow> untroubled (td_switch s)"
  by (simp add: rested_def at_rest_def untroubled_def)

lemma rested_key: "rested prev s \<Longrightarrow> d_key (td_switch s) = None"
  by (simp add: rested_def)

lemma rested_cong:
  "td_switch s' = td_switch s \<Longrightarrow> td_ticking s' = td_ticking s \<Longrightarrow> rested prev s' = rested prev s"
  by (simp add: rested_def)

lemma rested_line:
  assumes "rested prev s" "process_tick ven judge parse render uuid kvs (at_time (Some t) s) = (s', r)"
  shows "case r of Inl _ \<Rightarrow> untroubled (td_switch s') | Inr _ \<Rightarrow> rested (Some t) s'"
proof -
  note r = rested_time [OF assms(1), of t]
  note b = process_tick_beats [OF rested_key [OF r], of ven judge parse render uuid kvs, unfolded assms(2)]
  show ?thesis
  proof (cases r)
    case (Inl e)
    then show ?thesis using b rested_untroubled [OF r] by simp
  next
    case (Inr u)
    then have "rested (Some t) s' =
        rested (Some t) ((at_time (Some t) s)\<lparr>td_switch := fst (beat False (td_switch (at_time (Some t) s)))\<rparr>)"
      using b by (intro rested_cong) simp_all
    then show ?thesis using Inr rested_beat [OF assms(1)] by simp
  qed
qed

lemma feed_line_dict: "\<exists>kvs. as_dict (feed_line d) = Ok kvs"
  by (cases d) (simp add: feed_line_def as_dict_def)

lemma on_pace_untroubled:
  "rested prev s \<Longrightarrow> on_pace prev es \<Longrightarrow>
     untroubled (td_switch (fst (run_inputs (sim_ops ref_of) no_hooks ven judge parse render (map service_input es) s)))"
proof (induction es arbitrary: prev s)
  case Nil
  then show ?case by (simp add: rested_untroubled)
next
  case (Cons e es)
  show ?case
  proof (cases e)
    case (Line t uuid d)
    obtain kvs where k: "as_dict (feed_line d) = Ok kvs" using feed_line_dict by blast
    obtain s' r where p: "process_tick ven judge parse render uuid kvs (at_time (Some t) s) = (s', r)" by fastforce
    show ?thesis
      using rested_line [OF Cons.prems(1) p] rested_untroubled [OF rested_time [OF Cons.prems(1)], of t]
        Cons.IH [of "Some t" s'] Cons.prems(2)
      by (cases r) (simp_all add: Line k p Let_def)
  next
    case (Pulse t)
    then show ?thesis
      using Cons.IH [OF rested_pulse [OF Cons.prems(1), of t]] Cons.prems(2) by simp
  qed
qed

lemma service_starts_rested:
  assumes "trading_service parse_int parse reach clk env = Ok s"
  shows "rested None s"
  using assms
  by (auto simp: trading_service_def new_trading_def new_daemon_def start_trading_def rbind_Inr_iff rested_def
      at_rest_def init_daemon_def split: option.splits if_splits)

text \<open>
  C9: The feed keeps the switch quiet, as the comment of \<open>market_feed.py\<close> promises. The trading service starts its
  switch with a heartbeat of five seconds and reads the lines of the feed; as long as every pulse of the
  switch's thread comes within fifteen seconds (three heartbeats) after the last line, whatever the lines hold,
  whatever the constitution answers and however the run ends, the switch is ARMED at the end, has bought
  nothing, and its journal holds heartbeats only.
\<close>

theorem paced_feed_rests:
  assumes "run_trading_service ref_of ven judge parse_int parse render reach clk env es = Ok (s, r)"
    and "on_pace None es"
  shows "untroubled (td_switch s)"
proof -
  obtain s0 where s0: "trading_service parse_int parse reach clk env = Ok s0"
    and s: "run_source (sim_ops ref_of) no_hooks ven judge parse render (map service_input es) s0 = (s, r)"
    using assms(1) by (auto simp: run_trading_service_def rbind_Inr_iff)
  note u = on_pace_untroubled [OF service_starts_rested [OF s0] assms(2), of ref_of ven judge parse render]
  show ?thesis using s u by (auto simp: run_source_def split: prod.splits)
qed

lemma paced_feed_rests_witness:
  "case run_trading_service (\<lambda>_ _ _ _. ''r'') mock_venue (\<lambda>_ _. Raise ConnectionError) (\<lambda>_. Some 15565)
       (\<lambda>_. Some (Fin 100000)) (\<lambda>_. []) (Ok ()) (\<lambda>_. 0)
       \<lparr>env_asset = None, env_port = None, env_equity = None\<rparr>
       [Pulse 0, Line 0 ''u'' (lit (1 / 100), True, 0, 1), Pulse (Fin 12), Line (Fin 14) ''v'' (lit (1 / 100), False, 0, 15),
        Pulse (Fin 25)] of
     Inr (s, _) \<Rightarrow> untroubled (td_switch s)
   | _ \<Rightarrow> False"
proof -
  let ?e = "\<lparr>env_asset = None, env_port = None, env_equity = None\<rparr>"
  let ?es = "[Pulse 0, Line 0 ''u'' (lit (1 / 100), True, 0, 1), Pulse (Fin 12), Line (Fin 14) ''v'' (lit (1 / 100), False, 0, 15),
    Pulse (Fin 25)]"
  have "0 < Fin 5" by simp
  then obtain s0 :: "(order_intent list, sim_oracle) trading" where
      "trading_service (\<lambda>_. Some 15565) (\<lambda>_. Some (Fin 100000)) (Ok ()) (\<lambda>_. 0) ?e = Ok s0"
    by (simp add: trading_service_def new_trading_def default_config_ok new_daemon_def oracle_factory_def)
      (simp add: default_config_def)
  moreover obtain s r where "run_source (sim_ops (\<lambda>_ _ _ _. ''r'')) no_hooks mock_venue (\<lambda>_ _. Raise ConnectionError)
      (\<lambda>_. Some (Fin 100000)) (\<lambda>_. []) (map service_input ?es) s0 = (s, r)"
    by fastforce
  ultimately have s: "run_trading_service (\<lambda>_ _ _ _. ''r'') mock_venue (\<lambda>_ _. Raise ConnectionError) (\<lambda>_. Some 15565)
       (\<lambda>_. Some (Fin 100000)) (\<lambda>_. []) (Ok ()) (\<lambda>_. 0) ?e ?es = Ok (s, r)"
    by (simp add: run_trading_service_def)
  have "Fin 12 - 0 \<le> Fin 15" "Fin 25 - Fin 14 \<le> Fin 15" by code_simp+
  then have "on_pace None ?es" by simp
  from paced_feed_rests [OF s this] show ?thesis unfolding s by simp
qed

end
