(* ===== verification/EdgeThreads.thy ===== *)
theory EdgeThreads
  imports MeshService
begin

text \<open>
  The event loops of \<open>EdgeNodeDaemon\<close> (\<open>mesh/mesh/node_daemon.py\<close>): every start makes a loop with a
  thread of its own and lets it bring up the server of the transport; a stop lets the current loop close
  the server and then stop, and waits five seconds for its thread.
\<close>

section \<open>State and operations\<close>

text \<open>
  Loops are numbered in the order of their creation. \<open>er_loop\<close> is \<open>self._loop\<close>, \<open>er_alive\<close> are the loops that
  nobody has told to stop, \<open>er_shutdowns\<close> the loops on which the task of a stop is still closing the server.
\<close>

record edge_runtime =
  er_node :: edge_node
  er_endpoint :: endpoint
  er_loop :: "nat option"
  er_alive :: "nat list"
  er_started :: nat
  er_shutdowns :: "nat list"

definition new_runtime :: "edge_node \<Rightarrow> endpoint \<Rightarrow> edge_runtime" where
  "new_runtime n ep =
     \<lparr>er_node = n, er_endpoint = ep, er_loop = None, er_alive = [], er_started = 0, er_shutdowns = []\<rparr>"

text \<open>What listening comes to: a port, an exception, or a port after the ten seconds of \<open>result\<close>, whose
  \<open>TimeoutError\<close> is an \<open>OSError\<close>.\<close>

datatype binding = Binds nat | Refuses py_error | Late nat

fun bind_call :: "binding \<Rightarrow> listen_call" where
  "bind_call (Binds p) = (\<lambda>_ _. Ok p)"
| "bind_call (Refuses e) = (\<lambda>_ _. Raise e)"
| "bind_call (Late p) = (\<lambda>_ _. Ok p)"

definition served :: "binding \<Rightarrow> endpoint \<Rightarrow> unit result" where
  "served b ep =
     (if ep_serving ep then Ok ()
      else case b of Binds _ \<Rightarrow> Ok () | Refuses e \<Rightarrow> Raise e | Late _ \<Rightarrow> Raise OSError)"

definition start_node :: "binding \<Rightarrow> edge_runtime \<Rightarrow> edge_runtime \<times> unit result" where
  "start_node b r =
     (let i = er_started r;
          r1 = r\<lparr>er_loop := Some i, er_alive := i # er_alive r, er_started := Suc i,
                 er_endpoint := or_same (er_endpoint r) (serve (bind_call b) (er_endpoint r))\<rparr>
      in case start_heartbeat (served b (er_endpoint r)) (er_node r) of
           Inl e \<Rightarrow> (r1, Raise e)
         | Inr n \<Rightarrow> (r1\<lparr>er_node := n\<rparr>, Ok ()))"

text \<open>
  The end of \<open>_shutdown\<close> on the loop \<open>i\<close>, which must still run: the server is closed, and \<open>self._loop\<close>, read
  only now, is told to stop.
\<close>

definition finish_shutdown :: "nat \<Rightarrow> edge_runtime \<Rightarrow> edge_runtime" where
  "finish_shutdown i r =
     (if i \<in> set (er_shutdowns r) \<and> i \<in> set (er_alive r)
      then r\<lparr>er_shutdowns := remove1 i (er_shutdowns r), er_endpoint := close_endpoint (er_endpoint r),
             er_alive := (case er_loop r of None \<Rightarrow> er_alive r | Some j \<Rightarrow> removeAll j (er_alive r))\<rparr>
      else r)"

text \<open>\<open>prompt\<close>: the shutdown ends within the five seconds of \<open>join\<close>.\<close>

definition stop_node :: "bool \<Rightarrow> edge_runtime \<Rightarrow> edge_runtime" where
  "stop_node prompt r =
     (if \<not> en_running (er_node r) then r
      else let r1 = (case er_loop r of
             None \<Rightarrow> r
           | Some i \<Rightarrow>
               (let r0 = r\<lparr>er_shutdowns := i # er_shutdowns r\<rparr>
                in if prompt then finish_shutdown i r0 else r0))
        in r1\<lparr>er_node := stop_heartbeat (er_node r1)\<rparr>)"

datatype runtime_op = StartNode binding | StopNode bool | Finishes nat

fun runtime_step :: "runtime_op \<Rightarrow> edge_runtime \<Rightarrow> edge_runtime" where
  "runtime_step (StartNode b) r = fst (start_node b r)"
| "runtime_step (StopNode prompt) r = stop_node prompt r"
| "runtime_step (Finishes i) r = finish_shutdown i r"

definition runtime_run :: "runtime_op list \<Rightarrow> edge_runtime \<Rightarrow> edge_runtime" where
  "runtime_run ops r = fold runtime_step ops r"

section \<open>Lemmas\<close>

lemma runtime_run_simps [simp]:
  "runtime_run [] r = r"
  "runtime_run (op # ops) r = runtime_run ops (runtime_step op r)"
  "runtime_run (ops @ ops') r = runtime_run ops' (runtime_run ops r)"
  by (simp_all add: runtime_run_def)

lemma finish_node [simp]: "er_node (finish_shutdown i r) = er_node r"
  by (simp add: finish_shutdown_def)

lemma start_node_node:
  "er_node (fst (start_node b r)) = or_same (er_node r) (start_heartbeat (served b (er_endpoint r)) (er_node r))"
  by (simp add: start_node_def Let_def or_same_def split: sum.split)

lemma stop_node_node: "er_node (stop_node prompt r) = stop_heartbeat (er_node r)"
  by (simp add: stop_node_def stop_heartbeat_def Let_def split: option.split)

text \<open>The loops and threads refine the node: its operations are those of \<open>EdgeNode\<close>.\<close>

fun node_op :: "runtime_op \<Rightarrow> edge_runtime \<Rightarrow> edge_op option" where
  "node_op (StartNode b) r = Some (Start (served b (er_endpoint r) = Ok ()))"
| "node_op (StopNode prompt) r = Some Stop"
| "node_op (Finishes i) r = None"

fun node_ops :: "runtime_op list \<Rightarrow> edge_runtime \<Rightarrow> edge_op list" where
  "node_ops [] r = []"
| "node_ops (op # ops) r =
     (case node_op op r of None \<Rightarrow> [] | Some x \<Rightarrow> [x]) @ node_ops ops (runtime_step op r)"

lemma started_as:
  "or_same n (start_heartbeat s n) = or_same n (start_heartbeat (if s = Ok () then Ok () else Raise RuntimeError) n)"
  by (cases s) (simp_all add: start_heartbeat_def or_same_def)

lemma runtime_step_refines:
  "(er_node (runtime_step op r), w) =
     (case node_op op r of None \<Rightarrow> (er_node r, w) | Some x \<Rightarrow> edge_apply render tr x (er_node r, w))"
  using started_as [of "er_node r"] by (cases op) (simp_all add: start_node_node stop_node_node)

lemma runtime_refines:
  "(er_node (runtime_run ops r), w) = edge_run render tr (node_ops ops r) (er_node r, w)"
proof (induction ops arbitrary: r)
  case (Cons op ops)
  show ?case
    using Cons.IH [of "runtime_step op r"] runtime_step_refines [of op r w render tr]
    by (cases "node_op op r") (simp_all add: edge_run_def)
qed (simp add: edge_run_def)

section \<open>Clean lives and leaks\<close>

definition idle :: "edge_runtime \<Rightarrow> bool" where
  "idle r \<longleftrightarrow> er_alive r = [] \<and> er_shutdowns r = [] \<and> \<not> ep_serving (er_endpoint r) \<and> \<not> en_running (er_node r)"

lemma idle_new: "\<not> en_running n \<Longrightarrow> \<not> ep_serving ep \<Longrightarrow> idle (new_runtime n ep)"
  by (simp add: idle_def new_runtime_def)

lemma clean_cycle:
  "idle r \<Longrightarrow> idle (runtime_run [StartNode (Binds p), StopNode True] r)"
  by (simp add: idle_def start_node_def stop_node_def finish_shutdown_def served_def serve_def or_same_def
      start_heartbeat_def stop_heartbeat_def close_endpoint_def Let_def)

lemma clean_cycles:
  "idle r \<Longrightarrow> idle (runtime_run (concat (map (\<lambda>p. [StartNode (Binds p), StopNode True]) ps)) r)"
proof (induction ps arbitrary: r)
  case (Cons p ps)
  show ?case using Cons.IH [OF clean_cycle [OF Cons.prems, of p]] by simp
qed simp

text \<open>A start that is refused leaves its loop behind, and a stop does not look for it.\<close>

lemma refused_start:
  assumes "\<not> en_running (er_node r)" "\<not> ep_serving (er_endpoint r)"
  shows "er_alive (runtime_run [StartNode (Refuses e), StopNode b] r) = er_started r # er_alive r"
    and "er_started (runtime_run [StartNode (Refuses e), StopNode b] r) = Suc (er_started r)"
    and "er_node (runtime_run [StartNode (Refuses e), StopNode b] r) = er_node r"
    and "er_endpoint (runtime_run [StartNode (Refuses e), StopNode b] r) = er_endpoint r"
  using assms
  by (simp_all add: start_node_def stop_node_def served_def serve_def or_same_def start_heartbeat_def Let_def)

lemma refused_starts:
  "\<not> en_running (er_node r) \<Longrightarrow> \<not> ep_serving (er_endpoint r) \<Longrightarrow>
     (let r' = runtime_run (concat (map (\<lambda>e. [StartNode (Refuses e), StopNode True]) es)) r
      in length (er_alive r') = length es + length (er_alive r) \<and> er_node r' = er_node r \<and> er_endpoint r' = er_endpoint r)"
proof (induction es arbitrary: r)
  case (Cons e es)
  let ?r = "runtime_run [StartNode (Refuses e), StopNode True] r"
  note s = refused_start [OF Cons.prems, of e True]
  have "\<not> en_running (er_node ?r)" "\<not> ep_serving (er_endpoint ?r)" unfolding s using Cons.prems by simp_all
  from Cons.IH [OF this] show ?case unfolding s Let_def by (simp add: s(1) [simplified])
qed (simp add: Let_def)

lemma toy_node_starts: "\<exists>n. new_edge_node toy_lib ''s'' ''mesh-0'' None = Ok n"
proof -
  obtain e where "new_pqc toy_lib ''s'' None = Ok e"
    by (simp add: new_pqc_def requested_provider_def toy_lib_def)
  then show ?thesis by (simp add: new_edge_node_def)
qed

text \<open>
  A node that fails to start leaks a thread each time. Every round of starting and stopping whose server
  comes up and closes promptly leaves a node as idle as it was; but every start that is refused (a port in use)
  leaves its event loop and thread running, and no stop ends them: after \<open>k\<close> refused starts, each followed by
  a stop, the node is offline with \<open>k\<close> live loops.
\<close>

theorem refused_starts_leak:
  assumes "new_edge_node cl seed node_id provider = Ok n"
  shows "idle (runtime_run (concat (map (\<lambda>p. [StartNode (Binds p), StopNode True]) ps)) (new_runtime n (new_endpoint host port))) \<and>
    (let r = runtime_run (concat (map (\<lambda>e. [StartNode (Refuses e), StopNode True]) es)) (new_runtime n (new_endpoint host port))
     in \<not> eh_healthy (health_telemetry (er_node r)) \<and> length (er_alive r) = length es)"
proof -
  have n: "\<not> en_running n" using assms by (auto simp: new_edge_node_def rbind_Inr_iff)
  then show ?thesis
    using clean_cycles [OF idle_new [OF n], of "new_endpoint host port" ps]
      refused_starts [of "new_runtime n (new_endpoint host port)" es]
    by (simp add: Let_def new_endpoint_def new_runtime_def health_telemetry_def)
qed

lemma refused_starts_leak_witness:
  "case new_edge_node toy_lib ''s'' ''mesh-0'' None of
     Inl _ \<Rightarrow> False
   | Inr n \<Rightarrow> length (er_alive (runtime_run
       [StartNode (Refuses OSError), StopNode True, StartNode (Refuses OSError), StopNode True]
       (new_runtime n (new_endpoint ''127.0.0.1'' 8765)))) = 2"
proof -
  obtain n where n: "new_edge_node toy_lib ''s'' ''mesh-0'' None = Ok n" using toy_node_starts by blast
  from refused_starts_leak [OF n, of "[]" "''127.0.0.1''" 8765 "[OSError, OSError]"] show ?thesis
    unfolding n by (simp add: Let_def)
qed

text \<open>
  C23: A stop that does not finish in time undoes the next start. When closing the server outlasts the five
  seconds of the stop and the node is started again meanwhile, the start returns without listening, as the
  old server is still there; the shutdown then closes that server and stops the new loop instead of its own.
  The node reports HEALTHY with no server, and the loop of the first start runs on.
\<close>

theorem restart_race:
  assumes "new_edge_node cl seed node_id provider = Ok n"
  shows "let r = runtime_run [StartNode (Binds p), StopNode False, StartNode (Binds q), Finishes 0]
             (new_runtime n (new_endpoint host port))
     in eh_healthy (health_telemetry (er_node r)) \<and> \<not> ep_serving (er_endpoint r) \<and> er_loop r = Some 1 \<and> er_alive r = [0]"
proof -
  have "\<not> en_running n" using assms by (auto simp: new_edge_node_def rbind_Inr_iff)
  then show ?thesis
    by (simp add: Let_def start_node_def stop_node_def finish_shutdown_def served_def serve_def or_same_def
        start_heartbeat_def stop_heartbeat_def close_endpoint_def new_endpoint_def new_runtime_def health_telemetry_def)
qed

lemma restart_race_witness:
  "case new_edge_node toy_lib ''s'' ''mesh-0'' None of
     Inl _ \<Rightarrow> False
   | Inr n \<Rightarrow> (let r = runtime_run [StartNode (Binds 4001), StopNode False, StartNode (Binds 4002), Finishes 0]
         (new_runtime n (new_endpoint ''127.0.0.1'' 0))
       in eh_healthy (health_telemetry (er_node r)) \<and> \<not> ep_serving (er_endpoint r))"
proof -
  obtain n where n: "new_edge_node toy_lib ''s'' ''mesh-0'' None = Ok n" using toy_node_starts by blast
  from restart_race [OF n, of 4001 4002 "''127.0.0.1''" 0] show ?thesis unfolding n by (simp add: Let_def)
qed

end
