(* ===== verification/DrillScript.thy ===== *)
theory DrillScript
  imports LiveDrills
begin

text \<open>
  \<open>cortex/scripts/next_candle_drill.py\<close>: the big drill from the command line, whose report goes to a file.
\<close>

section \<open>The script\<close>

record drill_args =
  dg_symbol :: string
  dg_tf :: int
  dg_days :: int
  dg_warmup :: nat
  dg_rolling :: nat
  dg_retrain :: nat
  dg_out :: string

definition default_drill_args :: drill_args where
  "default_drill_args =
     \<lparr>dg_symbol = ''BTCUSDT'', dg_tf = 300, dg_days = 90, dg_warmup = 500, dg_rolling = 20000, dg_retrain = 250,
      dg_out = ''reports/next_candle_drill.json''\<rparr>"

definition drill_history_ms :: "drill_args \<Rightarrow> int" where
  "drill_history_ms a = dg_days a * 24 * 3600 * 1000"

text \<open>The dictionary of \<open>NextCandleML.report\<close>.\<close>

definition report_entries :: "ml_report \<Rightarrow> obj" where
  "report_entries r =
     [(''candles_seen'', JInt (int (mr_seen r))), (''calls_scored'', JInt (int (mr_scored r))),
      (''accuracy'', JFloat (mr_accuracy r)), (''green_accuracy'', JFloat (mr_green_accuracy r)),
      (''red_accuracy'', JFloat (mr_red_accuracy r)), (''green_calls'', JInt (int (mr_green r))),
      (''red_calls'', JInt (int (mr_red r)))]"

text \<open>\<open>history_ms / (24 * 3600 * 1000)\<close>: the quotient of two ints is rounded once.\<close>

definition history_days :: "int \<Rightarrow> pyfloat result" where
  "history_days ms =
     (case to_f64 (of_int ms / of_int (24 * 3600 * 1000)) of
        Fin x \<Rightarrow> Ok (py_round 1 (Fin x))
      | _ \<Rightarrow> Raise OverflowError)"

text \<open>The dictionary of \<open>run_scale_ml\<close>.\<close>

definition scale_entries :: "string \<Rightarrow> int \<Rightarrow> int \<Rightarrow> ('m learner \<times> nat \<times> pyfloat \<times> ml_report) option \<Rightarrow> obj result" where
  "scale_entries symbol timeframe history_ms res =
     (case res of
        None \<Rightarrow> Ok [(''error'', JStr ''not enough history'')]
      | Some (_, fetched, base, r) \<Rightarrow>
          rbind (history_days history_ms) (\<lambda>days.
            Ok ([(''symbol'', JStr symbol), (''timeframe_s'', JInt timeframe), (''candles_fetched'', JInt (int fetched)),
                 (''history_days'', JFloat days), (''base_rate_green'', JFloat base)] @ report_entries r)))"

text \<open>
  \<open>write_text\<close> opens the file, which empties it, and writes: it may succeed, be refused, or leave a part of
  the text. The directory is made before.
\<close>

datatype disk_write = Written | Refused py_error | Torn string py_error

type_synonym files = "string \<Rightarrow> string option"

definition write_report :: "unit result \<Rightarrow> disk_write \<Rightarrow> string \<Rightarrow> string \<Rightarrow> files \<Rightarrow> files \<times> nat result" where
  "write_report mkdir disk path body fs =
     (case mkdir of
        Inl e \<Rightarrow> (fs, Raise e)
      | Inr _ \<Rightarrow>
          (case disk of
             Written \<Rightarrow> (fs(path \<mapsto> body), Ok 0)
           | Refused e \<Rightarrow> (fs, Raise e)
           | Torn part e \<Rightarrow> (fs(path \<mapsto> part), Raise e)))"

text \<open>The outer option is the paging loop of the fetch.\<close>

definition drill_main ::
    "(json \<Rightarrow> string) \<Rightarrow> 'm library \<Rightarrow> (string \<Rightarrow> pyfloat option) \<Rightarrow> kline_venue \<Rightarrow> int \<Rightarrow> pyfloat \<Rightarrow> unit result \<Rightarrow>
      disk_write \<Rightarrow> drill_args \<Rightarrow> files \<Rightarrow> (files \<times> nat result) option" where
  "drill_main encode lib parse http now_ms elapsed mkdir disk a fs =
     map_option (\<lambda>res.
       case rbind res (scale_entries (dg_symbol a) (dg_tf a) (drill_history_ms a)) of
         Inl e \<Rightarrow> (fs, Raise e)
       | Inr kvs \<Rightarrow>
           write_report mkdir disk (dg_out a) (encode (JObj (kvs @ [(''duration_s'', JFloat (py_round 1 elapsed))]))) fs)
     (scale_ml lib parse http now_ms (dg_symbol a) (dg_tf a) (drill_history_ms a) (dg_warmup a) (dg_rolling a) (dg_retrain a))"

section \<open>Lemmas\<close>

lemma write_report_cases:
  assumes "write_report mkdir disk path body fs = (fs', r)"
  shows "case r of
      Inr code \<Rightarrow> code = 0 \<and> fs' = fs(path \<mapsto> body)
    | Inl e \<Rightarrow> fs' = fs \<or> (\<exists>part. disk = Torn part e \<and> fs' = fs(path \<mapsto> part))"
  using assms by (auto simp: write_report_def split: sum.splits disk_write.splits)

text \<open>What a dictionary reports: that there was too little history, or how much of it was scored.\<close>

definition honest_report :: "nat \<Rightarrow> obj \<Rightarrow> bool" where
  "honest_report warmup kvs \<longleftrightarrow>
     map_of kvs ''error'' = Some (JStr ''not enough history'') \<or>
     (\<exists>fetched seen scored. map_of kvs ''candles_fetched'' = Some (JInt (int fetched)) \<and>
        map_of kvs ''candles_seen'' = Some (JInt (int seen)) \<and> map_of kvs ''calls_scored'' = Some (JInt (int scored)) \<and>
        seen = fetched - 1 - warmup \<and> scored \<le> seen - (warmup + 201))"

lemma scale_entries_honest:
  assumes "honours_end http"
    and "scale_ml lib parse http now_ms symbol timeframe history_ms warmup window retrain = Some (Ok res)"
    and "scale_entries symbol timeframe history_ms res = Ok kvs"
  shows "honest_report warmup (kvs @ rest)"
proof (cases res)
  case None
  then show ?thesis using assms(3) by (auto simp: scale_entries_def honest_report_def)
next
  case (Some q)
  obtain l n base rep where q: "q = (l, n, base, rep)" by (cases q) auto
  have "mr_seen rep = n - 1 - warmup \<and> mr_scored rep \<le> mr_seen rep - (warmup + 201)"
    using scale_ml_in_time_order [OF assms(1), where lib = lib and parse = parse and now_ms = now_ms and symbol = symbol and
        timeframe = timeframe and history_ms = history_ms and warmup = warmup and window = window and retrain = retrain] assms(2)
    by (auto simp: Some q)
  moreover have "map_of (kvs @ rest) ''candles_fetched'' = Some (JInt (int n))"
    "map_of (kvs @ rest) ''candles_seen'' = Some (JInt (int (mr_seen rep)))"
    "map_of (kvs @ rest) ''calls_scored'' = Some (JInt (int (mr_scored rep)))"
    using assms(3) by (auto simp: scale_entries_def Some q rbind_Inr_iff report_entries_def)
  ultimately show ?thesis unfolding honest_report_def by blast
qed



text \<open>Too little history replaces an earlier report by the error, with exit code 0.\<close>

lemma short_history_overwrites:
  assumes "scale_ml lib parse http now_ms (dg_symbol a) (dg_tf a) (drill_history_ms a) (dg_warmup a) (dg_rolling a) (dg_retrain a)
      = Some (Ok None)"
  shows "drill_main encode lib parse http now_ms elapsed (Ok ()) Written a fs =
     Some (fs(dg_out a \<mapsto> encode (JObj [(''error'', JStr ''not enough history''), (''duration_s'', JFloat (py_round 1 elapsed))])), Ok 0)"
  using assms by (simp add: drill_main_def scale_entries_def write_report_def)

end
