(* ===== verification/FeedProcs.thy ===== *)
theory FeedProcs
  imports Orchestrator
begin

text \<open>
  The pair of processes behind the trading service of \<open>centaur_start.py\<close>: its runner launches the market
  feed first and the daemon after it, and whoever takes the daemon down is to take the feed with it
  (\<open>_kill_feed\<close>). The operations of \<open>Orchestrator\<close> again, with the feeds in the state.
\<close>

section \<open>Feeds\<close>

abbreviation trading_name :: string where "trading_name \<equiv> ''trading-daemon''"

text \<open>
  \<open>pl_feeds\<close> is the attribute \<open>_feed\<close> of the processes the orchestrator spawned, \<open>pl_launched\<close> every feed ever
  launched and \<open>pl_stopped\<close> those \<open>_kill_feed\<close> has ended.
\<close>

record plant =
  pl_orch :: orch
  pl_feeds :: "nat \<Rightarrow> nat option"
  pl_launched :: "nat list"
  pl_stopped :: "nat list"

definition new_plant :: plant where
  "new_plant = \<lparr>pl_orch = new_orch, pl_feeds = Map.empty, pl_launched = [], pl_stopped = []\<rparr>"

record plant_world = world +
  w_feed :: "nat option"

definition run_service :: "plant_world \<Rightarrow> string \<Rightarrow> plant \<Rightarrow> plant \<times> nat option" where
  "run_service w n pl =
     (if n = trading_name
      then case w_feed w of
          None \<Rightarrow> (pl, None)
        | Some j \<Rightarrow>
            (let pl1 = pl\<lparr>pl_launched := j # pl_launched pl\<rparr>
             in case w_spawn w n of
                  None \<Rightarrow> (pl1, None)
                | Some i \<Rightarrow> (pl1\<lparr>pl_feeds := (pl_feeds pl1)(i \<mapsto> j)\<rparr>, Some i))
      else case w_spawn w n of
          None \<Rightarrow> (pl, None)
        | Some i \<Rightarrow> (pl\<lparr>pl_feeds := (pl_feeds pl)(i := None)\<rparr>, Some i))"

text \<open>Terminating, or else killing, ends a feed that still runs.\<close>

definition kill_feed :: "(nat \<Rightarrow> bool) \<Rightarrow> proc \<Rightarrow> plant \<Rightarrow> plant" where
  "kill_feed alive p pl =
     (case p of
        Adopted _ \<Rightarrow> pl
      | Spawned i \<Rightarrow>
          (case pl_feeds pl i of
             None \<Rightarrow> pl
           | Some j \<Rightarrow> if alive j then pl\<lparr>pl_stopped := j # pl_stopped pl\<rparr> else pl))"

definition on_orch :: "(orch \<Rightarrow> orch) \<Rightarrow> plant \<Rightarrow> plant" where
  "on_orch f pl = pl\<lparr>pl_orch := f (pl_orch pl)\<rparr>"

definition started_as_proc :: "string \<Rightarrow> proc \<Rightarrow> orch \<Rightarrow> orch" where
  "started_as_proc n p o' = set_count n 0 (set_proc n p o')"

section \<open>The operations\<close>

definition start_paired :: "plant_world \<Rightarrow> service \<Rightarrow> plant \<Rightarrow> bool \<times> plant" where
  "start_paired w svc pl =
     (let n = sv_name svc in
      if n = kernel_name \<and> w_healthy w
      then (True, on_orch (logged (LAdopted n) \<circ> started_as_proc n (Adopted (w_owner w))) pl)
      else case run_service w n pl of
          (pl1, None) \<Rightarrow> (False, on_orch (logged (LFailed n)) pl1)
        | (pl1, Some i) \<Rightarrow> (True, on_orch (logged (LStarted n) \<circ> started_as_proc n (Spawned i)) pl1))"

definition check_paired :: "plant_world \<Rightarrow> service \<Rightarrow> proc \<Rightarrow> plant \<Rightarrow> plant \<times> unit result" where
  "check_paired w svc p pl =
     (let n = sv_name svc in
      if \<not> down (world.truncate w) p then (pl, Ok ())
      else let k = count_of n (pl_orch pl) + 1; pl1 = on_orch (set_count n k) pl in
        if 10 < k then (on_orch (logged (LDead n)) pl1, Ok ())
        else let pl2 = kill_feed (w_alive w) p (on_orch (logged (LCrashed n)) pl1) in
          if sv_restart svc \<and> can_start (world.truncate w) (pl_orch pl2) (sv_deps svc)
          then case run_service w n pl2 of
              (pl3, None) \<Rightarrow> (pl3, Raise RuntimeError)
            | (pl3, Some i) \<Rightarrow> (on_orch (logged (LRestarted n) \<circ> set_proc n (Spawned i)) pl3, Ok ())
          else (pl2, Ok ()))"

fun check_all_paired :: "plant_world \<Rightarrow> service list \<Rightarrow> plant \<Rightarrow> plant \<times> unit result" where
  "check_all_paired w [] pl = (pl, Ok ())"
| "check_all_paired w (svc # ss) pl =
     (case map_of (oc_procs (pl_orch pl)) (sv_name svc) of
        None \<Rightarrow> check_all_paired w ss pl
      | Some p \<Rightarrow>
          (case check_paired w svc p pl of
             (pl1, Inl e) \<Rightarrow> (pl1, Raise e)
           | (pl1, Inr _) \<Rightarrow> check_all_paired w ss pl1))"

definition retry_paired_one :: "plant_world \<Rightarrow> service \<Rightarrow> plant \<Rightarrow> plant" where
  "retry_paired_one w svc pl =
     (let n = sv_name svc in
      if missing (world.truncate w) n (pl_orch pl) \<and> can_start (world.truncate w) (pl_orch pl) (sv_deps svc)
      then on_orch (set_count n 0) (snd (start_paired w svc (on_orch (logged (LRetry n)) pl)))
      else pl)"

definition retry_paired :: "plant_world \<Rightarrow> plant \<Rightarrow> plant" where
  "retry_paired w pl = fold (retry_paired_one w) (tl SERVICES) pl"

text \<open>The self-healing pass starts no service but the kernel, which has no feed.\<close>

record paired_input =
  pi_check :: plant_world
  pi_errors :: "scan_error list"
  pi_retry :: plant_world

definition paired_cycle :: "nat \<Rightarrow> paired_input \<Rightarrow> plant \<Rightarrow> plant \<times> unit result" where
  "paired_cycle k ci pl =
     (case check_all_paired (pi_check ci) SERVICES pl of
        (pl1, Inl e) \<Rightarrow> (pl1, Raise e)
      | (pl1, Inr _) \<Rightarrow>
          (let pl2 = (if k mod 6 = 0 then on_orch (scan_and_heal (pi_errors ci)) pl1 else pl1)
           in (if k mod 12 = 0 then retry_paired (pi_retry ci) pl2 else pl2, Ok ())))"

fun paired_monitor :: "nat \<Rightarrow> paired_input list \<Rightarrow> plant \<Rightarrow> plant \<times> unit result" where
  "paired_monitor k [] pl = (pl, Ok ())"
| "paired_monitor k (ci # cs) pl =
     (case paired_cycle (Suc k) ci pl of
        (pl1, Inl e) \<Rightarrow> (pl1, Raise e)
      | (pl1, Inr _) \<Rightarrow> paired_monitor (Suc k) cs pl1)"

definition boot_paired_one :: "plant_world \<Rightarrow> service \<Rightarrow> plant \<Rightarrow> plant" where
  "boot_paired_one w svc pl =
     (if can_start (world.truncate w) (pl_orch pl) (sv_deps svc) then snd (start_paired w svc pl)
      else on_orch (logged (LSkip (sv_name svc))) pl)"

definition run_paired :: "plant_world \<Rightarrow> plant_world \<Rightarrow> paired_input list \<Rightarrow> plant \<times> nat result" where
  "run_paired w0 w1 cs =
     (case start_paired w0 (hd SERVICES) new_plant of
        (False, pl) \<Rightarrow> (pl, Ok 1)
      | (True, pl) \<Rightarrow>
          if \<not> w_healthy w1 then (pl, Ok 1)
          else (case paired_monitor 0 cs (fold (boot_paired_one w1) (tl SERVICES) pl) of
              (pl2, Inl e) \<Rightarrow> (pl2, Raise e)
            | (pl2, Inr _) \<Rightarrow> (pl2, Ok 0)))"

text \<open>The feeds \<open>_stop_all\<close> ends.\<close>

definition stop_feeds :: "(nat \<Rightarrow> bool) \<Rightarrow> plant \<Rightarrow> plant" where
  "stop_feeds alive pl = fold (\<lambda>(_, p). kill_feed alive p) (oc_procs (pl_orch pl)) pl"

section \<open>Refinement\<close>

text \<open>A world in which the trading service launches when both of its processes do.\<close>

definition pair_world :: "plant_world \<Rightarrow> world" where
  "pair_world w =
     (world.truncate w)\<lparr>w_spawn := (\<lambda>n. if n = trading_name \<and> w_feed w = None then None else w_spawn w n)\<rparr>"

lemma pair_world_simps [simp]:
  "down (pair_world w) = down (world.truncate w)" "w_healthy (pair_world w) = w_healthy w"
  "w_owner (pair_world w) = w_owner w"
  by (simp_all add: pair_world_def down_def world.defs fun_eq_iff split: proc.split)

lemma can_start_pair [simp]: "can_start (pair_world w) = can_start (world.truncate w)"
proof (intro ext)
  fix o' ds
  show "can_start (pair_world w) o' ds = can_start (world.truncate w) o' ds"
    by (induction ds) (simp_all add: world.defs split: option.split)
qed

lemma missing_pair [simp]: "missing (pair_world w) = missing (world.truncate w)"
  by (simp add: missing_def fun_eq_iff split: option.split)

lemma plant_simps [simp]:
  "pl_orch (on_orch f pl) = f (pl_orch pl)" "pl_feeds (on_orch f pl) = pl_feeds pl"
  "pl_launched (on_orch f pl) = pl_launched pl" "pl_stopped (on_orch f pl) = pl_stopped pl"
  by (simp_all add: on_orch_def)

lemma kill_feed_orch [simp]: "pl_orch (kill_feed alive p pl) = pl_orch pl"
  by (simp add: kill_feed_def split: proc.split option.split)

lemma run_service_refines:
  assumes "run_service w n pl = (pl', r)"
  shows "pl_orch pl' = pl_orch pl" "w_spawn (pair_world w) n = r"
  using assms by (auto simp: run_service_def pair_world_def world.defs Let_def split: if_splits option.splits)

lemma start_refines:
  assumes "start_paired w svc pl = (ok, pl')"
  shows "start_service (pair_world w) svc (pl_orch pl) = (ok, pl_orch pl')"
proof -
  obtain pl1 r where r: "run_service w (sv_name svc) pl = (pl1, r)" by fastforce
  show ?thesis
    using run_service_refines [OF r] assms
    by (cases r) (auto simp: start_paired_def start_service_def started_as_proc_def Let_def r split: if_splits)
qed

lemma start_refines_snd: "pl_orch (snd (start_paired w svc pl)) = snd (start_service (pair_world w) svc (pl_orch pl))"
  using start_refines [of w svc pl] by (metis prod.collapse snd_conv)

lemma check_refines:
  assumes "check_paired w svc p pl = (pl', r)"
  shows "check_restart (pair_world w) svc p (pl_orch pl) = (pl_orch pl', r)"
proof -
  define pl2 where "pl2 = kill_feed (w_alive w) p (on_orch (logged (LCrashed (sv_name svc)))
      (on_orch (set_count (sv_name svc) (Suc (count_of (sv_name svc) (pl_orch pl)))) pl))"
  obtain pl3 q where q: "run_service w (sv_name svc) pl2 = (pl3, q)" by fastforce
  have o2: "pl_orch pl2 = logged (LCrashed (sv_name svc)) (set_count (sv_name svc) (Suc (count_of (sv_name svc) (pl_orch pl))) (pl_orch pl))"
    by (simp add: pl2_def)
  show ?thesis
    using run_service_refines [OF q] o2 assms
    by (cases q) (auto simp: check_paired_def check_restart_def Let_def pl2_def [symmetric] q split: if_splits)
qed

lemma check_all_refines:
  "check_all_paired w ss pl = (pl', r) \<Longrightarrow> check_all (pair_world w) ss (pl_orch pl) = (pl_orch pl', r)"
proof (induction w ss pl rule: check_all_paired.induct)
  case (2 w svc ss pl)
  show ?case
  proof (cases "map_of (oc_procs (pl_orch pl)) (sv_name svc)")
    case None
    then show ?thesis using 2 by simp
  next
    case (Some p)
    obtain pl1 q where c: "check_paired w svc p pl = (pl1, q)" by fastforce
    then show ?thesis using 2(2) [OF Some c [symmetric]] 2(3) check_refines [OF c] by (cases q) (auto simp: Some)
  qed
qed simp

lemma retry_one_refines: "pl_orch (retry_paired_one w svc pl) = retry_one (pair_world w) svc (pl_orch pl)"
  by (simp add: retry_paired_one_def retry_one_def Let_def start_refines_snd)

lemma fold_refines: "(\<And>x pl. pl_orch (f x pl) = g x (pl_orch pl)) \<Longrightarrow> pl_orch (fold f xs pl) = fold g xs (pl_orch pl)"
  by (induction xs arbitrary: pl) simp_all

lemma retry_refines: "pl_orch (retry_paired w pl) = retry_skipped (pair_world w) (pl_orch pl)"
  unfolding retry_paired_def retry_skipped_def by (rule fold_refines) (rule retry_one_refines)

definition pair_input :: "paired_input \<Rightarrow> cycle_input" where
  "pair_input ci = \<lparr>ci_check = pair_world (pi_check ci), ci_errors = pi_errors ci, ci_retry = pair_world (pi_retry ci)\<rparr>"

lemma cycle_refines:
  assumes "paired_cycle k ci pl = (pl', r)"
  shows "monitor_cycle k (pair_input ci) (pl_orch pl) = (pl_orch pl', r)"
proof -
  obtain pl1 q where c: "check_all_paired (pi_check ci) SERVICES pl = (pl1, q)" by fastforce
  show ?thesis
    using check_all_refines [OF c] assms
    by (cases q) (auto simp: paired_cycle_def monitor_cycle_def pair_input_def c retry_refines Let_def split: if_splits)
qed

lemma monitor_refines:
  "paired_monitor k cs pl = (pl', r) \<Longrightarrow> monitor k (map pair_input cs) (pl_orch pl) = (pl_orch pl', r)"
proof (induction k cs pl rule: paired_monitor.induct)
  case (2 k ci cs pl)
  obtain pl1 q where c: "paired_cycle (Suc k) ci pl = (pl1, q)" by fastforce
  then show ?case using 2(1) [OF c [symmetric]] 2(2) cycle_refines [OF c] by (cases q) auto
qed simp

lemma boot_refines: "pl_orch (boot_paired_one w svc pl) = boot_one (pair_world w) svc (pl_orch pl)"
  by (simp add: boot_paired_one_def boot_one_def start_refines_snd)

text \<open>
  The orchestrator with its market feeds refines the orchestrator without them. Launching the pair behind the
  trading service, ending a crashed daemon's feed and starting both again change nothing of what is started,
  restarted, counted and logged: a run with feeds is, in everything but the feeds, a run of the plain
  orchestrator in a world where the trading service launches when both of its processes do.
\<close>

theorem feeds_refine_orchestrator:
  "map_prod pl_orch id (run_paired w0 w1 cs) = run_orch (pair_world w0) (pair_world w1) (map pair_input cs)"
proof -
  obtain ok pl where s: "start_paired w0 (hd SERVICES) new_plant = (ok, pl)" by fastforce
  obtain pl2 r where m: "paired_monitor 0 cs (fold (boot_paired_one w1) (tl SERVICES) pl) = (pl2, r)" by fastforce
  have "pl_orch (fold (boot_paired_one w1) (tl SERVICES) pl) = fold (boot_one (pair_world w1)) (tl SERVICES) (pl_orch pl)"
    by (rule fold_refines) (rule boot_refines)
  moreover have "pl_orch new_plant = new_orch" by (simp add: new_plant_def)
  ultimately show ?thesis
    using monitor_refines [OF m] start_refines [OF s]
    by (cases r) (simp_all add: run_paired_def run_orch_def s m split: bool.split)
qed

section \<open>Whether a feed outlives its daemon\<close>

text \<open>A crash within the budget takes the feed down, whether or not the service comes back.\<close>

lemma crash_takes_feed:
  assumes "\<not> w_alive w i" "pl_feeds pl i = Some j" "w_alive w j" "count_of (sv_name svc) (pl_orch pl) < 10"
  shows "j \<in> set (pl_stopped (fst (check_paired w svc (Spawned i) pl)))"
  using assms
  by (auto simp: check_paired_def run_service_def kill_feed_def down_def world.defs Let_def split: option.splits)

text \<open>A feed is ended only for a daemon that is down.\<close>

lemma feed_ended_with_daemon:
  assumes "j \<in> set (pl_stopped (fst (check_paired w svc p pl)))" "j \<notin> set (pl_stopped pl)"
  shows "\<exists>i. p = Spawned i \<and> pl_feeds pl i = Some j \<and> \<not> w_alive w i"
  using assms
  by (auto simp: check_paired_def run_service_def kill_feed_def down_def world.defs Let_def split: option.splits if_splits proc.splits)

definition trading_svc :: service where
  "trading_svc = \<lparr>sv_name = trading_name, sv_restart = True, sv_deps = [kernel_name, ''doomsday'']\<rparr>"

lemma trading_svc_simps [simp]:
  "sv_name trading_svc = trading_name" "sv_restart trading_svc" "sv_deps trading_svc = [kernel_name, ''doomsday'']"
  by (simp_all add: trading_svc_def)

lemma trading_svc_listed: "trading_svc \<in> set (tl SERVICES)"
  by (simp add: trading_svc_def SERVICES_def)

text \<open>Only a process whose feed it is gets a feed ended.\<close>

definition feed_of :: "plant \<Rightarrow> proc \<Rightarrow> nat option" where
  "feed_of pl p = (case p of Spawned i \<Rightarrow> pl_feeds pl i | Adopted _ \<Rightarrow> None)"

lemma stop_keeps_unowned:
  "list_all (\<lambda>(_, p). feed_of pl p \<noteq> Some j) ps \<Longrightarrow> j \<notin> set (pl_stopped pl) \<Longrightarrow>
     j \<notin> set (pl_stopped (fold (\<lambda>(_, p). kill_feed alive p) ps pl))"
proof (induction ps arbitrary: pl)
  case (Cons q ps)
  obtain n p where q: "q = (n, p)" by fastforce
  have "feed_of (kill_feed alive p pl) = feed_of pl"
    by (simp add: kill_feed_def feed_of_def fun_eq_iff split: proc.split option.split)
  moreover have "j \<notin> set (pl_stopped (kill_feed alive p pl))"
    using Cons.prems by (auto simp: q kill_feed_def feed_of_def split: proc.split option.split)
  ultimately show ?case using Cons by (simp add: q)
qed simp

lemma update_owns:
  "list_all (\<lambda>(n, p). n = k \<or> P p) ps \<Longrightarrow> distinct (map fst ps) \<Longrightarrow> P q \<Longrightarrow> list_all (\<lambda>(n, p). P p) (AList.update k q ps)"
proof (induction ps)
  case (Cons x ps)
  obtain n p where x: "x = (n, p)" by fastforce
  show ?case
  proof (cases "n = k")
    case True
    then have "list_all (\<lambda>(n, p). P p) ps" using Cons.prems by (force simp: x list_all_iff image_iff)
    with True Cons.prems(3) show ?thesis by (simp add: x)
  next
    case False
    with Cons show ?thesis by (simp add: x)
  qed
qed simp

text \<open>
  The feed of a daemon that exhausted its restarts is forgotten. When a dead trading daemon has used up its ten
  restarts, the check leaves its feed running, and a retry pass launches the next pair over it: the process table
  then holds the new daemon with the new feed, and the shutdown, which ends the feeds of the processes in the
  table, never ends the old one.
\<close>

theorem exhausted_feed_forgotten:
  assumes "map_of (oc_procs (pl_orch pl)) trading_name = Some (Spawned i)" "pl_feeds pl i = Some j"
    and "\<not> w_alive w i" "10 \<le> count_of trading_name (pl_orch pl)" "j \<notin> set (pl_stopped pl)"
    and "distinct (map fst (oc_procs (pl_orch pl)))"
    and "list_all (\<lambda>(n, p). n = trading_name \<or> feed_of pl p \<noteq> Some j) (oc_procs (pl_orch pl))"
    and "w_healthy w" "w_feed w = Some j'" "w_spawn w trading_name = Some i'" "j' \<noteq> j"
  shows "let pl' = retry_paired_one w trading_svc (fst (check_paired w trading_svc (Spawned i) pl))
    in map_of (oc_procs (pl_orch pl')) trading_name = Some (Spawned i') \<and> pl_feeds pl' i' = Some j' \<and>
       j \<notin> set (pl_stopped (stop_feeds alive pl'))"
proof -
  let ?pl1 = "fst (check_paired w trading_svc (Spawned i) pl)"
  let ?pl' = "retry_paired_one w trading_svc ?pl1"
  have c: "pl_feeds ?pl1 = pl_feeds pl" "pl_stopped ?pl1 = pl_stopped pl" "oc_procs (pl_orch ?pl1) = oc_procs (pl_orch pl)"
    using assms(3,4) by (simp_all add: check_paired_def down_def world.defs Let_def)
  have "missing (world.truncate w) trading_name (pl_orch ?pl1)"
    using assms(1,3) by (simp add: missing_def c down_def world.defs)
  then have r: "pl_feeds ?pl' = (pl_feeds pl)(i' \<mapsto> j')" "pl_stopped ?pl' = pl_stopped pl"
    "oc_procs (pl_orch ?pl') = AList.update trading_name (Spawned i') (oc_procs (pl_orch pl))"
    using assms(8-10)
    by (simp_all add: retry_paired_one_def start_paired_def run_service_def started_as_proc_def
        world.defs Let_def c)
  have "feed_of ?pl' p \<noteq> Some j" if "feed_of pl p \<noteq> Some j" for p
    using that assms(11) by (auto simp: feed_of_def r split: proc.splits)
  then have "list_all (\<lambda>(n, p). n = trading_name \<or> feed_of ?pl' p \<noteq> Some j) (oc_procs (pl_orch pl))"
    using assms(7) by (auto simp: list_all_iff)
  from update_owns [OF this assms(6), of "Spawned i'"] assms(11)
  have "list_all (\<lambda>(n, p). feed_of ?pl' p \<noteq> Some j) (oc_procs (pl_orch ?pl'))"
    unfolding r(3) by (simp add: feed_of_def r(1))
  from stop_keeps_unowned [OF this] assms(5) show ?thesis
    by (simp add: Let_def r update_conv' stop_feeds_def)
qed

end
