(* ===== verification/WatcherCli.thy ===== *)
theory WatcherCli
  imports WatcherRun SyntheticWalk
begin

text \<open>
  The command line of the event watcher (\<open>_cli\<close> of \<open>cortex/cortex/event_watcher.py\<close>): a watcher over its
  defaults, reading the demonstration feed or standard input.
\<close>

section \<open>The command line\<close>

record watcher_args =
  wa_asset :: string
  wa_tf :: pyfloat
  wa_heartbeat :: pyfloat
  wa_demo :: bool

definition default_watcher_args :: watcher_args where
  "default_watcher_args = \<lparr>wa_asset = ''SYNTH'', wa_tf = Fin 300, wa_heartbeat = Fin 10, wa_demo = False\<rparr>"

text \<open>A line of the demonstration: encoding and decoding a tick gives back its two numbers.\<close>

definition demo_text :: "pyfloat \<times> pyfloat \<Rightarrow> json option option" where
  "demo_text k = Some (Some (JObj [(''price'', JFloat (fst k)), (''timestamp'', JFloat (snd k))]))"

text \<open>The clocks that are read while the \<open>i\<close>-th line is handled; the text and the levels of \<open>clocks i\<close> are not used.\<close>

definition lines_read :: "(nat \<Rightarrow> line_in) \<Rightarrow> json option option list \<Rightarrow> line_in list" where
  "lines_read clocks ts =
     map (\<lambda>(i, t). (clocks i)\<lparr>ln_text := t, ln_levels := []\<rparr>) (enumerate 0 ts)"

definition cli_watcher :: "catalog_entry list \<Rightarrow> watcher_args \<Rightarrow> watcher result" where
  "cli_watcher catalog a =
     (if \<not> params_ok (default_params\<lparr>p_timeframe := wa_tf a\<rparr>) then Raise ValidationError
      else Ok (new_watcher (wa_asset a) (wa_tf a) None 400 (default_engine (wa_asset a) catalog) 0))"

definition watcher_cli ::
    "(string \<Rightarrow> pyfloat option) \<Rightarrow> catalog_entry list \<Rightarrow> (nat \<Rightarrow> line_in) \<Rightarrow> pyfloat \<Rightarrow>
      (pyfloat \<times> pyfloat) list \<Rightarrow> json option option list \<Rightarrow> watcher_args \<Rightarrow> (watcher \<times> json list \<times> unit result) result" where
  "watcher_cli parse catalog clocks pulse demo stdin a =
     rbind (cli_watcher catalog a) (\<lambda>w.
       Ok (run_watcher parse (wa_heartbeat a) (lines_read clocks (if wa_demo a then map demo_text demo else stdin)) pulse w))"

section \<open>No tick raises\<close>

lemma is_double_quotient: "is_double (x / y)"
  using is_double_01 by (cases x; cases y) (auto simp: signed_inf_def simp del: is_double.simps(1))

lemma atr_double: "is_double (atr_of cs n)"
  by (simp add: atr_of_def Let_def is_double_quotient del: divide_pyfloat.simps)

lemma context_atr: "x_atr (build_context cs p asset) = 0 \<or> x_atr (build_context cs p asset) = atr_of cs (p_atr_period p)"
  by (auto simp: build_context_def new_context_def expansion_context_def classify_def swing_context_def
      broken_coil_context_def trend_context_def range_context_def Let_def split: option.splits)

lemma context_atr_double: "is_double (x_atr (build_context cs p asset))"
  using context_atr [of cs p asset] atr_double by (metis is_double_01(3))

text \<open>The engine with the default detectors.\<close>

definition stock_engine :: "watcher \<Rightarrow> bool" where
  "stock_engine w \<longleftrightarrow> (\<exists>asset catalog. wt_engine w = default_engine asset catalog)"

lemma analyze_candles_ok:
  assumes "stock_engine w"
  shows "is_ok (snd (analyze_candles ph lat pv levels cs c w))"
proof -
  obtain asset catalog where e: "wt_engine w = default_engine asset catalog" using assms by (auto simp: stock_engine_def)
  obtain rep where "analyze (wt_engine w) cs (x_atr (build_context cs (wt_params w) (wt_asset w))) levels = Ok rep"
    using default_engine_total [OF context_atr_double, of asset catalog cs cs "wt_params w" "wt_asset w" levels]
    unfolding e by (auto simp: is_ok_iff)
  then show ?thesis
    by (simp add: analyze_candles_def Let_def split: prod.split)
qed

text \<open>A tick at a time whose quotient by the timeframe is finite.\<close>

lemma bucket_succeeds: "0 < tf \<Longrightarrow> isfinite (ts / tf) \<Longrightarrow> is_ok (bucket_of tf ts)"
  by (cases "ts / tf") (auto simp: bucket_of_def py_div_def)

lemma feed_succeeds: "0 < agg_timeframe a \<Longrightarrow> isfinite (ts / agg_timeframe a) \<Longrightarrow> is_ok (feed a price ts)"
  using bucket_succeeds [of "agg_timeframe a" ts] by (auto simp: feed_def is_ok_iff)

lemma forming_succeeds: "0 < agg_timeframe a \<Longrightarrow> isfinite (ts / agg_timeframe a) \<Longrightarrow> is_ok (forming a ts)"
  using bucket_succeeds [of "agg_timeframe a" ts] by (auto simp: forming_def is_ok_iff split: option.split)

text \<open>What every step keeps: the stock engine and the timeframe.\<close>

definition sturdy :: "pyfloat \<Rightarrow> watcher \<Rightarrow> bool" where
  "sturdy tf w \<longleftrightarrow> stock_engine w \<and> agg_timeframe (wt_agg w) = tf"

lemma sturdy_stock: "sturdy tf w \<Longrightarrow> stock_engine w"
  by (simp add: sturdy_def)

lemma sturdy_updates [simp]:
  "sturdy tf (w\<lparr>wt_sig := sg\<rparr>) = sturdy tf w" "sturdy tf (w\<lparr>wt_rt_at := now\<rparr>) = sturdy tf w"
  by (simp_all add: sturdy_def stock_engine_def)

lemma analyze_candles_sturdy: "sturdy tf w \<Longrightarrow> sturdy tf (fst (analyze_candles ph lat pv levels cs c w))"
  by (simp add: analyze_candles_def sturdy_def stock_engine_def Let_def split: sum.split prod.split)

lemma feed_timeframe: "feed a price ts = Ok (c, a') \<Longrightarrow> agg_timeframe a' = agg_timeframe a"
  by (auto simp: feed_def feed_bucket_def start_bucket_def touch_def rbind_Inr_iff Let_def split: if_splits option.splits)

lemma analyze_rt_sturdy:
  assumes "sturdy tf w" "0 < tf" "isfinite (ts / tf)"
  shows "is_ok (snd (analyze_rt ts levels w)) \<and> sturdy tf (fst (analyze_rt ts levels w))"
proof -
  have f: "is_ok (forming (wt_agg w) ts)" using assms forming_succeeds [of "wt_agg w" ts] by (simp add: sturdy_def)
  have a: "is_ok (snd (analyze_candles ph lat pv levels cs c w))" "sturdy tf (fst (analyze_candles ph lat pv levels cs c w))"
    for ph lat pv cs c
    using assms(1) analyze_candles_ok analyze_candles_sturdy by (simp_all add: sturdy_def)
  have "is_ok (snd (case analyze_candles RealTime 0 (Some (c_close c)) levels (wt_candles w @ [c]) c w of
      (w', Inl e) \<Rightarrow> (w', Raise e) | (w', Inr r) \<Rightarrow> (w', Ok (Some r)))) \<and>
    sturdy tf (fst (case analyze_candles RealTime 0 (Some (c_close c)) levels (wt_candles w @ [c]) c w of
      (w', Inl e) \<Rightarrow> (w', Raise e) | (w', Inr r) \<Rightarrow> (w', Ok (Some r))))" for c
    using a [of RealTime 0 "Some (c_close c)" "wt_candles w @ [c]" c] by (auto split: prod.splits sum.splits)
  moreover obtain c where "forming (wt_agg w) ts = Ok c" using f by (auto simp: is_ok_iff)
  ultimately show ?thesis using assms(1) by (simp add: analyze_rt_def split: option.split)
qed

lemma watch_price_sturdy:
  assumes "sturdy tf w" "0 < tf" "isfinite (ts / tf)"
  shows "is_ok (snd (watch_price now wall levels price ts w)) \<and> sturdy tf (fst (watch_price now wall levels price ts w))"
proof (cases "finite_positive price")
  case True
  have "is_ok (feed (wt_agg w) price ts)" using assms feed_succeeds [of "wt_agg w" ts price] by (simp add: sturdy_def)
  then obtain cl a where f: "feed (wt_agg w) price ts = Ok (cl, a)" by (auto simp: is_ok_iff)
  have s: "sturdy tf (w\<lparr>wt_agg := a\<rparr>)" using assms(1) feed_timeframe [OF f] by (simp add: sturdy_def stock_engine_def)
  show ?thesis
  proof (cases cl)
    case None
    have "sturdy tf (w\<lparr>wt_agg := a, wt_rt_at := now\<rparr>)" using s by simp
    from analyze_rt_sturdy [OF this assms(2,3), of levels] s show ?thesis
      by (auto simp: watch_price_def True f None rt_report_def split: prod.splits sum.splits option.splits)
  next
    case (Some c)
    let ?w = "push_closed c (w\<lparr>wt_agg := a\<rparr>)"
    have "sturdy tf ?w" using s by (simp add: sturdy_def stock_engine_def push_closed_def)
    then show ?thesis
      using analyze_candles_ok [of ?w AtClose "latency_ms wall (last (wt_candles ?w))" None levels "wt_candles ?w" "last (wt_candles ?w)"]
        analyze_candles_sturdy [of tf ?w AtClose "latency_ms wall (last (wt_candles ?w))" None levels "wt_candles ?w" "last (wt_candles ?w)"]
        sturdy_stock [of tf ?w]
      by (auto simp: watch_price_def True f Some analyze_closed_def split: prod.splits sum.splits)
  qed
qed (use assms in \<open>simp add: watch_price_def\<close>)

text \<open>
  The lines that are safe for a timeframe: blank, no JSON, a falsy value, or an object whose price and timestamp
  are missing, null or floats, the quotient of the timestamp by the timeframe being finite.
\<close>

definition steady_text :: "pyfloat \<Rightarrow> json option option \<Rightarrow> bool" where
  "steady_text tf t =
     (case t of
        Some (Some (JObj kvs)) \<Rightarrow>
          (case obj_get kvs ''price'' of
             JNull \<Rightarrow> True
           | JFloat _ \<Rightarrow>
               (case obj_get kvs ''timestamp'' of JNull \<Rightarrow> True | JFloat x \<Rightarrow> isfinite (x / tf) | _ \<Rightarrow> False)
           | _ \<Rightarrow> False)
      | Some (Some v) \<Rightarrow> \<not> truthy v
      | _ \<Rightarrow> True)"

lemma line_report_sturdy:
  assumes "sturdy tf w" "0 < tf" "steady_text tf (ln_text l)"
  shows "is_ok (snd (line_report parse l w)) \<and> sturdy tf (fst (line_report parse l w))"
proof (cases "\<exists>kvs p x. ln_text l = Some (Some (JObj kvs)) \<and> obj_get kvs ''price'' = JFloat p \<and>
    obj_get kvs ''timestamp'' = JFloat x \<and> isfinite (x / tf)")
  case True
  then show ?thesis
    using assms(1) watch_price_sturdy [OF assms(1,2)]
    by (auto simp: line_report_def watch_tick_def py_float_def)
next
  case False
  then show ?thesis
    using assms(1,3)
    by (auto simp: line_report_def steady_text_def watch_tick_def split: option.splits json.splits)
qed

lemma lines_texts: "map ln_text (lines_read clocks ts) = ts"
proof -
  have "map ln_text (lines_read clocks ts) = map snd (enumerate 0 ts)"
    by (simp add: lines_read_def case_prod_unfold comp_def del: map_snd_enumerate)
  then show ?thesis by simp
qed

lemma carried: "snd (snd (case e of (w2, out, x) \<Rightarrow> (w2, y # out, x))) = snd (snd e)"
  by (cases e) simp

lemma run_watcher_survives:
  "sturdy tf w \<Longrightarrow> 0 < tf \<Longrightarrow> list_all (\<lambda>l. steady_text tf (ln_text l)) ls \<Longrightarrow>
     snd (snd (run_watcher parse beat_s ls pulse w)) = Ok ()"
proof (induction ls arbitrary: pulse w)
  case (Cons l ls)
  obtain w1 r where r: "line_report parse l w = (w1, r)" by fastforce
  with line_report_sturdy [OF Cons.prems(1,2), of l parse] Cons.prems(3)
  obtain x where "r = Ok x" "sturdy tf w1" by (auto simp: is_ok_iff)
  moreover from this(2) have "snd (snd (run_watcher parse beat_s ls p w1)) = Ok ()" for p
    using Cons by simp
  ultimately show ?case using r by (cases x) (simp_all add: carried)
qed simp

text \<open>
  C32: The watcher survives its feed. Started from the command line with any positive finite timeframe, it handles
  every line of a stream without raising, whatever the prices (negative, infinite or NaN included), as long as
  each line is blank, no JSON, falsy, or a tick whose price and time are floats or missing and whose time over
  the timeframe is finite: neither the aggregator nor the context, the detectors and the tracker can fail.
\<close>

theorem watcher_survives:
  assumes "watcher_cli parse catalog clocks pulse demo stdin a = Ok (w', out, r)"
    and "list_all (steady_text (wa_tf a)) (if wa_demo a then map demo_text demo else stdin)"
  shows "r = Ok ()"
proof -
  let ?ts = "if wa_demo a then map demo_text demo else stdin"
  obtain w where w: "cli_watcher catalog a = Ok w"
    and run: "run_watcher parse (wa_heartbeat a) (lines_read clocks ?ts) pulse w = (w', out, r)"
    using assms(1) by (auto simp: watcher_cli_def rbind_Inr_iff)
  have "stock_engine (new_watcher (wa_asset a) (wa_tf a) None 400 (default_engine (wa_asset a) catalog) 0)"
    by (auto simp: stock_engine_def new_watcher_def)
  then have tf: "0 < wa_tf a" and s: "sturdy (wa_tf a) w"
    using w by (auto simp: cli_watcher_def params_ok_def sturdy_def new_aggregator_def new_watcher_def split: if_splits)
  have "list_all (\<lambda>l. steady_text (wa_tf a) (ln_text l)) (lines_read clocks ?ts)"
    using assms(2) list.pred_map [of "steady_text (wa_tf a)" ln_text "lines_read clocks ?ts"]
    unfolding lines_texts comp_def by blast
  from run_watcher_survives [OF s tf this, of parse "wa_heartbeat a" pulse] show ?thesis by (simp add: run)
qed

definition rough_lines :: "json option option list" where
  "rough_lines =
     [None, Some None, Some (Some (JInt 0)), demo_text (NaN, 0), demo_text (Fin 10, Fin 5), demo_text (- 1, Fin 400),
      demo_text (Fin 11, Fin 400)]"

lemma watcher_survives_witness:
  "case watcher_cli (\<lambda>_. None) [] (\<lambda>i. line_at (Fin (of_nat i)) None) 0 [] rough_lines default_watcher_args of
     Inl _ \<Rightarrow> False | Inr (w', out, r) \<Rightarrow> r = Ok ()"
proof -
  let ?r = "watcher_cli (\<lambda>_. None) [] (\<lambda>i. line_at (Fin (of_nat i)) None) 0 [] rough_lines default_watcher_args"
  have "params_ok (default_params\<lparr>p_timeframe := Fin 300\<rparr>)" by code_simp
  then obtain p where "?r = Ok p"
    by (simp add: watcher_cli_def cli_watcher_def default_watcher_args_def)
  then obtain w' out r where r: "?r = Ok (w', out, r)" by (cases p) auto
  have "list_all (steady_text (Fin 300)) rough_lines" by code_simp
  with watcher_survives [OF r] show ?thesis unfolding r by (simp add: default_watcher_args_def)
qed

end
