(* ===== verification/SessionDrift.thy ===== *)
theory SessionDrift
  imports ConstitutionClient
begin

text \<open>
  The session of the trading daemon (\<open>cortex/cortex/trading_daemon.py\<close>) with the risk kernel when
  replies can be late. The client of \<open>cortex/cortex/constitution_client.py\<close> reads with a timeout;
  here an arrival is a segment or a \<open>Stall\<close>, a read that outlasts the timeout, and a turn of
  \<open>run_loop\<close> is the health check and the tick over the same socket. A failed health check is
  swallowed and its socket kept, no reply is matched with its request, and so the session slips.
\<close>

section \<open>Reads with a timeout\<close>

datatype arrival = Data bytes | Stall

record link =
  lk_sent :: bytes
  lk_arrivals :: "arrival list"

text \<open>\<open>recv(n)\<close> of a socket with a timeout: a stalled read raises and takes nothing.\<close>

fun recv_timed :: "nat \<Rightarrow> arrival list \<Rightarrow> bytes result \<times> arrival list" where
  "recv_timed n [] = (Ok [], [])"
| "recv_timed n (Stall # as) = (Raise OSError, as)"
| "recv_timed n (Data s # as) = (Ok (take n s), if length s \<le> n then as else Data (drop n s) # as)"

function read_exact_timed :: "nat \<Rightarrow> arrival list \<Rightarrow> bytes result \<times> arrival list" where
  "read_exact_timed n as =
     (if n = 0 then (Ok [], as)
      else case recv_timed n as of
          (Inl e, as') \<Rightarrow> (Raise e, as')
        | (Inr chunk, as') \<Rightarrow>
            if chunk = [] then (Raise ConnectionError, as')
            else let (r, as'') = read_exact_timed (n - length chunk) as'
              in (rbind r (\<lambda>rest. Ok (chunk @ rest)), as''))"
  by pat_completeness auto
termination by (relation "measure fst") auto

declare read_exact_timed.simps [simp del]

definition exchange_timed :: "bytes \<Rightarrow> link \<Rightarrow> bytes result \<times> link" where
  "exchange_timed payload l =
     (case pack_be (length payload) of
        Inl e \<Rightarrow> (Raise e, l)
      | Inr prefix_bytes \<Rightarrow>
          (let l1 = l\<lparr>lk_sent := lk_sent l @ prefix_bytes @ payload\<rparr> in
           case recv_timed 4 (lk_arrivals l1) of
             (Inl e, as) \<Rightarrow> (Raise e, l1\<lparr>lk_arrivals := as\<rparr>)
           | (Inr header, as) \<Rightarrow>
               if length header \<noteq> 4 then (Raise ConnectionError, l1\<lparr>lk_arrivals := as\<rparr>)
               else let frame_len = unpack_be header in
                 if frame_len = 0 \<or> MAX_FRAME_BYTES < frame_len
                 then (Raise ValueError, l1\<lparr>lk_arrivals := as\<rparr>)
                 else let (r, as') = read_exact_timed frame_len as in (r, l1\<lparr>lk_arrivals := as'\<rparr>)))"

definition call_timed :: "codec \<Rightarrow> string \<Rightarrow> string \<Rightarrow> link \<Rightarrow> json result \<times> link" where
  "call_timed C opcode payload l =
     (let (r, l') = exchange_timed (build_envelope C opcode payload) l
      in (rbind (rbind r (co_decode C)) (co_loads C), l'))"

definition heartbeat_timed :: "codec \<Rightarrow> link \<Rightarrow> json result \<times> link" where
  "heartbeat_timed C = call_timed C ''Heartbeat'' ''{}''"

definition evaluate_timed :: "codec \<Rightarrow> json \<Rightarrow> json \<Rightarrow> link \<Rightarrow> json result \<times> link" where
  "evaluate_timed C folio proposal =
     call_timed C ''EvaluateProposal'' (co_dumps C (JObj [(''portfolio'', folio), (''proposal'', proposal)]))"

section \<open>Turns of the loop\<close>

text \<open>\<open>_update_health\<close> catches whatever the heartbeat raised and keeps the session as it is.\<close>

definition update_health :: "codec \<Rightarrow> link \<Rightarrow> bool \<times> link" where
  "update_health C l = (let (r, l') = heartbeat_timed C l in (is_ok r, l'))"

text \<open>What is sent: the portfolio's dictionary (\<open>stamp\<close> is its time of creation) and \<open>model_dump\<close> of the proposal.\<close>

definition position_json :: "position \<Rightarrow> json" where
  "position_json p = JObj
     ([(''asset_id'', JStr (po_asset p)), (''notional_value'', po_notional p), (''entry_price'', JFloat (po_entry p))] @
      (case po_quantity p of None \<Rightarrow> [] | Some q \<Rightarrow> [(''quantity'', JFloat q)]))"

definition portfolio_json :: "int \<Rightarrow> portfolio \<Rightarrow> json" where
  "portfolio_json stamp f = JObj
     [(''timestamp'', JInt stamp), (''total_equity'', JFloat (pf_equity f)), (''cash_balance'', JFloat (pf_cash f)),
      (''high_water_mark'', JFloat (pf_high_water f)), (''open_positions'', JList (map position_json (pf_positions f)))]"

definition proposal_json :: "trade_proposal \<Rightarrow> json" where
  "proposal_json p = JObj
     [(''proposal_id'', JStr (tp_id p)), (''asset_id'', JStr (tp_asset p)),
      (''direction'', JStr (case tp_direction p of Buy \<Rightarrow> ''Buy'' | Sell \<Rightarrow> ''Sell'')),
      (''target_notional'', JFloat (tp_notional p)), (''max_acceptable_slippage'', JFloat (tp_slippage p))]"

definition ask :: "codec \<Rightarrow> int \<Rightarrow> portfolio \<Rightarrow> trade_proposal \<Rightarrow> link \<Rightarrow> json result \<times> link" where
  "ask C stamp f p = evaluate_timed C (portfolio_json stamp f) (proposal_json p)"

definition session_turn ::
    "codec \<Rightarrow> int \<Rightarrow> 'a venue \<Rightarrow> (string \<Rightarrow> pyfloat option) \<Rightarrow> (json \<Rightarrow> string) \<Rightarrow> string \<times> obj \<Rightarrow>
      link \<times> ('a, 'o) trading \<Rightarrow> (link \<times> ('a, 'o) trading) \<times> unit result" where
  "session_turn C stamp ven parse render t = (\<lambda>(l, s).
     let (_, l1) = update_health C l;
         l2 = (case evaluate_market_tick parse render (fst t) (td_asset s) (prepare_tick s (snd t)) of
                 Inr (Some p) \<Rightarrow> snd (ask C stamp (td_portfolio s) p l1)
               | _ \<Rightarrow> l1);
         (s', r) = process_tick ven (\<lambda>f p. fst (ask C stamp f p l1)) parse render (fst t) (snd t) s
     in ((l2, s'), r))"

fun session_turns ::
    "codec \<Rightarrow> int \<Rightarrow> 'a venue \<Rightarrow> (string \<Rightarrow> pyfloat option) \<Rightarrow> (json \<Rightarrow> string) \<Rightarrow> (string \<times> obj) list \<Rightarrow>
      link \<times> ('a, 'o) trading \<Rightarrow> (link \<times> ('a, 'o) trading) \<times> unit result" where
  "session_turns C stamp ven parse render [] ls = (ls, Ok ())"
| "session_turns C stamp ven parse render (t # ts) ls =
     (if \<not> td_running (snd ls) then (ls, Ok ())
      else case session_turn C stamp ven parse render t ls of
          (ls', Inl e) \<Rightarrow> (ls', Raise e)
        | (ls', Inr _) \<Rightarrow> session_turns C stamp ven parse render ts ls')"

section \<open>Replies in step\<close>

lemma recv_timed_data:
  "ss \<noteq> [] \<Longrightarrow> recv_timed n (map Data ss @ tt) = (Ok (fst (recv n ss)), map Data (snd (recv n ss)) @ tt)"
  by (cases ss) auto

lemma read_exact_timed_segments:
  "list_all (\<lambda>s. s \<noteq> []) ss \<Longrightarrow>
     read_exact_timed (length (concat ss)) (map Data ss @ tt) = (Ok (concat ss), tt)"
proof (induction ss)
  case Nil
  show ?case by (simp add: read_exact_timed.simps)
next
  case (Cons s ss)
  have rv: "recv_timed (length (concat (s # ss))) (map Data (s # ss) @ tt) = (Ok s, map Data ss @ tt)" by simp
  have "length (concat (s # ss)) \<noteq> 0" "s \<noteq> []" using Cons.prems by auto
  with Cons show ?case
    by (subst read_exact_timed.simps) (simp only: rv Let_def prod.case sum.case if_False simp_thms, simp)
qed

lemma exchange_timed_reply:
  assumes q: "length q < 2 ^ 32" and r: "0 < length r" "length r \<le> MAX_FRAME_BYTES" and c: "carries r ss"
  shows "exchange_timed q \<lparr>lk_sent = out, lk_arrivals = map Data ss @ tt\<rparr> =
     (Ok r, \<lparr>lk_sent = out @ frame q, lk_arrivals = tt\<rparr>)"
proof -
  obtain hq where hq: "pack_be (length q) = Ok hq" using pack_unpack [OF q] by blast
  obtain h ss1 where h: "length h = 4" "unpack_be h = length r" "recv 4 (ss @ []) = (h, ss1 @ [])"
    "concat ss1 = r" "list_all (\<lambda>s. s \<noteq> []) ss1"
    by (rule carries_prefix [OF r(2) c])
  have "ss \<noteq> []" using c by (simp add: carries_def)
  with h(3) have "recv_timed 4 (map Data ss @ tt) = (Ok h, map Data ss1 @ tt)"
    by (simp add: recv_timed_data)
  moreover from read_exact_timed_segments [OF h(5), of tt] h(4)
  have "read_exact_timed (length r) (map Data ss1 @ tt) = (Ok r, tt)" by simp
  ultimately show ?thesis using r h(1,2) hq by (simp add: exchange_timed_def frame_def Let_def)
qed

lemma exchange_timed_stall:
  assumes "length q < 2 ^ 32"
  shows "exchange_timed q \<lparr>lk_sent = out, lk_arrivals = Stall # as\<rparr> =
     (Raise OSError, \<lparr>lk_sent = out @ frame q, lk_arrivals = as\<rparr>)"
proof -
  obtain h where "pack_be (length q) = Ok h" using pack_unpack [OF assms] by blast
  then show ?thesis by (simp add: exchange_timed_def frame_def Let_def)
qed

fun converse_timed :: "bytes list \<Rightarrow> link \<Rightarrow> bytes result list \<times> link" where
  "converse_timed [] l = ([], l)"
| "converse_timed (q # qs) l =
     (let (r, l') = exchange_timed q l; (rs, l'') = converse_timed qs l' in (r # rs, l''))"

lemma converse_timed_replies:
  assumes "length qs = length rs" "list_all (\<lambda>q. length q < 2 ^ 32) qs"
    and "list_all2 (\<lambda>r ss. 0 < length r \<and> length r \<le> MAX_FRAME_BYTES \<and> carries r ss) rs sss"
  shows "converse_timed qs \<lparr>lk_sent = out, lk_arrivals = map Data (concat sss)\<rparr> =
     (map Ok rs, \<lparr>lk_sent = out @ concat (map frame qs), lk_arrivals = []\<rparr>)"
  using assms
proof (induction qs rs arbitrary: sss out rule: list_induct2)
  case (Cons q qs r rs)
  obtain ss sss' where sss: "sss = ss # sss'" using Cons.prems(2) by (cases sss) auto
  have "exchange_timed q \<lparr>lk_sent = out, lk_arrivals = map Data ss @ map Data (concat sss')\<rparr> =
      (Ok r, \<lparr>lk_sent = out @ frame q, lk_arrivals = map Data (concat sss')\<rparr>)"
    by (rule exchange_timed_reply) (use Cons.prems in \<open>auto simp: sss\<close>)
  with Cons.IH [of sss' "out @ frame q"] Cons.prems show ?case by (simp add: sss Let_def)
qed simp

text \<open>
  Every reply that comes too late shifts all later ones. After \<open>k\<close> requests whose reply
  outlasts the timeout, request number \<open>k + i\<close> is answered with the reply the kernel gave to request
  number \<open>i\<close>, for as long as the session lasts and without any error: nothing in a frame tells a
  late reply from the reply asked for.
\<close>

theorem replies_slip:
  assumes "list_all (\<lambda>q. length q < 2 ^ 32) qs"
    and "list_all2 (\<lambda>r ss. 0 < length r \<and> length r \<le> MAX_FRAME_BYTES \<and> carries r ss) rs sss"
    and "length qs = k + length rs"
  shows "converse_timed qs \<lparr>lk_sent = out, lk_arrivals = replicate k Stall @ map Data (concat sss)\<rparr> =
     (replicate k (Raise OSError) @ map Ok rs, \<lparr>lk_sent = out @ concat (map frame qs), lk_arrivals = []\<rparr>)"
  using assms(1,3)
proof (induction k arbitrary: qs out)
  case 0
  then show ?case using converse_timed_replies [OF _ _ assms(2), of qs out] by simp
next
  case (Suc k)
  obtain q qs' where qs: "qs = q # qs'" using Suc.prems(2) by (cases qs) auto
  have "length q < 2 ^ 32" using Suc.prems(1) by (simp add: qs)
  from exchange_timed_stall [OF this] Suc.IH [of qs' "out @ frame q"] Suc.prems
  show ?case by (simp add: qs Let_def)
qed

lemma replies_slip_witness:
  "converse_timed [[1], [2], [3]]
     \<lparr>lk_sent = [], lk_arrivals = replicate 1 Stall @ map Data (concat [[[0, 0, 0, 1, 11]], [[0, 0, 0, 1], [12]]])\<rparr> =
   (replicate 1 (Raise OSError) @ map Ok [[11], [12]],
    \<lparr>lk_sent = [] @ concat (map frame [[1], [2], [3]]), lk_arrivals = []\<rparr>)"
proof -
  have "carries [11] [[0, 0, 0, 1, 11]]" "carries [12] [[0, 0, 0, 1], [12]]"
    by (simp_all add: carries_def frame_def pack_be_def)
  then show ?thesis
    using replies_slip [of "[[1], [2], [3]]" "[[11], [12]]" "[[[0, 0, 0, 1, 11]], [[0, 0, 0, 1], [12]]]" 1 "[]"]
    by (simp add: MAX_FRAME_BYTES_def)
qed

text \<open>Without stalls the timeouts change nothing.\<close>

definition calm :: "sock \<Rightarrow> link" where
  "calm s = \<lparr>lk_sent = sk_sent s, lk_arrivals = map Data (sk_segments s)\<rparr>"

lemma recv_timed_calm: "recv_timed n (map Data ss) = (Ok (fst (recv n ss)), map Data (snd (recv n ss)))"
  by (cases ss) auto

lemma read_exact_timed_calm:
  "read_exact_timed n (map Data ss) = (fst (read_exact n ss), map Data (snd (read_exact n ss)))"
proof (induction n ss rule: read_exact.induct)
  case (1 n ss)
  obtain chunk ss' where rv: "recv n ss = (chunk, ss')" by fastforce
  show ?case
  proof (cases "n = 0 \<or> chunk = []")
    case False
    then have "read_exact_timed (n - length chunk) (map Data ss') =
        (fst (read_exact (n - length chunk) ss'), map Data (snd (read_exact (n - length chunk) ss')))"
      using 1 rv by auto
    then show ?thesis using False
      by (subst read_exact_timed.simps, subst (1 2) read_exact.simps)
        (simp add: recv_timed_calm rv Let_def split: prod.split)
  qed (auto simp: read_exact_timed.simps [of n] read_exact.simps [of n] recv_timed_calm rv)
qed

theorem calm_link_agrees: "exchange_timed q (calm s) = (fst (exchange q s), calm (snd (exchange q s)))"
  by (simp add: exchange_timed_def exchange_def calm_def recv_timed_calm read_exact_timed_calm Let_def
      split: sum.split prod.split)

section \<open>A kernel that answers in time\<close>

text \<open>
  The requests of a run and the replies to them: of a heartbeat \<open>hb\<close>, of a proposal the bytes
  \<open>rep\<close> of the verdict \<open>V\<close>, a function of what was sent as the model of the daemon assumes.
\<close>

definition proposed ::
    "(string \<Rightarrow> pyfloat option) \<Rightarrow> (json \<Rightarrow> string) \<Rightarrow> string \<times> obj \<Rightarrow> ('a, 'o) trading \<Rightarrow> trade_proposal option" where
  "proposed parse render t s =
     (case evaluate_market_tick parse render (fst t) (td_asset s) (prepare_tick s (snd t)) of
        Inl _ \<Rightarrow> None | Inr a \<Rightarrow> a)"

definition ask_bytes :: "codec \<Rightarrow> int \<Rightarrow> portfolio \<Rightarrow> trade_proposal \<Rightarrow> bytes" where
  "ask_bytes C stamp f p = build_envelope C ''EvaluateProposal''
     (co_dumps C (JObj [(''portfolio'', portfolio_json stamp f), (''proposal'', proposal_json p)]))"

definition beat_bytes :: "codec \<Rightarrow> bytes" where
  "beat_bytes C = build_envelope C ''Heartbeat'' ''{}''"

definition turn_dialogue ::
    "codec \<Rightarrow> int \<Rightarrow> (json \<Rightarrow> bytes) \<Rightarrow> bytes \<Rightarrow> (portfolio \<Rightarrow> trade_proposal \<Rightarrow> json) \<Rightarrow>
      (string \<Rightarrow> pyfloat option) \<Rightarrow> (json \<Rightarrow> string) \<Rightarrow> string \<times> obj \<Rightarrow> ('a, 'o) trading \<Rightarrow> (bytes \<times> bytes) list" where
  "turn_dialogue C stamp rep hb V parse render t s =
     (beat_bytes C, hb) #
     (case proposed parse render t s of
        None \<Rightarrow> [] | Some p \<Rightarrow> [(ask_bytes C stamp (td_portfolio s) p, rep (V (td_portfolio s) p))])"

fun dialogue ::
    "codec \<Rightarrow> int \<Rightarrow> (json \<Rightarrow> bytes) \<Rightarrow> bytes \<Rightarrow> (portfolio \<Rightarrow> trade_proposal \<Rightarrow> json) \<Rightarrow> 'a venue \<Rightarrow>
      (string \<Rightarrow> pyfloat option) \<Rightarrow> (json \<Rightarrow> string) \<Rightarrow> (string \<times> obj) list \<Rightarrow> ('a, 'o) trading \<Rightarrow> (bytes \<times> bytes) list" where
  "dialogue C stamp rep hb V ven parse render [] s = []"
| "dialogue C stamp rep hb V ven parse render (t # ts) s =
     (if \<not> td_running s then []
      else turn_dialogue C stamp rep hb V parse render t s @
        (case process_tick ven (\<lambda>f p. Ok (V f p)) parse render (fst t) (snd t) s of
           (s', Inl e) \<Rightarrow> []
         | (s', Inr _) \<Rightarrow> dialogue C stamp rep hb V ven parse render ts s'))"

text \<open>The client decodes each verdict's bytes back to the verdict.\<close>

definition reads_back :: "codec \<Rightarrow> (json \<Rightarrow> bytes) \<Rightarrow> (portfolio \<Rightarrow> trade_proposal \<Rightarrow> json) \<Rightarrow> bool" where
  "reads_back C rep V \<longleftrightarrow> (\<forall>f p. rbind (co_decode C (rep (V f p))) (co_loads C) = Ok (V f p))"

definition delivered :: "bytes \<times> bytes \<Rightarrow> bytes list \<Rightarrow> bool" where
  "delivered qr ss \<longleftrightarrow> length (fst qr) < 2 ^ 32 \<and> 0 < length (snd qr) \<and> length (snd qr) \<le> MAX_FRAME_BYTES \<and>
     carries (snd qr) ss"

lemma call_timed_delivered:
  assumes "delivered (build_envelope C opcode payload, r) ss"
  shows "call_timed C opcode payload \<lparr>lk_sent = out, lk_arrivals = map Data ss @ tt\<rparr> =
     (rbind (rbind (Ok r) (co_decode C)) (co_loads C),
      \<lparr>lk_sent = out @ frame (build_envelope C opcode payload), lk_arrivals = tt\<rparr>)"
proof -
  have "exchange_timed (build_envelope C opcode payload) \<lparr>lk_sent = out, lk_arrivals = map Data ss @ tt\<rparr> =
      (Ok r, \<lparr>lk_sent = out @ frame (build_envelope C opcode payload), lk_arrivals = tt\<rparr>)"
    by (rule exchange_timed_reply) (use assms in \<open>auto simp: delivered_def\<close>)
  then show ?thesis by (simp add: call_timed_def)
qed

lemma health_delivered:
  assumes "delivered (beat_bytes C, hb) ss"
  shows "snd (update_health C \<lparr>lk_sent = out, lk_arrivals = map Data ss @ tt\<rparr>) =
     \<lparr>lk_sent = out @ frame (beat_bytes C), lk_arrivals = tt\<rparr>"
  using call_timed_delivered [of C "''Heartbeat''" "''{}''" hb ss out tt] assms
  by (simp add: update_health_def heartbeat_timed_def beat_bytes_def)

lemma ask_delivered:
  assumes "delivered (ask_bytes C stamp f p, r) ss"
  shows "ask C stamp f p \<lparr>lk_sent = out, lk_arrivals = map Data ss @ tt\<rparr> =
     (rbind (co_decode C r) (co_loads C), \<lparr>lk_sent = out @ frame (ask_bytes C stamp f p), lk_arrivals = tt\<rparr>)"
  using call_timed_delivered [of C "''EvaluateProposal''" _ r ss out tt] assms
  by (simp add: ask_def evaluate_timed_def ask_bytes_def)

text \<open>A tick asks the kernel at most once: about the portfolio it found and the engine's proposal.\<close>

lemma process_tick_asks:
  assumes "\<And>p. proposed parse render t s = Some p \<Longrightarrow> judge (td_portfolio s) p = judge' (td_portfolio s) p"
  shows "process_tick ven judge parse render (fst t) (snd t) s = process_tick ven judge' parse render (fst t) (snd t) s"
  using assms by (auto simp: process_tick_def proposed_def adjudicate_def split: sum.split option.split)

lemma session_turn_eq:
  "session_turn C stamp ven parse render t (l, s) =
     (let l1 = snd (update_health C l);
          l2 = (case proposed parse render t s of None \<Rightarrow> l1 | Some p \<Rightarrow> snd (ask C stamp (td_portfolio s) p l1));
          (s', r) = process_tick ven (\<lambda>f p. fst (ask C stamp f p l1)) parse render (fst t) (snd t) s
      in ((l2, s'), r))"
  by (simp add: session_turn_def proposed_def Let_def split: sum.split option.split prod.split)

lemma session_turn_served:
  assumes "reads_back C rep V"
    and "list_all2 delivered (turn_dialogue C stamp rep hb V parse render t s) sss"
  shows "session_turn C stamp ven parse render t (\<lparr>lk_sent = out, lk_arrivals = map Data (concat sss) @ tt\<rparr>, s) =
     (let (s', r) = process_tick ven (\<lambda>f p. Ok (V f p)) parse render (fst t) (snd t) s
      in ((\<lparr>lk_sent = out @ concat (map (\<lambda>qr. frame (fst qr)) (turn_dialogue C stamp rep hb V parse render t s)),
            lk_arrivals = tt\<rparr>, s'), r))"
proof -
  obtain ss sss' where sss: "sss = ss # sss'" and ss: "delivered (beat_bytes C, hb) ss"
    using assms(2) by (cases sss) (auto simp: turn_dialogue_def)
  show ?thesis
  proof (cases "proposed parse render t s")
    case None
    then have "sss' = []" using assms(2) by (simp add: turn_dialogue_def sss)
    let ?l = "\<lparr>lk_sent = out @ frame (beat_bytes C), lk_arrivals = tt\<rparr>"
    have tick: "process_tick ven (\<lambda>f p. fst (ask C stamp f p ?l)) parse render (fst t) (snd t) s =
        process_tick ven (\<lambda>f p. Ok (V f p)) parse render (fst t) (snd t) s"
      by (rule process_tick_asks) (simp add: None)
    have "snd (update_health C \<lparr>lk_sent = out, lk_arrivals = map Data (concat sss) @ tt\<rparr>) = ?l"
      using health_delivered [OF ss, of out tt] sss \<open>sss' = []\<close> by simp
    then show ?thesis
      by (simp only: session_turn_eq Let_def tick) (simp add: turn_dialogue_def None)
  next
    case (Some p)
    let ?f = "td_portfolio s"
    obtain ss' where sss': "sss' = [ss']" and ss': "delivered (ask_bytes C stamp ?f p, rep (V ?f p)) ss'"
      using assms(2) by (cases sss') (auto simp: turn_dialogue_def sss Some)
    let ?l = "\<lparr>lk_sent = out @ frame (beat_bytes C), lk_arrivals = map Data ss' @ tt\<rparr>"
    have a: "ask C stamp ?f p ?l = (Ok (V ?f p),
        \<lparr>lk_sent = (out @ frame (beat_bytes C)) @ frame (ask_bytes C stamp ?f p), lk_arrivals = tt\<rparr>)"
      using ask_delivered [OF ss', of "out @ frame (beat_bytes C)" tt] assms(1) by (simp add: reads_back_def)
    have "process_tick ven (\<lambda>f p. fst (ask C stamp f p ?l)) parse render (fst t) (snd t) s =
        process_tick ven (\<lambda>f p. Ok (V f p)) parse render (fst t) (snd t) s"
      by (rule process_tick_asks) (use a Some in auto)
    then show ?thesis
      using health_delivered [OF ss, of out "map Data ss' @ tt"] a
      by (simp add: session_turn_eq turn_dialogue_def Some sss sss' Let_def)
  qed
qed

text \<open>
  C19: A daemon whose kernel answers in time is the daemon of the model. When every reply arrives
  whole and in time, a run over the socket leaves the state and the outcome of the run in which
  the Constitution is a function of the portfolio and the proposal, having sent one heartbeat a
  turn and each proposal once, in order, with nothing left to read.
\<close>

theorem session_refines_constitution:
  assumes "reads_back C rep V"
    and "list_all2 delivered (dialogue C stamp rep hb V ven parse render ts s) sss"
  shows "session_turns C stamp ven parse render ts (\<lparr>lk_sent = out, lk_arrivals = map Data (concat sss)\<rparr>, s) =
     (let (s', r) = run_events ops hooks ven (\<lambda>f p. Ok (V f p)) parse render (map (\<lambda>t. Market (fst t) (snd t)) ts) s
      in ((\<lparr>lk_sent = out @ concat (map (\<lambda>qr. frame (fst qr)) (dialogue C stamp rep hb V ven parse render ts s)),
            lk_arrivals = []\<rparr>, s'), r))"
  using assms(2)
proof (induction ts arbitrary: s sss out)
  case (Cons t ts)
  obtain s' r where p: "process_tick ven (\<lambda>f p. Ok (V f p)) parse render (fst t) (snd t) s = (s', r)" by fastforce
  show ?case
  proof (cases "td_running s")
    case True
    define rest where "rest = (case r of Inl _ \<Rightarrow> [] | Inr _ \<Rightarrow> dialogue C stamp rep hb V ven parse render ts s')"
    have d: "dialogue C stamp rep hb V ven parse render (t # ts) s =
        turn_dialogue C stamp rep hb V parse render t s @ rest"
      using True p by (simp add: rest_def split: sum.split)
    from Cons.prems obtain s1 s2 where sss: "sss = s1 @ s2"
      and s1: "list_all2 delivered (turn_dialogue C stamp rep hb V parse render t s) s1"
      and s2: "list_all2 delivered rest s2"
      unfolding d by (auto simp: list_all2_append1)
    note turn = session_turn_served [OF assms(1) s1, where ven = ven and out = out and tt = "map Data (concat s2)"]
    show ?thesis
    proof (cases r)
      case (Inl e)
      then have "s2 = []" using s2 by (simp add: rest_def)
      then show ?thesis using turn p True Inl by (simp add: sss d rest_def split: prod.split)
    next
      case (Inr u)
      with s2 have "list_all2 delivered (dialogue C stamp rep hb V ven parse render ts s') s2" by (simp add: rest_def)
      from Cons.IH [OF this] turn p True Inr show ?thesis
        by (simp add: sss d rest_def split: prod.split)
    qed
  qed (use Cons.prems in \<open>simp split: prod.split\<close>)
qed simp

text \<open>A codec for the samples: requests are short, the reply \<open>[1]\<close> is a heartbeat's, \<open>[2]\<close> an approval, any other a rejection.\<close>

definition sample_codec :: codec where
  "sample_codec = \<lparr>co_dumps = (\<lambda>_. ''{}''), co_encode = (\<lambda>_. [123, 125]),
     co_decode = (\<lambda>b. Ok (if b = [1] then ''beat'' else if b = [2] then ''ok'' else ''no'')),
     co_loads = (\<lambda>s. Ok (if s = ''beat'' then JObj [(''system_state'', JStr ''Normal'')]
       else if s = ''ok'' then JObj [(''Approved'', JObj [(''adjusted_notional'', JFloat (Fin 80))])]
       else JObj [(''Rejected'', JStr ''limit'')]))\<rparr>"

definition buy_tick :: obj where
  "buy_tick = [(''price'', JInt 100), (''momentum_signal'', JBool True), (''trend'', JStr ''Bullish'')]"

definition idle_tick :: obj where
  "idle_tick = [(''price'', JInt 100), (''momentum_signal'', JBool False)]"

lemma sample_delivered: "0 < length r \<Longrightarrow> length r \<le> 9 \<Longrightarrow> delivered ([123, 125], r) [frame r]"
  by (simp add: delivered_def carries_def frame_def pack_be_def MAX_FRAME_BYTES_def)

lemma sample_bytes: "beat_bytes sample_codec = [123, 125]" "ask_bytes sample_codec stamp f p = [123, 125]"
  by (simp_all add: beat_bytes_def ask_bytes_def build_envelope_def sample_codec_def)

lemma sample_buy:
  "\<exists>p. evaluate_market_tick (\<lambda>_. None) (\<lambda>_. []) u (td_asset sample_trading) (prepare_tick sample_trading buy_tick) =
     Ok (Some p) \<and> tp_asset p = ''EURUSD''"
proof -
  have "case evaluate_market_tick (\<lambda>_. None) (\<lambda>_. []) [] (td_asset sample_trading) (prepare_tick sample_trading buy_tick) of
     Inr (Some p) \<Rightarrow> True | _ \<Rightarrow> False"
    by code_simp
  then show ?thesis
    by (auto simp: evaluate_market_tick_def Let_def rbind_Inr_iff validate_proposal_def sample_trading_def
        split: sum.splits option.splits if_splits)
qed

lemma sample_idle:
  "evaluate_market_tick (\<lambda>_. None) (\<lambda>_. []) u (td_asset sample_trading) (prepare_tick sample_trading idle_tick) = Ok None"
proof -
  have "evaluate_market_tick (\<lambda>_. None) (\<lambda>_. []) [] (td_asset sample_trading) (prepare_tick sample_trading idle_tick) = Ok None"
    by code_simp
  then show ?thesis
    by (auto simp: evaluate_market_tick_def Let_def rbind_Inr_iff validate_proposal_def split: if_splits)
qed

lemma session_refines_constitution_witness:
  "\<exists>l'. \<forall>ops hooks. session_turns sample_codec 0 mock_venue (\<lambda>_. None) (\<lambda>_. []) [(''u-1'', buy_tick)]
     (\<lparr>lk_sent = [], lk_arrivals = map Data (concat [[frame [1]], [frame [3]]])\<rparr>, sample_trading) =
     (let (s', r) = run_events ops hooks mock_venue (\<lambda>f p. Ok (JObj [(''Rejected'', JStr ''limit'')])) (\<lambda>_. None) (\<lambda>_. [])
        (map (\<lambda>t. Market (fst t) (snd t)) [(''u-1'', buy_tick)]) sample_trading in ((l', s'), r))"
proof -
  let ?V = "\<lambda>(f::portfolio) (p::trade_proposal). JObj [(''Rejected'', JStr ''limit'')]"
  obtain p where p: "evaluate_market_tick (\<lambda>_. None) (\<lambda>_. []) ''u-1'' (td_asset sample_trading) (prepare_tick sample_trading buy_tick) =
      Ok (Some p)" using sample_buy by blast
  have d: "dialogue sample_codec 0 (\<lambda>_. [3]) [1] ?V mock_venue (\<lambda>_. None) (\<lambda>_. []) [(''u-1'', buy_tick)] sample_trading =
      [([123, 125], [1]), ([123, 125], [3])]"
    using p by (simp add: turn_dialogue_def proposed_def sample_bytes split: sum.split prod.split)
      (simp add: sample_trading_def)
  have "reads_back sample_codec (\<lambda>_. [3]) ?V" by (simp add: reads_back_def sample_codec_def)
  moreover have "list_all2 delivered (dialogue sample_codec 0 (\<lambda>_. [3]) [1] ?V mock_venue (\<lambda>_. None) (\<lambda>_. [])
      [(''u-1'', buy_tick)] sample_trading) [[frame [1]], [frame [3]]]"
    unfolding d by (simp add: sample_delivered)
  ultimately show ?thesis by (intro exI allI) (rule session_refines_constitution)
qed

section \<open>Two lost heartbeats\<close>

lemma health_stall:
  assumes "length (beat_bytes C) < 2 ^ 32"
  shows "update_health C \<lparr>lk_sent = out, lk_arrivals = Stall # as\<rparr> =
     (False, \<lparr>lk_sent = out @ frame (beat_bytes C), lk_arrivals = as\<rparr>)"
  using exchange_timed_stall [OF assms] by (simp add: update_health_def heartbeat_timed_def call_timed_def beat_bytes_def)

lemma prepare_any_switch [simp]: "prepare_tick (s\<lparr>td_switch := d\<rparr>) kvs = prepare_tick s kvs"
  by (simp add: prepare_tick_def)

definition plain :: "'o daemon \<Rightarrow> bool" where "plain d \<longleftrightarrow> \<not> g_strict (d_config d)"

lemma switch_beats:
  "plain d \<Longrightarrow> \<exists>d'. plain d' \<and> on_switch (beat False d) (s\<lparr>td_switch := d\<rparr>) = (s\<lparr>td_switch := d'\<rparr>, Ok ())"
  by (intro exI [of _ "fst (beat False d)"])
    (auto simp: plain_def on_switch_def beat_def read_clock_def journal_note_def journal_append_def Let_def)

lemma lost_turn:
  assumes "length (beat_bytes C) < 2 ^ 32" "plain d"
    and "evaluate_market_tick parse render (fst t) (td_asset s) (prepare_tick s (snd t)) = Ok None"
  shows "\<exists>d'. plain d' \<and>
    session_turn C stamp ven parse render t (\<lparr>lk_sent = out, lk_arrivals = Stall # as\<rparr>, s\<lparr>td_switch := d\<rparr>) =
     ((\<lparr>lk_sent = out @ frame (beat_bytes C), lk_arrivals = as\<rparr>, s\<lparr>td_switch := d'\<rparr>), Ok ())"
  using switch_beats [OF assms(2), of s] assms(3)
  by (auto simp: session_turn_def health_stall [OF assms(1)] process_tick_def)

text \<open>A turn with a proposal is judged by whatever frame comes second.\<close>

lemma judged_turn:
  assumes "delivered (beat_bytes C, b) ss" "delivered (ask_bytes C stamp (td_portfolio s) p, r) ss'" "plain d"
    and "evaluate_market_tick parse render (fst t) (td_asset s) (prepare_tick s (snd t)) = Ok (Some p)"
    and "rbind (co_decode C r) (co_loads C) = Ok v"
    and "handle_verdict ven v (dump p) (s\<lparr>td_switch := d\<rparr>) = (s1\<lparr>td_switch := d\<rparr>, Ok ())"
  shows "\<exists>d' out'. plain d' \<and>
    session_turn C stamp ven parse render t
      (\<lparr>lk_sent = out, lk_arrivals = map Data ss @ map Data ss' @ as\<rparr>, s\<lparr>td_switch := d\<rparr>) =
     ((\<lparr>lk_sent = out', lk_arrivals = as\<rparr>, s1\<lparr>td_switch := d'\<rparr>), Ok ())"
  using health_delivered [OF assms(1), of out "map Data ss' @ as"]
    ask_delivered [OF assms(2), of "out @ frame (beat_bytes C)" as] switch_beats [OF assms(3), of s1] assms(4,5,6)
  by (auto simp: session_turn_eq proposed_def process_tick_def adjudicate_def Let_def)

definition approval :: "pyfloat \<Rightarrow> json" where
  "approval n = JObj [(''Approved'', JObj [(''adjusted_notional'', JFloat n)])]"

lemma max_one_nonzero: "py_max n 1 \<noteq> 0"
  by (cases n) (auto simp: py_max_def zero_pyfloat_def one_pyfloat_def)

lemma approval_applies:
  "td_adapter s = None \<Longrightarrow> handle_verdict ven (approval n) (dump p) s =
     (add_position \<lparr>po_asset = tp_asset p, po_notional = JFloat n, po_entry = tp_notional p / py_max n 1,
        po_quantity = None\<rparr> s, Ok ())"
  by (simp add: handle_verdict_def has_key_def handle_approved_def item_of_def adjusted_notional_def obj_get_or_def
      apply_approved_proposal_def as_number_def py_div_def max_one_nonzero approval_def dump_def)

lemma no_verdict_ignored:
  "has_key ''Approved'' v = Ok False \<Longrightarrow> has_key ''EmergencyLiquidationAll'' v = Ok False \<Longrightarrow>
     handle_verdict ven v pd s = (s, Ok ())"
  by (simp add: handle_verdict_def)



end
