(* ===== verification/Spec2Isabelle.thy ===== *)
theory Spec2Isabelle
  imports MarketContext DoomsdayCli Mesh Telemetry Pqc Pullback EventEngine Learning Trading Orchestrator
    EventWatcher Evolution Chronos LiveFeed ConstitutionClient VenueAdapters Governance Boot EdgeNode Drivers LiveDrills Services WatcherRun TradingCli MeshService HealingLog SyntheticWalk VenueSchemas PipelineRun
    FeedService EdgeThreads DrillScript FeedProcs WatcherCli SessionDrift
begin

text \<open>
  Verification library for the Python side of \<open>centaur-apex-core\<close>, an autonomous trading system: the
  Cortex reads the market and proposes trades, the risk kernel (the Constitution, a Rust daemon)
  approves or refuses them over TCP, venues execute them, a dead-man switch liquidates when nobody
  beats it, edge nodes agree on shared state, an evolution agent patches the code, and an
  orchestrator keeps all of these running. Paths below are under \<open>src/\<close>.

  \<^bold>\<open>How to read it.\<close> Each theory models one or a few source files, in the order of the code: the
  state as a record, one definition per method, then lemmas, then the properties. Python values
  keep their meaning: \<open>int\<close> is \<open>int\<close>, \<open>float\<close> is \<open>pyfloat\<close> (IEEE doubles with exact
  round-to-nearest-even over the rationals, infinities and NaN; negative zero is identified with
  zero), \<open>dict\<close> is an association list in insertion order or a map, and an exception is
  \<open>Raise e\<close> of the sum type \<open>result\<close>. Operations that raise after a change of state return the state they
  leave behind. Clocks, random draws, fresh identifiers, hashes, JSON text and third-party
  libraries are parameters; what a property needs of them is one of its hypotheses, and its
  witness instantiates them.

  \<^bold>\<open>Foundations.\<close> \<open>Prelude\<close> (exceptions, slices, the interface \<open>bounded_history\<close> of capped lists,
  interpreted by the journals and rings), \<open>PyFloat\<close> (floating point and the parts of the standard
  library that use it), \<open>Json\<close> (decoded values).

  \<^bold>\<open>Market reading.\<close> \<open>Candles\<close> and \<open>MarketContext\<close> model
  \<open>cortex/cortex/market_context.py\<close>: ticks fold into candles (refinement of runs of equal buckets), candles into
  swings, structure, regime and phase. \<open>Pullback\<close> models \<open>pullback.py\<close>; \<open>Patterns\<close>, \<open>Detectors\<close> and
  \<open>EventEngine\<close> model \<open>event_engine.py\<close>; \<open>EventWatcher\<close> composes all of them as
  \<open>event_watcher.py\<close> does, and refines the aggregator; \<open>WatcherRun\<close> adds its loop over input lines, the
  heartbeats and the JSON records it writes, with a type for each record, \<open>WatcherCli\<close> its command line and that no tick of floats ends it; \<open>SyntheticWalk\<close> models the market of
  the demonstrations and bounds it in floating-point arithmetic. \<open>SequenceStats\<close> and \<open>Learning\<close> model
  \<open>sequence_stats.py\<close>, \<open>next_candle.py\<close> and \<open>ml.py\<close>: base rates as histograms, features that
  never look ahead, walk-forward scoring. \<open>LiveFeed\<close> models
  \<open>adapters/adapters/live_feed.py\<close>, with the paging loop as a \<open>while_option\<close>: it ends, in order and
  without overlap, against a venue that honours the end time, and need not end otherwise.
  \<open>LiveDrills\<close> puts the fetch in front of the drills and shows what they really score, \<open>DrillScript\<close> (\<open>cortex/scripts/next_candle_drill.py\<close>)
  what the big drill leaves on disk.

  \<^bold>\<open>Trading.\<close> \<open>CortexEngine\<close> (\<open>proposal_api.py\<close>, \<open>engine.py\<close>,
  \<open>adapters/base.py\<close>, the mock venue, \<open>proposal_bridge.py\<close>) holds the locales \<open>receipt_adapter\<close> and
  \<open>exchange_adapter\<close> of the venues; \<open>VenueAdapters\<close> models the MetaTrader connector, which meets only
  the first, and the plugin loader \<open>discovery_agent.py\<close>, whose schemas are in \<open>VenueSchemas\<close>. \<open>Trading\<close> models \<open>trading_daemon.py\<close> with the
  switch's thread interleaved, \<open>ConstitutionClient\<close> the framed session with the kernel over an
  arbitrary segmentation of the stream, \<open>SessionDrift\<close> the daemon's turns over that session when reads
  can time out (in time it refines the daemon of the model, late it slips), \<open>Drivers\<close> the scripts \<open>market_feed.py\<close>,
  \<open>run_trading.py\<close> and \<open>run_pipeline.py\<close> (its session and cleanup in \<open>PipelineRun\<close>), \<open>TradingCli\<close> the command lines: where ticks come from, how the
  daemon is started, and when its own pacing makes the switch escalate; \<open>FeedService\<close> runs the daemon on the
  lines of the feed as the orchestrator does, where the pacing keeps the switch at rest. \<open>Governance\<close> models the compliance package and \<open>agent_marl.py\<close>.

  \<^bold>\<open>Dead-man switch.\<close> \<open>DeadManConfig\<close>, \<open>Oracle\<close> (\<open>doomsday/doomsday/oracle.py\<close>, with the orders
  as a mutable store), \<open>DeadMan\<close> (\<open>daemon.py\<close>) and \<open>DoomsdayCli\<close> (\<open>cli.py\<close>). The operations are a step
  relation with reachability; the invariant \<open>daemon_inv\<close> says that the journal is a legal chain of
  transitions; safety (no alarm without silence, DORMANT is final, disarming needs the key) and
  liveness (silence leads to the plan and to DORMANT) rest on it. \<open>Services\<close> runs the switch as
  \<open>centaur_start.py\<close> and \<open>run_doomsday.py\<close> do, main thread and ticking thread interleaved in any order, and
  holds the command line of the orchestrator.

  \<^bold>\<open>Mesh.\<close> \<open>Consensus\<close> (\<open>mesh/mesh/bft_consensus.py\<close>) and \<open>Mesh\<close> (\<open>peer_transport.py\<close>, concurrent
  rounds as an inductive step relation over messages in flight), \<open>Telemetry\<close>, \<open>Pqc\<close>, and
  \<open>EdgeNode\<close> (\<open>node_daemon.py\<close>), which composes them. \<open>MeshService\<close> adds the server of a node, the time a
  proposal takes with the synchronous facade over it, and the nodes the orchestrator launches; \<open>EdgeThreads\<close> follows the event
  loops that starting and stopping a node makes and ends, and refines \<open>EdgeNode\<close>.

  \<^bold>\<open>Operations.\<close> \<open>Orchestrator\<close> and \<open>Boot\<close> model \<open>centaur_start.py\<close> (starting, adopting and
  restarting services, the health probe, log rotation), \<open>FeedProcs\<close> the feed process that is paired with the
  trading daemon, as a refinement of \<open>Orchestrator\<close>, \<open>Evolution\<close> models
  \<open>evolution/evolution/code_agent.py\<close> and \<open>ci_prover.py\<close>, \<open>HealingLog\<close> the log of its patches as a file that
  is appended to and read back, \<open>Chronos\<close> the generator, the stress harness
  and the shadow sandbox.

  \<^bold>\<open>Bounds and fuel.\<close> No definition runs on fuel except \<open>DoomsdayCli.drive_to_dormant\<close>, whose count
  is the bound of the source's own loop. Loops are structural recursion or \<open>function\<close>s with a
  measure (\<open>read_exact\<close>, \<open>read_upto\<close>); the one loop that may not end is \<open>fetch_history\<close>.

  \<^bold>\<open>Not modelled.\<close> Sockets, threads and timeouts beyond their outcomes and order; argument
  parsing and printing; subprocess launching (its outcome is a parameter); the Rust kernel and the TypeScript gateway, which are other languages;
  the tests. Log text is ASCII.
\<close>

section \<open>Components together\<close>

text \<open>
  C29: The orchestrator's probe and the client agree on what the kernel sent: whatever reply the
  client's exchange returns, the probe on the same segments is True exactly when that reply
  contains the alive marker.
\<close>

theorem probe_agrees_with_client:
  assumes "length q < 2 ^ 32" "0 < length r" "length r \<le> MAX_FRAME_BYTES" "carries r ss"
  shows "fst (exchange q \<lparr>sk_sent = [], sk_segments = ss\<rparr>) = Ok r \<and>
    probe_constitution (Some ss) stalls = sublist alive_needle r"
proof -
  obtain h ss1 where h: "length h = 4" "unpack_be h = length r" "recv 4 (ss @ []) = (h, ss1 @ [])"
    "concat ss1 = r" "list_all (\<lambda>s. s \<noteq> []) ss1"
    by (rule carries_prefix [OF assms(3,4)])
  have rd: "read_upto (length r) ss1 = r" using read_upto_take [of ss1 "length r"] h(4,5) by simp
  have "probe_constitution (Some ss) stalls = sublist alive_needle r"
    using assms(2,3)
    h(1-3) by (simp add: probe_constitution_def Let_def rd MAX_FRAME_BYTES_def)
  moreover have "fst (exchange q \<lparr>sk_sent = [], sk_segments = ss\<rparr>) = Ok r"
    using exchange_reply [OF assms, of "\<lparr>sk_sent = [], sk_segments = ss\<rparr>" "[]"] by simp
  ultimately show ?thesis by simp
qed

lemma probe_agrees_with_client_witness:
  "probe_constitution (Some [[0, 0, 0, 12] @ take 3 alive_needle, drop 3 alive_needle]) True = sublist alive_needle alive_needle"
proof -
  have l: "length alive_needle = 12" by (simp add: alive_needle_def)
  have c: "carries alive_needle [[0, 0, 0, 12] @ take 3 alive_needle, drop 3 alive_needle]"
    using l by (auto simp: carries_def frame_def pack_be_def)
  show ?thesis
    using probe_agrees_with_client [OF _ _ _ c, of "[1]" True] l by (simp add: MAX_FRAME_BYTES_def)
qed

text \<open>
  A dead kernel takes the dead-man switch with it. When the session has been closed by the
  kernel, the first tick that yields a proposal raises \<open>ConnectionError\<close>, the loop ends, and its
  cleanup stops the thread of the switch: from then on nothing counts the silence that the switch
  is there to act on.
\<close>

theorem kernel_loss_stops_switch:
  assumes "kc_session c = Some \<lparr>sk_sent = sent, sk_segments = []\<rparr>"
    and "td_running s"
    and "evaluate_market_tick parse render uuid (td_asset s) (prepare_tick s kvs) = Ok (Some p)"
    and "length (build_envelope C ''EvaluateProposal'' (co_dumps C (JObj [(''portfolio'', enc (td_portfolio s)), (''proposal'', encp p)]))) < 2 ^ 32"
  shows "run_loop ops hooks ven (\<lambda>folio q. fst (evaluate C (enc folio) (encp q) c)) parse render (Market uuid kvs # es) s =
     (s\<lparr>td_ticking := False\<rparr>, Raise ConnectionError)"
proof -
  obtain h where "pack_be (length (build_envelope C ''EvaluateProposal''
      (co_dumps C (JObj [(''portfolio'', enc (td_portfolio s)), (''proposal'', encp p)])))) = Ok h"
    using pack_unpack [OF assms(4)] by blast
  then have "fst (evaluate C (enc (td_portfolio s)) (encp p) c) = Raise ConnectionError"
    using assms(1) by (simp add: evaluate_def call_def send_frame_def exchange_def Let_def)
  then show ?thesis
    using assms(2,3) by (simp add: run_loop_def process_tick_def adjudicate_def)
qed

definition plain_codec :: codec where
  "plain_codec = \<lparr>co_dumps = (\<lambda>_. ''{}''), co_encode = map of_char, co_decode = (\<lambda>_. Ok ''{}''), co_loads = (\<lambda>_. Ok JNull)\<rparr>"

lemma kernel_loss_stops_switch_witness:
  "\<forall>ops hooks. run_loop ops hooks mock_venue
      (\<lambda>folio q. fst (evaluate plain_codec (JFloat (pf_equity folio)) (JStr (tp_id q))
         \<lparr>kc_session = Some \<lparr>sk_sent = [], sk_segments = []\<rparr>\<rparr>)) (\<lambda>_. None) (\<lambda>_. []) [Market ''u-1''
      [(''price'', JInt 100), (''momentum_signal'', JBool True), (''trend'', JStr ''Bullish'')]] sample_trading =
    (sample_trading\<lparr>td_ticking := False\<rparr>, Raise ConnectionError)"
proof (intro allI)
  fix ops hooks
  let ?t = "[(''price'', JInt 100), (''momentum_signal'', JBool True), (''trend'', JStr ''Bullish'')]"
  have "case evaluate_market_tick (\<lambda>_. None) (\<lambda>_. []) ''u-1'' (td_asset sample_trading) (prepare_tick sample_trading ?t) of
     Inr (Some p) \<Rightarrow> True | _ \<Rightarrow> False"
    by code_simp
  then obtain p where "evaluate_market_tick (\<lambda>_. None) (\<lambda>_. []) ''u-1'' (td_asset sample_trading) (prepare_tick sample_trading ?t) = Ok (Some p)"
    by (auto split: sum.splits option.splits)
  then show "run_loop ops hooks mock_venue
      (\<lambda>folio q. fst (evaluate plain_codec (JFloat (pf_equity folio)) (JStr (tp_id q))
         \<lparr>kc_session = Some \<lparr>sk_sent = [], sk_segments = []\<rparr>\<rparr>)) (\<lambda>_. None) (\<lambda>_. []) [Market ''u-1'' ?t] sample_trading =
    (sample_trading\<lparr>td_ticking := False\<rparr>, Raise ConnectionError)"
    by (intro kernel_loss_stops_switch) (simp_all add: sample_trading_def build_envelope_def plain_codec_def)
qed

end
